(* ===== verification/KV_Prelude.thy ===== *)
theory KV_Prelude
  imports Main "HOL-Library.Word" "HOL-Library.AList" "HOL-Library.Monad_Syntax"
    "HOL-Library.List_Lexorder" "HOL-Library.Sublist"
begin

unbundle bit_operations_syntax

text \<open>
  The vocabulary every other theory uses: Go's \<^verbatim>\<open>uint64\<close>, \<^verbatim>\<open>byte\<close>, \<^verbatim>\<open>[]byte\<close>, \<^verbatim>\<open>string\<close>,
  \<^verbatim>\<open>map\<close> and \<^verbatim>\<open>error\<close>, the ascending loop \<^verbatim>\<open>for i := lo; i <= hi; i++\<close> with Go's wrap-around,
  \<^verbatim>\<open>encoding/binary\<close>'s big-endian \<^verbatim>\<open>uint64\<close>, and the generic lemmas about them.

  An operation of the source that can panic or loop for ever has a result of type
  \<^typ>\<open>'a option\<close>: \<^const>\<open>None\<close> says that the call does not return normally. An operation that
  reports an error returns it in an \<^verbatim>\<open>error\<close> component of its own type \<open>goerror\<close>.
\<close>

section \<open>Types of the source language\<close>

type_synonym u64 = "64 word"
type_synonym byte = "8 word"
type_synonym bytes = "byte list"

text \<open>
  A Go map is an association list with distinct keys. Go leaves the iteration order open; the
  list order stands for one such order, and the lemmas never depend on which one it is.
\<close>

type_synonym ('k, 'v) gomap = "('k \<times> 'v) list"

text \<open>
  The error values the code distinguishes. \<open>ErrOther\<close> is any other error, with its text.
  \<open>ErrDeadlineExceeded\<close> and \<open>ErrCanceled\<close> are the two errors of \<^verbatim>\<open>context\<close>.
\<close>

datatype goerror =
    ErrNotFound
  | ErrNotExist
  | ErrNotLeader
  | ErrProposalDropped
  | ErrReadIndexTimeout
  | ErrDeadlineExceeded
  | ErrCanceled
  | ErrOther string
  | ErrWrapped string goerror

definition gomap_ok :: "('k, 'v) gomap \<Rightarrow> bool" where
  "gomap_ok m = distinct (map fst m)"

text \<open>Reading an absent key of a Go map with \<^verbatim>\<open>uint64\<close> values gives the zero value.\<close>

definition lookup0 :: "('k, u64) gomap \<Rightarrow> 'k \<Rightarrow> u64" where
  "lookup0 m k = (case map_of m k of None \<Rightarrow> 0 | Some v \<Rightarrow> v)"

definition bytes_of_string :: "string \<Rightarrow> bytes" where
  "bytes_of_string s = map of_char s"

definition string_of_bytes :: "bytes \<Rightarrow> string" where
  "string_of_bytes b = map (\<lambda>x. char_of (unat x)) b"

text \<open>
  \<^verbatim>\<open>binary.BigEndian.PutUint64\<close> writes eight bytes, the most significant first;
  \<^verbatim>\<open>binary.BigEndian.Uint64\<close> reads the first eight bytes of a slice and panics on a shorter one.
\<close>

definition put_u64 :: "u64 \<Rightarrow> bytes" where
  "put_u64 v = [ucast (drop_bit 56 v), ucast (drop_bit 48 v), ucast (drop_bit 40 v),
     ucast (drop_bit 32 v), ucast (drop_bit 24 v), ucast (drop_bit 16 v), ucast (drop_bit 8 v),
     ucast v]"

definition get_u64 :: "bytes \<Rightarrow> u64 option" where
  "get_u64 b = (if length b < 8 then None else
     Some (ucast (b ! 7) OR push_bit 8 (ucast (b ! 6)) OR push_bit 16 (ucast (b ! 5))
       OR push_bit 24 (ucast (b ! 4)) OR push_bit 32 (ucast (b ! 3)) OR push_bit 40 (ucast (b ! 2))
       OR push_bit 48 (ucast (b ! 1)) OR push_bit 56 (ucast (b ! 0))))"

text \<open>
  The loop \<^verbatim>\<open>for i := lo; i <= hi; i++ { s = f(i, s) }\<close> over \<^verbatim>\<open>uint64\<close>. The increment wraps, so
  for \<open>hi = 2\<^sup>6\<^sup>4 - 1\<close> the guard never fails and the loop does not return. The second version
  leaves the loop at the first error of its body.
\<close>

partial_function (option) for_upto ::
    "u64 \<Rightarrow> u64 \<Rightarrow> (u64 \<Rightarrow> 's \<Rightarrow> 's) \<Rightarrow> 's \<Rightarrow> 's option" where
  "for_upto i hi f s = (if i \<le> hi then for_upto (i + 1) hi f (f i s) else Some s)"

partial_function (option) for_upto_err ::
    "u64 \<Rightarrow> u64 \<Rightarrow> (u64 \<Rightarrow> 's \<Rightarrow> 'e + 's) \<Rightarrow> 's \<Rightarrow> ('e + 's) option" where
  "for_upto_err i hi f s =
     (if i \<le> hi
      then (case f i s of Inl e \<Rightarrow> Some (Inl e) | Inr s' \<Rightarrow> for_upto_err (i + 1) hi f s')
      else Some (Inr s))"

declare for_upto.simps [code] for_upto_err.simps [code]

text \<open>The indices \<open>lo, lo + 1, \<dots>, hi\<close>.\<close>

definition u64_range :: "u64 \<Rightarrow> u64 \<Rightarrow> u64 list" where
  "u64_range lo hi = map of_nat [unat lo..<Suc (unat hi)]"

text \<open>The body of a loop with early exit, run over a list.\<close>

fun fold_err :: "('a \<Rightarrow> 's \<Rightarrow> 'e + 's) \<Rightarrow> 'a list \<Rightarrow> 's \<Rightarrow> 'e + 's" where
  "fold_err f [] s = Inr s"
| "fold_err f (x # xs) s = (case f x s of Inl e \<Rightarrow> Inl e | Inr s' \<Rightarrow> fold_err f xs s')"

section \<open>Strings and integers as bytes\<close>

named_theorems index_simps \<open>order facts on uint64 indices, by way of unat\<close>

lemma unat_of_char_byte [simp]: "unat (of_char x :: byte) = of_char x"
proof -
  have "(of_char x :: byte) = of_nat (of_char x)" by (simp only: of_nat_of_char)
  moreover have "(of_char x :: nat) < 256" by simp
  ultimately show ?thesis by (simp only: unat_of_nat) simp
qed

lemma of_char_byte_of_unat [simp]: "(of_char (char_of (unat x) :: char) :: byte) = x"
proof -
  have "(of_char (char_of (unat x) :: char) :: byte) = of_nat (of_char (char_of (unat x) :: char))"
    by (simp only: of_nat_of_char)
  also have "\<dots> = of_nat (unat x mod 256)" by (simp only: of_char_of)
  also have "unat x mod 256 = unat x" using unsigned_less[of x, where 'a = nat] by simp
  finally show ?thesis by simp
qed

lemma string_of_bytes_of_string [simp]: "string_of_bytes (bytes_of_string s) = s"
  by (induction s) (simp_all add: string_of_bytes_def bytes_of_string_def)

lemma bytes_of_string_of_bytes [simp]: "bytes_of_string (string_of_bytes b) = b"
  by (induction b) (simp_all add: string_of_bytes_def bytes_of_string_def)

lemma bytes_of_string_inj [simp]: "bytes_of_string s = bytes_of_string t \<longleftrightarrow> s = t"
  by (metis string_of_bytes_of_string)

lemma length_put_u64 [simp]: "length (put_u64 x) = 8"
  by (simp add: put_u64_def)

lemma bit_byte_lane: "bit (push_bit k (ucast (ucast (drop_bit k x) :: byte)) :: u64) n
    \<longleftrightarrow> k \<le> n \<and> n < k + 8 \<and> n < 64 \<and> bit (x :: u64) n"
  by (auto simp: bit_push_bit_iff bit_ucast_iff bit_drop_bit_eq)

lemma bit_byte_lane0: "bit (ucast (ucast x :: byte) :: u64) n \<longleftrightarrow> n < 8 \<and> bit (x :: u64) n"
  by (auto simp: bit_ucast_iff)

lemma byte_lanes:
  fixes x :: u64
  defines "b \<equiv> \<lambda>k. ucast (drop_bit k x) :: byte"
  shows "ucast (ucast x :: byte) OR push_bit 8 (ucast (b 8)) OR push_bit 16 (ucast (b 16))
      OR push_bit 24 (ucast (b 24)) OR push_bit 32 (ucast (b 32)) OR push_bit 40 (ucast (b 40))
      OR push_bit 48 (ucast (b 48)) OR push_bit 56 (ucast (b 56)) = x" (is "?l = x")
proof (rule bit_word_eqI)
  fix n assume n: "n < LENGTH(64)"
  have "bit ?l n = (n < 64 \<and> bit x n)"
    unfolding b_def bit_or_iff bit_byte_lane bit_byte_lane0 by linarith
  then show "bit ?l n = bit x n" using n by simp
qed

lemma get_put_u64 [simp]: "get_u64 (put_u64 x) = Some x"
  by (simp add: get_u64_def put_u64_def byte_lanes)

lemma put_u64_inj [simp]: "put_u64 x = put_u64 y \<longleftrightarrow> x = y"
  by (metis get_put_u64 option.inject)

lemma byte_bit_ge: "8 \<le> n \<Longrightarrow> \<not> bit (b :: byte) n"
  using bit_imp_le_length[of b n] by auto

lemma put_get_u64: "length b = 8 \<Longrightarrow> get_u64 b = Some x \<Longrightarrow> put_u64 x = b"
proof -
  assume l: "length b = 8" and g: "get_u64 b = Some x"
  obtain b0 b1 b2 b3 b4 b5 b6 b7 where b: "b = [b0, b1, b2, b3, b4, b5, b6, b7]"
    using l by (auto simp: length_Suc_conv numeral_eq_Suc)
  from g have x: "x = ucast b7 OR push_bit 8 (ucast b6) OR push_bit 16 (ucast b5)
       OR push_bit 24 (ucast b4) OR push_bit 32 (ucast b3) OR push_bit 40 (ucast b2)
       OR push_bit 48 (ucast b1) OR push_bit 56 (ucast b0)"
    by (simp add: b get_u64_def)
  have "ucast (drop_bit 56 x) = b0"
    unfolding x by (rule bit_word_eqI, simp only: bit_drop_bit_eq bit_or_iff bit_push_bit_iff
      bit_ucast_iff o_def, auto simp: byte_bit_ge)
  moreover
  have "ucast (drop_bit 48 x) = b1"
    unfolding x by (rule bit_word_eqI, simp only: bit_drop_bit_eq bit_or_iff bit_push_bit_iff
      bit_ucast_iff o_def, auto simp: byte_bit_ge)
  moreover
  have "ucast (drop_bit 40 x) = b2"
    unfolding x by (rule bit_word_eqI, simp only: bit_drop_bit_eq bit_or_iff bit_push_bit_iff
      bit_ucast_iff o_def, auto simp: byte_bit_ge)
  moreover
  have "ucast (drop_bit 32 x) = b3"
    unfolding x by (rule bit_word_eqI, simp only: bit_drop_bit_eq bit_or_iff bit_push_bit_iff
      bit_ucast_iff o_def, auto simp: byte_bit_ge)
  moreover
  have "ucast (drop_bit 24 x) = b4"
    unfolding x by (rule bit_word_eqI, simp only: bit_drop_bit_eq bit_or_iff bit_push_bit_iff
      bit_ucast_iff o_def, auto simp: byte_bit_ge)
  moreover
  have "ucast (drop_bit 16 x) = b5"
    unfolding x by (rule bit_word_eqI, simp only: bit_drop_bit_eq bit_or_iff bit_push_bit_iff
      bit_ucast_iff o_def, auto simp: byte_bit_ge)
  moreover
  have "ucast (drop_bit 8 x) = b6"
    unfolding x by (rule bit_word_eqI, simp only: bit_drop_bit_eq bit_or_iff bit_push_bit_iff
      bit_ucast_iff o_def, auto simp: byte_bit_ge)
  moreover
  have "ucast x = b7"
    unfolding x by (rule bit_word_eqI, simp only: bit_or_iff bit_push_bit_iff bit_ucast_iff,
      auto simp: byte_bit_ge)
  ultimately show ?thesis unfolding b put_u64_def by simp
qed

section \<open>Ranges of indices and the ascending loop\<close>

lemma u64_max: "unat (x :: u64) < 2 ^ 64"
  using unsigned_less[of x, where 'a = nat] by simp

lemma not_max_unat: "(x :: u64) \<noteq> - 1 \<longleftrightarrow> Suc (unat x) < 2 ^ 64"
proof -
  have "unat (- 1 :: u64) = 2 ^ 64 - 1" by (simp add: unsigned_minus_1_eq_mask mask_eq_exp_minus_1)
  moreover have "x = - 1 \<longleftrightarrow> unat x = unat (- 1 :: u64)" by (simp add: word_unat_eq_iff)
  ultimately show ?thesis using u64_max[of x] by auto
qed

lemma unat_succ [simp]: "(x :: u64) \<noteq> - 1 \<Longrightarrow> unat (x + 1) = Suc (unat x)"
  by (simp add: not_max_unat unat_word_ariths)

lemma less_max: "(x :: u64) < y \<Longrightarrow> x \<noteq> - 1"
  using word_order.extremum_strict by blast

lemma set_u64_range [simp]: "set (u64_range lo hi) = {lo..hi}"
proof (intro set_eqI iffI)
  fix x assume "x \<in> set (u64_range lo hi)"
  then obtain n where n: "unat lo \<le> n" "n \<le> unat hi" "x = of_nat n"
    by (auto simp: u64_range_def)
  moreover have "unat (of_nat n :: u64) = n"
    using n(2) u64_max[of hi] by (simp add: unat_of_nat)
  ultimately show "x \<in> {lo..hi}" by (simp add: word_le_nat_alt)
next
  fix x assume "x \<in> {lo..hi}"
  then show "x \<in> set (u64_range lo hi)"
    by (auto simp: u64_range_def word_le_nat_alt simp del: upt_Suc intro!: image_eqI[of _ _ "unat x"])
qed

lemma length_u64_range [simp]: "length (u64_range lo hi) = Suc (unat hi) - unat lo"
  by (simp add: u64_range_def del: upt_Suc)

lemma nth_u64_range: "k < length (u64_range lo hi) \<Longrightarrow> u64_range lo hi ! k = lo + of_nat k"
  by (simp add: u64_range_def del: upt_Suc)

lemma distinct_u64_range [simp]: "distinct (u64_range lo hi)"
proof -
  have "inj_on (of_nat :: nat \<Rightarrow> u64) (set [unat lo..<Suc (unat hi)])"
  proof (rule inj_onI)
    fix a b assume ab: "a \<in> set [unat lo..<Suc (unat hi)]" "b \<in> set [unat lo..<Suc (unat hi)]"
      "(of_nat a :: u64) = of_nat b"
    have "a < 2 ^ 64" "b < 2 ^ 64" using ab(1,2) u64_max[of hi] by auto
    then show "a = b" using arg_cong[OF ab(3), of unat] by (simp add: unat_of_nat)
  qed
  then show ?thesis by (simp add: u64_range_def distinct_map del: upt_Suc)
qed

lemma u64_range_empty [simp]: "hi < lo \<Longrightarrow> u64_range lo hi = []"
  by (simp add: u64_range_def word_less_nat_alt)

lemma u64_range_Cons: "lo \<le> hi \<Longrightarrow> lo \<noteq> - 1 \<Longrightarrow> u64_range lo hi = lo # u64_range (lo + 1) hi"
  by (simp add: u64_range_def word_le_nat_alt upt_conv_Cons del: upt_Suc)

lemma u64_range_snoc: "lo \<le> hi + 1 \<Longrightarrow> hi \<noteq> - 1 \<Longrightarrow> u64_range lo (hi + 1) = u64_range lo hi @ [hi + 1]"
  by (simp add: u64_range_def word_le_nat_alt)

lemma for_upto_range: "hi \<noteq> - 1 \<Longrightarrow> for_upto lo hi f s = Some (fold f (u64_range lo hi) s)"
proof (induction "Suc (unat hi) - unat lo" arbitrary: lo s)
  case 0
  then have "hi < lo" by (simp add: word_less_nat_alt)
  then show ?case by (simp add: for_upto.simps[of lo] not_le[symmetric])
next
  case (Suc n)
  then have le: "lo \<le> hi" by (simp add: word_le_nat_alt)
  then have lo: "lo \<noteq> - 1" using Suc.prems by (auto simp: word_order.extremum_unique)
  have "n = Suc (unat hi) - unat (lo + 1)" using Suc.hyps(2) lo by simp
  then have "for_upto (lo + 1) hi f (f lo s) = Some (fold f (u64_range (lo + 1) hi) (f lo s))"
    using Suc.hyps(1) Suc.prems by blast
  then show ?case using le lo by (simp add: for_upto.simps[of lo] u64_range_Cons)
qed

lemma for_upto_err_range:
  "hi \<noteq> - 1 \<Longrightarrow> for_upto_err lo hi f s = Some (fold_err f (u64_range lo hi) s)"
proof (induction "Suc (unat hi) - unat lo" arbitrary: lo s)
  case 0
  then have "hi < lo" by (simp add: word_less_nat_alt)
  then show ?case by (simp add: for_upto_err.simps[of lo] not_le[symmetric])
next
  case (Suc n)
  then have le: "lo \<le> hi" by (simp add: word_le_nat_alt)
  then have lo: "lo \<noteq> - 1" using Suc.prems by (auto simp: word_order.extremum_unique)
  have n: "n = Suc (unat hi) - unat (lo + 1)" using Suc.hyps(2) lo by simp
  show ?case
    using le lo Suc.hyps(1)[OF n Suc.prems]
    by (auto simp: for_upto_err.simps[of lo] u64_range_Cons split: sum.splits)
qed

text \<open>With the largest index as its bound the loop never returns.\<close>

lemma for_upto_max_diverges: "for_upto lo (- 1) f s = None"
proof (rule ccontr)
  assume "for_upto lo (- 1) f s \<noteq> None"
  then obtain r where ret: "for_upto lo (- 1) f s = Some r" by blast
  have "(- 1 :: u64) = - 1 \<longrightarrow> False"
  proof (rule for_upto.raw_induct [where P = "\<lambda>i hi f s r. hi = - 1 \<longrightarrow> False", OF _ ret])
    fix ff and i hi :: u64 and f s r
    assume IH: "\<And>i hi f s r. ff i hi f s = Some r \<Longrightarrow> hi = - 1 \<longrightarrow> False"
      and eq: "(if i \<le> hi then ff (i + 1) hi f (f i s) else Some s) = Some r"
    show "hi = - 1 \<longrightarrow> False"
    proof
      assume h: "hi = - 1"
      then have "i \<le> hi" by (simp add: word_order.extremum)
      then have "ff (i + 1) hi f (f i s) = Some r" using eq by simp
      from IH[OF this] h show False by blast
    qed
  qed
  then show False by simp
qed

section \<open>Go maps\<close>

lemma gomap_ok_Nil [simp]: "gomap_ok []"
  by (simp add: gomap_ok_def)

lemma gomap_ok_update [simp]: "gomap_ok m \<Longrightarrow> gomap_ok (AList.update k v m)"
  by (simp add: gomap_ok_def distinct_update)

lemma gomap_ok_delete [simp]: "gomap_ok m \<Longrightarrow> gomap_ok (AList.delete k m)"
  by (simp add: gomap_ok_def distinct_delete)

lemma gomap_ok_filter [simp]: "gomap_ok m \<Longrightarrow> gomap_ok (filter P m)"
  unfolding gomap_ok_def by (induction m) auto

lemma map_of_filter_key:
  "gomap_ok m \<Longrightarrow> map_of (filter (\<lambda>(k, v). P k) m) k = (if P k then map_of m k else None)"
  by (induction m) (auto simp: gomap_ok_def)

lemma gomap_ok_fold_delete [simp]: "gomap_ok m \<Longrightarrow> gomap_ok (fold AList.delete ks m)"
  by (induction ks arbitrary: m) auto

lemma map_of_fold_delete:
  "map_of (fold AList.delete ks m) k = (if k \<in> set ks then None else map_of m k)"
  by (induction ks arbitrary: m) (auto simp: delete_conv')

lemma lookup0_update [simp]:
  "lookup0 (AList.update k v m) j = (if j = k then v else lookup0 m j)"
  by (simp add: lookup0_def update_conv')

lemma lookup0_Nil [simp]: "lookup0 [] k = 0"
  by (simp add: lookup0_def)

section \<open>Index arithmetic, collecting loops and the order of byte strings\<close>

lemma plus_of_nat_eq: "unat a + k = unat b \<Longrightarrow> a + of_nat k = (b :: u64)"
proof -
  assume "unat a + k = unat b"
  then have "(of_nat (unat a + k) :: u64) = of_nat (unat b)" by simp
  then show ?thesis by simp
qed

lemma unat_plus_of_nat: "unat (a :: u64) + k < 2 ^ 64 \<Longrightarrow> unat (a + of_nat k) = unat a + k"
  by (simp add: unat_word_ariths unat_of_nat mod_add_right_eq)

lemma unat_pred_less: "a < x \<Longrightarrow> unat (x - 1) < unat (x :: u64)"
proof -
  assume "a < x"
  then have "x \<noteq> 0" by auto
  then show ?thesis by (simp add: unat_minus_one unat_gt_0)
qed

lemma unat_gap_less: "a < b \<Longrightarrow> unat b - unat (a + 1) < unat b - unat (a :: u64)"
  using less_max[of a b] by (simp add: word_less_nat_alt)

lemma fold_err_collect:
  "(\<And>x. x \<in> set xs \<Longrightarrow> g x = Inr (h x)) \<Longrightarrow>
   fold_err (\<lambda>x acc. case g x of Inl err \<Rightarrow> Inl err | Inr e \<Rightarrow> Inr (acc @ [e])) xs acc
     = Inr (acc @ map h xs)"
  by (induction xs arbitrary: acc) auto

lemma unat_in_Cons_range:
  assumes "unat (i0 :: u64) + length (e # es) < 2 ^ 64"
  shows "i0 \<noteq> - 1" "unat (i0 + 1) = Suc (unat i0)" "unat (i0 + 1) + length es < 2 ^ 64"
proof -
  show ne: "i0 \<noteq> - 1" using assms by (simp add: not_max_unat)
  show "unat (i0 + 1) = Suc (unat i0)" "unat (i0 + 1) + length es < 2 ^ 64"
    using assms unat_succ[OF ne] by simp_all
qed

lemma nth_Cons_diff: "a < b \<Longrightarrow> (x # xs) ! (b - a) = xs ! (b - Suc a)"
  by (simp add: nth_Cons')

lemma append_le_append [simp]: "(p @ x \<le> p @ y) \<longleftrightarrow> (x \<le> (y :: 'a :: linorder list))"
  by (induction p) auto

lemma append_less_append [simp]: "(p @ x < p @ y) \<longleftrightarrow> (x < (y :: 'a :: linorder list))"
  by (induction p) auto

lemma le_append [simp]: "(p :: 'a :: linorder list) \<le> p @ x"
  by (induction p) auto

lemma between_prefix: "p @ [b] \<le> k \<Longrightarrow> k < p @ [c] \<Longrightarrow> prefix p (k :: 'a :: linorder list)"
proof (induction p arbitrary: k)
  case (Cons a p)
  then show ?case by (cases k) auto
qed simp

lemma byte_top: "(b :: byte) + 1 = 0 \<Longrightarrow> b = - 1"
  by (simp add: add_eq_0_iff2)

lemma byte_less_succ: "(b :: byte) + 1 \<noteq> 0 \<Longrightarrow> x < b + 1 \<longleftrightarrow> x \<le> b"
proof -
  assume nz: "b + 1 \<noteq> 0"
  have "b \<noteq> - 1"
  proof
    assume "b = - 1"
    then show False using nz by simp
  qed
  then have "b < b + 1" using inc_less_eq_self_iff_eq[of b] by (simp only: not_le[symmetric] simp_thms)
  then show ?thesis using less_inc_imp_less_eq[of x b] by (meson order.strict_trans1)
qed

end
