(* ===== verification/Storage.thy ===== *)
theory Storage
  imports KV_Prelude
begin

text \<open>
  \<^verbatim>\<open>internal/storage\<close>: the embedded key-value engine. \<^verbatim>\<open>storage.go\<close> declares the interface
  \<open>Engine\<close> (here the record \<open>engine\<close> of its methods, over a type \<open>'d\<close> of engine states);
  \<^verbatim>\<open>pebble.go\<close> implements it on \<^verbatim>\<open>github.com/cockroachdb/pebble\<close>. Pebble itself is third-party
  code: the record \<open>pebble\<close> of its calls is a parameter, and the locale \<open>pebble_contract\<close> states
  its documented behaviour. The locale \<open>engine_contract\<close> states what \<^verbatim>\<open>storage.go\<close> promises of
  every engine; \<open>PebbleEngine\<close> keeps that promise on every Pebble that keeps its own.
\<close>

section \<open>storage.go\<close>

record write_options =
  Sync :: bool

datatype batch_op = BatchSet bytes bytes | BatchDelete bytes

text \<open>
  A batch is the list of the writes recorded so far. An iterator that is not closed is the list
  of the pairs from its current position on: \<^verbatim>\<open>Valid\<close> asks whether it is non-empty, \<^verbatim>\<open>Next\<close> drops
  its head, \<^verbatim>\<open>Key\<close> and \<^verbatim>\<open>Value\<close> read the head.
\<close>

type_synonym batch = "batch_op list"
type_synonym kviter = "(bytes \<times> bytes) list"

record 'd engine =
  Engine_Get :: "'d \<Rightarrow> bytes \<Rightarrow> goerror + bytes"
  Engine_Set :: "'d \<Rightarrow> bytes \<Rightarrow> bytes \<Rightarrow> write_options \<Rightarrow> 'd \<times> goerror option"
  Engine_Delete :: "'d \<Rightarrow> bytes \<Rightarrow> write_options \<Rightarrow> 'd \<times> goerror option"
  Engine_Commit :: "'d \<Rightarrow> batch \<Rightarrow> write_options \<Rightarrow> 'd \<times> goerror option"
  Engine_NewIterator :: "'d \<Rightarrow> bytes \<Rightarrow> bytes option \<Rightarrow> goerror + kviter"
  Engine_Close :: "'d \<Rightarrow> 'd \<times> goerror option"

section \<open>pebble.go\<close>

datatype pebble_error = PebbleErrNotFound | PebbleErr string

text \<open>
  The calls of Pebble the adapter makes. \<open>pebble_closer\<close> is \<^verbatim>\<open>closer.Close()\<close> for the value that
  \<^verbatim>\<open>Get\<close> returned; \<open>pebble_commit\<close> is \<^verbatim>\<open>Batch.Commit\<close> of the recorded writes; \<open>pebble_newiter\<close> is
  \<^verbatim>\<open>NewIter\<close> followed by the walk from \<^verbatim>\<open>First\<close> on; the flag is \<^verbatim>\<open>pebble.Sync\<close> or \<^verbatim>\<open>pebble.NoSync\<close>.
\<close>

record 'd pebble =
  pebble_open :: "string \<Rightarrow> pebble_error + 'd"
  pebble_get :: "'d \<Rightarrow> bytes \<Rightarrow> pebble_error + bytes"
  pebble_closer :: "'d \<Rightarrow> bytes \<Rightarrow> pebble_error option"
  pebble_set :: "'d \<Rightarrow> bytes \<Rightarrow> bytes \<Rightarrow> bool \<Rightarrow> 'd \<times> pebble_error option"
  pebble_delete :: "'d \<Rightarrow> bytes \<Rightarrow> bool \<Rightarrow> 'd \<times> pebble_error option"
  pebble_commit :: "'d \<Rightarrow> batch \<Rightarrow> bool \<Rightarrow> 'd \<times> pebble_error option"
  pebble_newiter :: "'d \<Rightarrow> bytes \<Rightarrow> bytes option \<Rightarrow> pebble_error + kviter"
  pebble_close :: "'d \<Rightarrow> 'd \<times> pebble_error option"

text \<open>An error of Pebble that is passed on as it is. It is never \<^verbatim>\<open>storage.ErrNotFound\<close>.\<close>

definition passed_on :: "pebble_error \<Rightarrow> goerror" where
  "passed_on e =
     (case e of PebbleErrNotFound \<Rightarrow> ErrOther ''pebble: not found'' | PebbleErr s \<Rightarrow> ErrOther s)"

definition syncOpt :: "write_options \<Rightarrow> bool" where
  "syncOpt opts = (if Sync opts then True else False)"

definition OpenPebble :: "'d pebble \<Rightarrow> string \<Rightarrow> goerror + 'd" where
  "OpenPebble P dir = (case pebble_open P dir of Inl e \<Rightarrow> Inl (passed_on e) | Inr db \<Rightarrow> Inr db)"

definition PebbleEngine_Get :: "'d pebble \<Rightarrow> 'd \<Rightarrow> bytes \<Rightarrow> goerror + bytes" where
  "PebbleEngine_Get P db key =
     (case pebble_get P db key of
        Inl e \<Rightarrow> if e = PebbleErrNotFound then Inl ErrNotFound else Inl (passed_on e)
      | Inr v \<Rightarrow>
          (case pebble_closer P db key of
             Some cerr \<Rightarrow> Inl (passed_on cerr)
           | None \<Rightarrow> Inr v))"

definition PebbleEngine_Set ::
    "'d pebble \<Rightarrow> 'd \<Rightarrow> bytes \<Rightarrow> bytes \<Rightarrow> write_options \<Rightarrow> 'd \<times> goerror option" where
  "PebbleEngine_Set P db key v opts =
     map_prod id (map_option passed_on) (pebble_set P db key v (syncOpt opts))"

definition PebbleEngine_Delete ::
    "'d pebble \<Rightarrow> 'd \<Rightarrow> bytes \<Rightarrow> write_options \<Rightarrow> 'd \<times> goerror option" where
  "PebbleEngine_Delete P db key opts =
     map_prod id (map_option passed_on) (pebble_delete P db key (syncOpt opts))"

definition NewBatch :: batch where
  "NewBatch = []"

definition Batch_Set :: "batch \<Rightarrow> bytes \<Rightarrow> bytes \<Rightarrow> batch" where
  "Batch_Set b key v = b @ [BatchSet key v]"

definition Batch_Delete :: "batch \<Rightarrow> bytes \<Rightarrow> batch" where
  "Batch_Delete b key = b @ [BatchDelete key]"

definition PebbleBatch_Commit ::
    "'d pebble \<Rightarrow> 'd \<Rightarrow> batch \<Rightarrow> write_options \<Rightarrow> 'd \<times> goerror option" where
  "PebbleBatch_Commit P db b opts =
     map_prod id (map_option passed_on) (pebble_commit P db b (syncOpt opts))"

definition PebbleEngine_NewIterator ::
    "'d pebble \<Rightarrow> 'd \<Rightarrow> bytes \<Rightarrow> bytes option \<Rightarrow> goerror + kviter" where
  "PebbleEngine_NewIterator P db lower upper =
     (case pebble_newiter P db lower upper of Inl e \<Rightarrow> Inl (passed_on e) | Inr it \<Rightarrow> Inr it)"

definition PebbleEngine_Close :: "'d pebble \<Rightarrow> 'd \<Rightarrow> 'd \<times> goerror option" where
  "PebbleEngine_Close P db = map_prod id (map_option passed_on) (pebble_close P db)"

definition PebbleEngine :: "'d pebble \<Rightarrow> 'd engine" where
  "PebbleEngine P =
     \<lparr>Engine_Get = PebbleEngine_Get P, Engine_Set = PebbleEngine_Set P,
      Engine_Delete = PebbleEngine_Delete P, Engine_Commit = PebbleBatch_Commit P,
      Engine_NewIterator = PebbleEngine_NewIterator P, Engine_Close = PebbleEngine_Close P\<rparr>"

section \<open>What a batch and an iterator do to the stored pairs\<close>

fun apply_op :: "(bytes \<rightharpoonup> bytes) \<Rightarrow> batch_op \<Rightarrow> (bytes \<rightharpoonup> bytes)" where
  "apply_op m (BatchSet k v) = m(k \<mapsto> v)"
| "apply_op m (BatchDelete k) = m(k := None)"

definition apply_batch :: "(bytes \<rightharpoonup> bytes) \<Rightarrow> batch \<Rightarrow> (bytes \<rightharpoonup> bytes)" where
  "apply_batch m b = foldl apply_op m b"

definition in_bounds :: "bytes \<Rightarrow> bytes option \<Rightarrow> bytes \<Rightarrow> bool" where
  "in_bounds lower upper k = (lower \<le> k \<and> (case upper of None \<Rightarrow> True | Some u \<Rightarrow> k < u))"

text \<open>An iterator yields the pairs in the bounds, in strictly ascending key order.\<close>

definition iterates :: "(bytes \<rightharpoonup> bytes) \<Rightarrow> bytes \<Rightarrow> bytes option \<Rightarrow> kviter \<Rightarrow> bool" where
  "iterates m lower upper it =
     (sorted_wrt (<) (map fst it) \<and>
      (\<forall>k v. (k, v) \<in> set it \<longleftrightarrow> m k = Some v \<and> in_bounds lower upper k))"

section \<open>An in-memory Pebble\<close>

text \<open>
  A concrete instance of the parameter, for the witnesses: a sorted association list with a script
  of write faults. A write takes one element off the script and fails when it is \<open>True\<close>; when the
  script is empty every write succeeds.
\<close>

record memdb =
  mem_pairs :: "(bytes, bytes) gomap"
  mem_faults :: "bool list"

definition mem_write :: "memdb \<Rightarrow> batch \<Rightarrow> memdb \<times> pebble_error option" where
  "mem_write d b =
     (let d' = d\<lparr>mem_faults := tl (mem_faults d)\<rparr>
      in if mem_faults d \<noteq> [] \<and> hd (mem_faults d)
         then (d', Some (PebbleErr ''i/o error''))
         else (d'\<lparr>mem_pairs :=
            foldl (\<lambda>m w. case w of BatchSet k v \<Rightarrow> AList.update k v m | BatchDelete k \<Rightarrow> AList.delete k m)
              (mem_pairs d) b\<rparr>, None))"

definition mem_iter :: "memdb \<Rightarrow> bytes \<Rightarrow> bytes option \<Rightarrow> kviter" where
  "mem_iter d lower upper =
     sort_key fst (filter (\<lambda>(k, v). in_bounds lower upper k) (AList.clearjunk (mem_pairs d)))"

definition mem_pebble :: "memdb pebble" where
  "mem_pebble =
     \<lparr>pebble_open = (\<lambda>dir. Inr \<lparr>mem_pairs = [], mem_faults = []\<rparr>),
      pebble_get = (\<lambda>d k. case map_of (mem_pairs d) k of
         None \<Rightarrow> Inl PebbleErrNotFound | Some v \<Rightarrow> Inr v),
      pebble_closer = (\<lambda>d k. None),
      pebble_set = (\<lambda>d k v s. mem_write d [BatchSet k v]),
      pebble_delete = (\<lambda>d k s. mem_write d [BatchDelete k]),
      pebble_commit = (\<lambda>d b s. mem_write d b),
      pebble_newiter = (\<lambda>d lower upper. Inr (mem_iter d lower upper)),
      pebble_close = (\<lambda>d. (d, None))\<rparr>"

definition mem_content :: "memdb \<Rightarrow> bytes \<rightharpoonup> bytes" where
  "mem_content d = map_of (mem_pairs d)"

definition mem_empty :: memdb where
  "mem_empty = \<lparr>mem_pairs = [], mem_faults = []\<rparr>"

section \<open>The contracts\<close>

text \<open>
  The engine's contract, from the comments of \<^verbatim>\<open>storage.go\<close>: \<^verbatim>\<open>Get\<close> returns the stored value or
  \<^verbatim>\<open>ErrNotFound\<close>, a batch is applied atomically, an iterator walks \<^verbatim>\<open>[lower, upper)\<close> in ascending
  order. Any call may instead fail with another error; a failed write leaves the pairs unchanged.
  \<open>content d\<close> is the stored pairs of the engine state \<open>d\<close>.
\<close>

locale engine_contract =
  fixes E :: "'d engine" and content :: "'d \<Rightarrow> bytes \<rightharpoonup> bytes"
  assumes get_value: "Engine_Get E d k = Inr v \<Longrightarrow> content d k = Some v"
    and get_absent: "Engine_Get E d k = Inl ErrNotFound \<Longrightarrow> content d k = None"
    and set_done: "Engine_Set E d k v w = (d', None) \<Longrightarrow> content d' = (content d)(k \<mapsto> v)"
    and set_failed: "Engine_Set E d k v w = (d', Some e) \<Longrightarrow> content d' = content d"
    and delete_done: "Engine_Delete E d k w = (d', None) \<Longrightarrow> content d' = (content d)(k := None)"
    and delete_failed: "Engine_Delete E d k w = (d', Some e) \<Longrightarrow> content d' = content d"
    and commit_done: "Engine_Commit E d b w = (d', None) \<Longrightarrow> content d' = apply_batch (content d) b"
    and commit_failed: "Engine_Commit E d b w = (d', Some e) \<Longrightarrow> content d' = content d"
    and iterator_walks: "Engine_NewIterator E d l u = Inr it \<Longrightarrow> iterates (content d) l u it"

text \<open>An engine whose reads do not fail.\<close>

locale engine_reads = engine_contract +
  assumes get_present: "content d k = Some v \<Longrightarrow> Engine_Get E d k = Inr v"
    and get_missing: "content d k = None \<Longrightarrow> Engine_Get E d k = Inl ErrNotFound"
    and iterator_opens: "\<exists>it. Engine_NewIterator E d l u = Inr it"

text \<open>The documented behaviour of Pebble, in the same terms.\<close>

locale pebble_contract =
  fixes P :: "'d pebble" and content :: "'d \<Rightarrow> bytes \<rightharpoonup> bytes"
  assumes pget_value: "pebble_get P d k = Inr v \<Longrightarrow> content d k = Some v"
    and pget_absent: "pebble_get P d k = Inl PebbleErrNotFound \<Longrightarrow> content d k = None"
    and pset_done: "pebble_set P d k v s = (d', None) \<Longrightarrow> content d' = (content d)(k \<mapsto> v)"
    and pset_failed: "pebble_set P d k v s = (d', Some e) \<Longrightarrow> content d' = content d"
    and pdelete_done: "pebble_delete P d k s = (d', None) \<Longrightarrow> content d' = (content d)(k := None)"
    and pdelete_failed: "pebble_delete P d k s = (d', Some e) \<Longrightarrow> content d' = content d"
    and pcommit_done: "pebble_commit P d b s = (d', None) \<Longrightarrow> content d' = apply_batch (content d) b"
    and pcommit_failed: "pebble_commit P d b s = (d', Some e) \<Longrightarrow> content d' = content d"
    and pnewiter_walks: "pebble_newiter P d l u = Inr it \<Longrightarrow> iterates (content d) l u it"

locale pebble_reads = pebble_contract +
  assumes pget_present: "content d k = Some v \<Longrightarrow> pebble_get P d k = Inr v"
    and pget_missing: "content d k = None \<Longrightarrow> pebble_get P d k = Inl PebbleErrNotFound"
    and pcloser_ok: "pebble_closer P d k = None"
    and pnewiter_opens: "\<exists>it. pebble_newiter P d l u = Inr it"

section \<open>Batches\<close>

lemma apply_batch_Nil [simp]: "apply_batch m [] = m"
  by (simp add: apply_batch_def)

lemma apply_batch_Cons [simp]: "apply_batch m (w # b) = apply_batch (apply_op m w) b"
  by (simp add: apply_batch_def)

lemma apply_batch_append [simp]: "apply_batch m (b @ c) = apply_batch (apply_batch m b) c"
  by (simp add: apply_batch_def)

lemma apply_batch_NewBatch [simp]: "apply_batch m NewBatch = m"
  by (simp add: NewBatch_def)

lemma apply_batch_Set [simp]: "apply_batch m (Batch_Set b k v) = (apply_batch m b)(k \<mapsto> v)"
  by (simp add: Batch_Set_def)

lemma apply_batch_Delete [simp]: "apply_batch m (Batch_Delete b k) = (apply_batch m b)(k := None)"
  by (simp add: Batch_Delete_def)

lemma apply_batch_deletes:
  "apply_batch m (map BatchDelete ks) = (\<lambda>k. if k \<in> set ks then None else m k)"
  by (induction ks arbitrary: m) auto

section \<open>PebbleEngine keeps the engine's contract\<close>

lemma passed_on_not_ErrNotFound [simp]: "passed_on e \<noteq> ErrNotFound" "ErrNotFound \<noteq> passed_on e"
  by (auto simp: passed_on_def split: pebble_error.splits)

sublocale pebble_contract \<subseteq> pe: engine_contract "PebbleEngine P" content
proof (unfold_locales, goal_cases)
  case (1 d k v)
  then show ?case
    by (auto simp: PebbleEngine_def PebbleEngine_Get_def split: sum.splits if_splits option.splits
        intro: pget_value)
next
  case (2 d k)
  then show ?case
    by (auto simp: PebbleEngine_def PebbleEngine_Get_def split: sum.splits if_splits option.splits
        intro: pget_absent)
next
  case (3 d k v w d')
  then show ?case
    by (cases "pebble_set P d k v (syncOpt w)")
      (auto simp: PebbleEngine_def PebbleEngine_Set_def dest: pset_done)
next
  case (4 d k v w d' e)
  then show ?case
    by (cases "pebble_set P d k v (syncOpt w)")
      (auto simp: PebbleEngine_def PebbleEngine_Set_def dest: pset_failed)
next
  case (5 d k w d')
  then show ?case
    by (cases "pebble_delete P d k (syncOpt w)")
      (auto simp: PebbleEngine_def PebbleEngine_Delete_def dest: pdelete_done)
next
  case (6 d k w d' e)
  then show ?case
    by (cases "pebble_delete P d k (syncOpt w)")
      (auto simp: PebbleEngine_def PebbleEngine_Delete_def dest: pdelete_failed)
next
  case (7 d b w d')
  then show ?case
    by (cases "pebble_commit P d b (syncOpt w)")
      (auto simp: PebbleEngine_def PebbleBatch_Commit_def dest: pcommit_done)
next
  case (8 d b w d' e)
  then show ?case
    by (cases "pebble_commit P d b (syncOpt w)")
      (auto simp: PebbleEngine_def PebbleBatch_Commit_def dest: pcommit_failed)
next
  case (9 d l u it)
  then show ?case
    by (auto simp: PebbleEngine_def PebbleEngine_NewIterator_def split: sum.splits
        intro: pnewiter_walks)
qed

sublocale pebble_reads \<subseteq> pe: engine_reads "PebbleEngine P" content
proof (unfold_locales, goal_cases)
  case (1 d k v)
  then show ?case by (simp add: PebbleEngine_def PebbleEngine_Get_def pget_present pcloser_ok)
next
  case (2 d k)
  then show ?case by (simp add: PebbleEngine_def PebbleEngine_Get_def pget_missing)
next
  case (3 d l u)
  then show ?case
    using pnewiter_opens[of d l u] by (auto simp: PebbleEngine_def PebbleEngine_NewIterator_def)
qed

context pebble_contract
begin

lemma adapter_contract: "engine_contract (PebbleEngine P) content"
  by (rule pe.engine_contract_axioms)

end

context pebble_reads
begin

lemma adapter_reads: "engine_reads (PebbleEngine P) content"
  by (rule pe.engine_reads_axioms)

end

section \<open>The in-memory Pebble keeps Pebble's contract\<close>

lemma mem_pairs_foldl:
  "map_of (foldl (\<lambda>m w. case w of BatchSet k v \<Rightarrow> AList.update k v m | BatchDelete k \<Rightarrow> AList.delete k m)
     m b) = apply_batch (map_of m) b"
  by (induction b arbitrary: m) (auto simp: update_conv' delete_conv' split: batch_op.splits)

lemma mem_write_done: "mem_write d b = (d', None) \<Longrightarrow> mem_content d' = apply_batch (mem_content d) b"
  by (auto simp: mem_write_def mem_content_def Let_def mem_pairs_foldl split: if_splits)

lemma mem_write_failed: "mem_write d b = (d', Some e) \<Longrightarrow> mem_content d' = mem_content d"
  by (auto simp: mem_write_def mem_content_def Let_def split: if_splits)

lemma mem_iter_iterates: "iterates (mem_content d) l u (mem_iter d l u)"
proof -
  let ?cs = "AList.clearjunk (mem_pairs d)"
  have d: "distinct (map fst ?cs)" by (rule distinct_clearjunk)
  then have "distinct (map fst (filter (\<lambda>(k, v). in_bounds l u k) ?cs))"
    by (rule distinct_map_filter)
  then have "distinct (map fst (mem_iter d l u))"
    by (simp add: mem_iter_def distinct_map)
  moreover have "sorted (map fst (mem_iter d l u))" by (simp add: mem_iter_def)
  ultimately have "sorted_wrt (<) (map fst (mem_iter d l u))" by (simp add: strict_sorted_iff)
  moreover have "(k, v) \<in> set (mem_iter d l u) \<longleftrightarrow> mem_content d k = Some v \<and> in_bounds l u k" for k v
    using map_of_eq_Some_iff[OF d, of k v] by (auto simp: mem_iter_def mem_content_def map_of_clearjunk)
  ultimately show ?thesis by (simp add: iterates_def)
qed

interpretation mem: pebble_reads mem_pebble mem_content
proof (unfold_locales, goal_cases)
  case (3 d k v s d')
  then show ?case using mem_write_done[of d "[BatchSet k v]" d'] by (simp add: mem_pebble_def)
next
  case (5 d k s d')
  then show ?case using mem_write_done[of d "[BatchDelete k]" d'] by (simp add: mem_pebble_def)
qed (auto simp: mem_pebble_def mem_content_def mem_iter_iterates[unfolded mem_content_def]
      dest: mem_write_failed[unfolded mem_content_def] mem_write_done[unfolded mem_content_def]
      split: option.splits)

text \<open>With an empty script no write fails.\<close>

definition mem_reliable :: "memdb \<Rightarrow> bool" where
  "mem_reliable d = (mem_faults d = [])"

lemma mem_reliable_commit:
  "mem_reliable d \<Longrightarrow> \<exists>d'. Engine_Commit (PebbleEngine mem_pebble) d b w = (d', None) \<and> mem_reliable d'"
  by (simp add: PebbleEngine_def PebbleBatch_Commit_def mem_pebble_def mem_write_def mem_reliable_def)

lemma mem_reliable_set:
  "mem_reliable d \<Longrightarrow> \<exists>d'. Engine_Set (PebbleEngine mem_pebble) d k v w = (d', None) \<and> mem_reliable d'"
  by (simp add: PebbleEngine_def PebbleEngine_Set_def mem_pebble_def mem_write_def mem_reliable_def)

lemma mem_reliable_delete:
  "mem_reliable d \<Longrightarrow> \<exists>d'. Engine_Delete (PebbleEngine mem_pebble) d k w = (d', None) \<and> mem_reliable d'"
  by (simp add: PebbleEngine_def PebbleEngine_Delete_def mem_pebble_def mem_write_def mem_reliable_def)

lemma mem_reliable_empty [simp]: "mem_reliable mem_empty"
  by (simp add: mem_reliable_def mem_empty_def)

section \<open>An in-memory Pebble that never fails\<close>

definition sure_write :: "memdb \<Rightarrow> batch \<Rightarrow> memdb \<times> pebble_error option" where
  "sure_write d b = mem_write (d\<lparr>mem_faults := []\<rparr>) b"

definition sure_pebble :: "memdb pebble" where
  "sure_pebble = mem_pebble\<lparr>pebble_set := (\<lambda>d k v s. sure_write d [BatchSet k v]),
     pebble_delete := (\<lambda>d k s. sure_write d [BatchDelete k]), pebble_commit := (\<lambda>d b s. sure_write d b)\<rparr>"

lemma sure_write_succeeds [simp]: "snd (sure_write d b) = None"
  by (simp add: sure_write_def mem_write_def)

lemma sure_write_content: "mem_content (fst (sure_write d b)) = apply_batch (mem_content d) b"
  using mem_write_done[of "d\<lparr>mem_faults := []\<rparr>" b "fst (sure_write d b)"] sure_write_succeeds[of d b]
  by (simp add: sure_write_def mem_content_def prod_eq_iff)

interpretation sure: pebble_reads sure_pebble mem_content
proof (unfold_locales, goal_cases)
  case (3 d k v s d')
  then show ?case using sure_write_content[of d "[BatchSet k v]"] by (simp add: sure_pebble_def)
next
  case (4 d k v s d' e)
  then show ?case using sure_write_succeeds[of d "[BatchSet k v]"] by (simp add: sure_pebble_def)
next
  case (5 d k s d')
  then show ?case using sure_write_content[of d "[BatchDelete k]"] by (simp add: sure_pebble_def)
next
  case (6 d k s d' e)
  then show ?case using sure_write_succeeds[of d "[BatchDelete k]"] by (simp add: sure_pebble_def)
next
  case (7 d b s d')
  then show ?case using sure_write_content[of d b] by (simp add: sure_pebble_def)
next
  case (8 d b s d' e)
  then show ?case using sure_write_succeeds[of d b] by (simp add: sure_pebble_def)
qed (auto simp: sure_pebble_def intro: mem.pget_value mem.pget_absent mem.pget_present mem.pget_missing
    mem.pcloser_ok mem.pnewiter_walks mem.pnewiter_opens)

lemma sure_engine_succeeds:
  "snd (Engine_Commit (PebbleEngine sure_pebble) d b w) = None"
  "snd (Engine_Set (PebbleEngine sure_pebble) d k v w) = None"
  "snd (Engine_Delete (PebbleEngine sure_pebble) d k w) = None"
  by (simp_all add: PebbleEngine_def PebbleBatch_Commit_def PebbleEngine_Set_def PebbleEngine_Delete_def
      sure_pebble_def)

end
