(* ===== verification/Raft_Types.thy ===== *)
theory Raft_Types
  imports Storage
begin

text \<open>
  The data types of \<^verbatim>\<open>internal/raft\<close> (\<^verbatim>\<open>state.go\<close>, the head of \<^verbatim>\<open>log.go\<close> and \<^verbatim>\<open>snapshot.go\<close>) and of
  \<^verbatim>\<open>internal/kv\<close>'s \<^verbatim>\<open>Snapshot\<close>, and the encodings they are stored and sent in. The encodings are
  those of \<^verbatim>\<open>encoding/gob\<close> and \<^verbatim>\<open>encoding/json\<close>; the code relies on nothing but that a decoded value is
  the encoded one, so they are a parameter (the record \<open>codec\<close>) with the contract
  \<open>codec_contract\<close>. The theory \<open>Gob\<close> gives the instance.
\<close>

section \<open>state.go and log.go\<close>

datatype role = Follower | Candidate | Leader

definition Role_String :: "role \<Rightarrow> string" where
  "Role_String r = (case r of Follower \<Rightarrow> ''follower'' | Candidate \<Rightarrow> ''candidate'' | Leader \<Rightarrow> ''leader'')"

text \<open>
  \<^verbatim>\<open>type EntryType int32\<close> with three named values. A value read from the wire may be any \<^verbatim>\<open>int32\<close>,
  so the type is the machine integer and not an enumeration of the three.
\<close>

type_synonym entry_type = "32 word"

definition EntryNoop :: entry_type where
  "EntryNoop = 0"

definition EntryPut :: entry_type where
  "EntryPut = 1"

definition EntryDelete :: entry_type where
  "EntryDelete = 2"

record entry =
  eIndex :: u64
  eTerm :: u64
  eType :: entry_type
  eKey :: string
  eValue :: bytes
  eClientRequestID :: string

record request_vote_request =
  rvTerm :: u64
  rvCandidateID :: string
  rvLastLogIndex :: u64
  rvLastLogTerm :: u64

record request_vote_response =
  rvrTerm :: u64
  rvrVoteGranted :: bool

record append_entries_request =
  aeTerm :: u64
  aeLeaderID :: string
  aePrevLogIndex :: u64
  aePrevLogTerm :: u64
  aeEntries :: "entry list"
  aeLeaderCommit :: u64
  aeLeaderClientAddr :: string

record append_entries_response =
  aerTerm :: u64
  aerSuccess :: bool
  aerConflictTerm :: u64
  aerConflictIndex :: u64

record install_snapshot_request =
  isTerm :: u64
  isLeaderID :: string
  isLastIncludedIndex :: u64
  isLastIncludedTerm :: u64
  isData :: bytes

record install_snapshot_response =
  isrTerm :: u64

section \<open>snapshot.go and state_machine.go\<close>

record snapshot_meta =
  smLastIncludedIndex :: u64
  smLastIncludedTerm :: u64

record snapshot =
  Pairs :: "(string, bytes) gomap"

section \<open>Encodings\<close>

record codec =
  encEntry :: "entry \<Rightarrow> goerror + bytes"
  decEntry :: "bytes \<Rightarrow> goerror + entry"
  encPairs :: "(string, bytes) gomap \<Rightarrow> goerror + bytes"
  decPairs :: "bytes \<Rightarrow> goerror + (string, bytes) gomap"
  encMeta :: "snapshot_meta \<Rightarrow> goerror + bytes"
  decMeta :: "bytes \<Rightarrow> goerror + snapshot_meta"

text \<open>
  What is decoded is what was encoded; a decoded map has the same pairs, in an order of its own.
\<close>

locale codec_contract =
  fixes C :: codec
  assumes entry_round_trip: "encEntry C e = Inr b \<Longrightarrow> decEntry C b = Inr e"
    and pairs_round_trip: "gomap_ok ps \<Longrightarrow> encPairs C ps = Inr b \<Longrightarrow>
      \<exists>ps'. decPairs C b = Inr ps' \<and> gomap_ok ps' \<and> map_of ps' = map_of ps"
    and decoded_pairs_ok: "decPairs C b = Inr ps \<Longrightarrow> gomap_ok ps"
    and meta_round_trip: "encMeta C m = Inr b \<Longrightarrow> decMeta C b = Inr m"

text \<open>The entries that carry consecutive indices from \<open>i\<close> on.\<close>

fun contiguous :: "u64 \<Rightarrow> entry list \<Rightarrow> bool" where
  "contiguous i [] = True"
| "contiguous i (e # es) = (eIndex e = i \<and> contiguous (i + 1) es)"

lemma contiguous_nth: "contiguous i es \<Longrightarrow> k < length es \<Longrightarrow> eIndex (es ! k) = i + of_nat k"
proof (induction es arbitrary: i k)
  case (Cons e es)
  then show ?case by (cases k) (auto simp: algebra_simps)
qed simp

lemma contiguous_append:
  "contiguous i (es @ fs) \<longleftrightarrow> contiguous i es \<and> contiguous (i + of_nat (length es)) fs"
  by (induction es arbitrary: i) (auto simp: algebra_simps)

lemma contiguousI: "(\<And>k. k < length es \<Longrightarrow> eIndex (es ! k) = i + of_nat k) \<Longrightarrow> contiguous i es"
proof (induction es arbitrary: i)
  case (Cons e es)
  have "eIndex e = i" using Cons.prems[of 0] by simp
  moreover have "contiguous (i + 1) es"
    using Cons.IH[of "i + 1"] Cons.prems[of "Suc _"] by (simp add: algebra_simps)
  ultimately show ?case by simp
qed simp

lemma contiguous_last:
  "contiguous i es \<Longrightarrow> es \<noteq> [] \<Longrightarrow> eIndex (last es) = i + of_nat (length es - 1)"
  by (metis contiguous_nth last_conv_nth diff_less length_greater_0_conv zero_less_one)

end
