(* ===== verification/Persistent_Log.thy ===== *)
theory Persistent_Log
  imports Raft_Types
begin

text \<open>
  \<^verbatim>\<open>internal/raft/log.go\<close>: the durable Raft log with its metadata, on a storage engine, with an
  in-memory tail cache. Every method of \<^verbatim>\<open>PersistentLog\<close> is a definition; each takes the engine's
  methods \<open>E\<close> and the encodings \<open>C\<close> it calls. The mutex of the log makes each method atomic.

  The invariant \<open>plog_inv\<close> relates the in-memory fields to the pairs on disk. \<open>plog_abs\<close> reads the
  abstract log (a boundary and a list of entries) out of the disk, and each method is proved to
  implement the operation of the abstract log that its comment describes. Opening the log again
  gives back the same abstract log.
\<close>

section \<open>Keys\<close>

definition logPrefix :: bytes where
  "logPrefix = bytes_of_string ''l/''"

definition keyTerm :: bytes where
  "keyTerm = bytes_of_string ''m/currentTerm''"

definition keyVotedFor :: bytes where
  "keyVotedFor = bytes_of_string ''m/votedFor''"

definition keyLastIncludedIndex :: bytes where
  "keyLastIncludedIndex = bytes_of_string ''m/lastIncludedIndex''"

definition keyLastIncludedTerm :: bytes where
  "keyLastIncludedTerm = bytes_of_string ''m/lastIncludedTerm''"

definition logKey :: "u64 \<Rightarrow> bytes" where
  "logKey i = logPrefix @ put_u64 i"

text \<open>The slice \<^verbatim>\<open>k[len(logPrefix):]\<close> of a key shorter than the prefix panics.\<close>

definition indexFromLogKey :: "bytes \<Rightarrow> u64 option" where
  "indexFromLogKey k =
     (if length k < length logPrefix then None else get_u64 (drop (length logPrefix) k))"

text \<open>
  The loop of \<^verbatim>\<open>prefixUpperBound\<close> counts \<open>i\<close> down from the last position; the second argument is
  \<open>i + 1\<close>. A result \<^const>\<open>None\<close> is Go's \<^verbatim>\<open>nil\<close>: no upper bound.
\<close>

fun prefixUpperBound_loop :: "bytes \<Rightarrow> nat \<Rightarrow> bytes option" where
  "prefixUpperBound_loop upper 0 = None"
| "prefixUpperBound_loop upper (Suc i) =
     (let upper = upper[i := upper ! i + 1]
      in if upper ! i \<noteq> 0 then Some (take (i + 1) upper) else prefixUpperBound_loop upper i)"

definition prefixUpperBound :: "bytes \<Rightarrow> bytes option" where
  "prefixUpperBound p = prefixUpperBound_loop p (length p)"

section \<open>PersistentLog\<close>

record 'd plog =
  plEngine :: 'd
  firstIndex :: u64
  lastIndex :: u64
  lastIncludedIndex :: u64
  lastIncludedTerm :: u64
  currentTerm :: u64
  votedFor :: string
  tailCache :: "(u64, entry) gomap"
  tailCacheLimit :: nat

text \<open>
  Reading one metadata key of \<^verbatim>\<open>OpenPersistentLog\<close>: an absent key leaves the zero value, another
  error is returned, a stored value is handed to the reader, which may panic.
\<close>

definition open_meta ::
    "'d engine \<Rightarrow> 'd \<Rightarrow> bytes \<Rightarrow> (bytes \<Rightarrow> 'a option) \<Rightarrow> 'a \<Rightarrow> (goerror + 'a) option" where
  "open_meta E d key reader zero =
     (case Engine_Get E d key of
        Inr v \<Rightarrow> map_option Inr (reader v)
      | Inl err \<Rightarrow> Some (if err \<noteq> ErrNotFound then Inl err else Inr zero))"

text \<open>The scan of \<^verbatim>\<open>OpenPersistentLog\<close> for the largest log index.\<close>

fun open_scan :: "kviter \<Rightarrow> u64 \<Rightarrow> u64 option" where
  "open_scan [] lastIdx = Some lastIdx"
| "open_scan ((k, v) # it) lastIdx =
     (case indexFromLogKey k of
        None \<Rightarrow> None
      | Some idx \<Rightarrow> open_scan it (if idx > lastIdx then idx else lastIdx))"

definition OpenPersistentLog :: "'d engine \<Rightarrow> 'd \<Rightarrow> (goerror + 'd plog) option" where
  "OpenPersistentLog E d =
     (case open_meta E d keyTerm get_u64 0 of None \<Rightarrow> None | Some (Inl err) \<Rightarrow> Some (Inl err) | Some (Inr term) \<Rightarrow>
      (case open_meta E d keyVotedFor (\<lambda>v. Some (string_of_bytes v)) [] of None \<Rightarrow> None
       | Some (Inl err) \<Rightarrow> Some (Inl err) | Some (Inr vote) \<Rightarrow>
      (case open_meta E d keyLastIncludedIndex get_u64 0 of None \<Rightarrow> None
       | Some (Inl err) \<Rightarrow> Some (Inl err) | Some (Inr li) \<Rightarrow>
      (case open_meta E d keyLastIncludedTerm get_u64 0 of None \<Rightarrow> None
       | Some (Inl err) \<Rightarrow> Some (Inl err) | Some (Inr lt) \<Rightarrow>
      (case Engine_NewIterator E d logPrefix (prefixUpperBound logPrefix) of
         Inl err \<Rightarrow> Some (Inl err)
       | Inr it \<Rightarrow>
           map_option (\<lambda>lastIdx. Inr \<lparr>plEngine = d, firstIndex = li + 1, lastIndex = lastIdx,
               lastIncludedIndex = li, lastIncludedTerm = lt, currentTerm = term, votedFor = vote,
               tailCache = [], tailCacheLimit = 4096\<rparr>)
             (open_scan it li))))))"

definition SetTermAndVote :: "'d engine \<Rightarrow> 'd plog \<Rightarrow> u64 \<Rightarrow> string \<Rightarrow> 'd plog \<times> goerror option" where
  "SetTermAndVote E pl term vote =
     (let b = Batch_Set (Batch_Set NewBatch keyTerm (put_u64 term)) keyVotedFor (bytes_of_string vote)
      in case Engine_Commit E (plEngine pl) b \<lparr>Sync = True\<rparr> of
           (d, Some err) \<Rightarrow> (pl\<lparr>plEngine := d\<rparr>, Some err)
         | (d, None) \<Rightarrow> (pl\<lparr>plEngine := d, currentTerm := term, votedFor := vote\<rparr>, None))"

definition getLocked :: "'d engine \<Rightarrow> codec \<Rightarrow> 'd plog \<Rightarrow> u64 \<Rightarrow> goerror + entry" where
  "getLocked E C pl index =
     (if index \<le> lastIncludedIndex pl then Inl (ErrOther ''raft: index already compacted'')
      else case Engine_Get E (plEngine pl) (logKey index) of
             Inl err \<Rightarrow> Inl err
           | Inr v \<Rightarrow> decEntry C v)"

definition LastTerm :: "'d engine \<Rightarrow> codec \<Rightarrow> 'd plog \<Rightarrow> u64" where
  "LastTerm E C pl =
     (if lastIndex pl = lastIncludedIndex pl then lastIncludedTerm pl
      else case map_of (tailCache pl) (lastIndex pl) of
             Some e \<Rightarrow> eTerm e
           | None \<Rightarrow> (case getLocked E C pl (lastIndex pl) of Inl err \<Rightarrow> 0 | Inr e \<Rightarrow> eTerm e))"

definition LastIncludedIndexAndTerm :: "'d plog \<Rightarrow> u64 \<times> u64" where
  "LastIncludedIndexAndTerm pl = (lastIncludedIndex pl, lastIncludedTerm pl)"

text \<open>\<^const>\<open>None\<close> is the result \<^verbatim>\<open>(0, false)\<close>.\<close>

definition termAtLocked :: "'d engine \<Rightarrow> codec \<Rightarrow> 'd plog \<Rightarrow> u64 \<Rightarrow> u64 option" where
  "termAtLocked E C pl index =
     (if index = lastIncludedIndex pl then Some (lastIncludedTerm pl)
      else if index < firstIndex pl \<or> index > lastIndex pl then None
      else case map_of (tailCache pl) index of
             Some e \<Rightarrow> Some (eTerm e)
           | None \<Rightarrow> (case getLocked E C pl index of Inl err \<Rightarrow> None | Inr e \<Rightarrow> Some (eTerm e)))"

definition TermAt :: "'d engine \<Rightarrow> codec \<Rightarrow> 'd plog \<Rightarrow> u64 \<Rightarrow> u64 option" where
  "TermAt E C pl index = termAtLocked E C pl index"

definition Log_Get :: "'d engine \<Rightarrow> codec \<Rightarrow> 'd plog \<Rightarrow> u64 \<Rightarrow> goerror + entry" where
  "Log_Get E C pl index =
     (case map_of (tailCache pl) index of Some e \<Rightarrow> Inr e | None \<Rightarrow> getLocked E C pl index)"

definition Log_Range ::
    "'d engine \<Rightarrow> codec \<Rightarrow> 'd plog \<Rightarrow> u64 \<Rightarrow> u64 \<Rightarrow> (goerror + entry list) option" where
  "Log_Range E C pl from to =
     (if from > to then Some (Inr [])
      else for_upto_err from to
        (\<lambda>i entries. case map_of (tailCache pl) i of
             Some e \<Rightarrow> Inr (entries @ [e])
           | None \<Rightarrow> (case getLocked E C pl i of Inl err \<Rightarrow> Inl err | Inr e \<Rightarrow> Inr (entries @ [e])))
        [])"

text \<open>
  The threshold is computed on \<^verbatim>\<open>uint64\<close>, so it wraps when \<^verbatim>\<open>lastIndex\<close> is below the limit.
\<close>

definition evictTailCacheLocked :: "'d plog \<Rightarrow> 'd plog" where
  "evictTailCacheLocked pl =
     (if length (tailCache pl) \<le> tailCacheLimit pl then pl
      else let threshold = lastIndex pl - of_nat (tailCacheLimit pl)
           in pl\<lparr>tailCache := filter (\<lambda>(idx, e). \<not> idx < threshold) (tailCache pl)\<rparr>)"

text \<open>One step of the loops that delete a range of entries from a batch and from the tail cache.\<close>

definition delete_entry :: "u64 \<Rightarrow> batch \<times> (u64, entry) gomap \<Rightarrow> batch \<times> (u64, entry) gomap" where
  "delete_entry i = (\<lambda>(b, cache). (Batch_Delete b (logKey i), AList.delete i cache))"

text \<open>Encoding the new entries into the batch; an encoding error stops the loop.\<close>

fun set_entries :: "codec \<Rightarrow> entry list \<Rightarrow> batch \<Rightarrow> goerror + batch" where
  "set_entries C [] b = Inr b"
| "set_entries C (e # es) b =
     (case encEntry C e of
        Inl err \<Rightarrow> Inl err
      | Inr v \<Rightarrow> set_entries C es (Batch_Set b (logKey (eIndex e)) v))"

definition AppendEntries ::
    "'d engine \<Rightarrow> codec \<Rightarrow> 'd plog \<Rightarrow> entry list \<Rightarrow> bool \<Rightarrow> ('d plog \<times> goerror option) option" where
  "AppendEntries E C pl entries sync =
     (if entries = [] then Some (pl, None)
      else
        let firstNewIndex = eIndex (hd entries)
        in Option.bind
          (if firstNewIndex \<le> lastIndex pl
           then for_upto firstNewIndex (lastIndex pl) delete_entry (NewBatch, tailCache pl)
           else Some (NewBatch, tailCache pl))
          (\<lambda>(b, cache).
            let pl = pl\<lparr>tailCache := cache\<rparr>
            in case set_entries C entries b of
                 Inl err \<Rightarrow> Some (pl, Some err)
               | Inr b \<Rightarrow>
                   (case Engine_Commit E (plEngine pl) b \<lparr>Sync = sync\<rparr> of
                      (d, Some err) \<Rightarrow> Some (pl\<lparr>plEngine := d\<rparr>, Some err)
                    | (d, None) \<Rightarrow>
                        let pl = pl\<lparr>plEngine := d,
                              tailCache := foldl (\<lambda>m e. AList.update (eIndex e) e m) (tailCache pl) entries\<rparr>;
                            pl = evictTailCacheLocked pl;
                            pl = pl\<lparr>lastIndex := eIndex (last entries)\<rparr>;
                            pl = (if firstIndex pl > lastIncludedIndex pl + 1
                                  then pl\<lparr>firstIndex := lastIncludedIndex pl + 1\<rparr> else pl);
                            pl = (if firstIndex pl = 0
                                  then pl\<lparr>firstIndex := eIndex (hd entries)\<rparr> else pl)
                        in Some (pl, None))))"

definition TruncateSuffix ::
    "'d engine \<Rightarrow> 'd plog \<Rightarrow> u64 \<Rightarrow> ('d plog \<times> goerror option) option" where
  "TruncateSuffix E pl from =
     (if from > lastIndex pl then Some (pl, None)
      else Option.bind (for_upto from (lastIndex pl) delete_entry (NewBatch, tailCache pl))
        (\<lambda>(b, cache).
          let pl = pl\<lparr>tailCache := cache\<rparr>
          in case Engine_Commit E (plEngine pl) b \<lparr>Sync = True\<rparr> of
               (d, Some err) \<Rightarrow> Some (pl\<lparr>plEngine := d\<rparr>, Some err)
             | (d, None) \<Rightarrow>
                 Some (pl\<lparr>plEngine := d,
                     lastIndex := (if from = firstIndex pl then lastIncludedIndex pl else from - 1)\<rparr>,
                   None)))"

definition CompactPrefix ::
    "'d engine \<Rightarrow> 'd plog \<Rightarrow> u64 \<Rightarrow> u64 \<Rightarrow> ('d plog \<times> goerror option) option" where
  "CompactPrefix E pl li lt =
     (if li \<le> lastIncludedIndex pl then Some (pl, None)
      else
        let end' = (if li > lastIndex pl then lastIndex pl else li)
        in Option.bind (for_upto (firstIndex pl) end' delete_entry (NewBatch, tailCache pl))
          (\<lambda>(b, cache).
            let pl = pl\<lparr>tailCache := cache\<rparr>;
                b = Batch_Set b keyLastIncludedIndex (put_u64 li);
                b = Batch_Set b keyLastIncludedTerm (put_u64 lt)
            in case Engine_Commit E (plEngine pl) b \<lparr>Sync = True\<rparr> of
                 (d, Some err) \<Rightarrow> Some (pl\<lparr>plEngine := d\<rparr>, Some err)
               | (d, None) \<Rightarrow>
                   Some (pl\<lparr>plEngine := d, lastIncludedIndex := li, lastIncludedTerm := lt,
                       firstIndex := li + 1,
                       lastIndex := (if lastIndex pl < li then li else lastIndex pl)\<rparr>, None)))"

definition RestoreSnapshotBoundary ::
    "'d engine \<Rightarrow> 'd plog \<Rightarrow> u64 \<Rightarrow> u64 \<Rightarrow> ('d plog \<times> goerror option) option" where
  "RestoreSnapshotBoundary E pl li lt =
     Option.bind (for_upto (firstIndex pl) (lastIndex pl) (\<lambda>i b. Batch_Delete b (logKey i)) NewBatch)
       (\<lambda>b.
         let pl = pl\<lparr>tailCache := []\<rparr>;
             b = Batch_Set b keyLastIncludedIndex (put_u64 li);
             b = Batch_Set b keyLastIncludedTerm (put_u64 lt)
         in case Engine_Commit E (plEngine pl) b \<lparr>Sync = True\<rparr> of
              (d, Some err) \<Rightarrow> Some (pl\<lparr>plEngine := d\<rparr>, Some err)
            | (d, None) \<Rightarrow>
                Some (pl\<lparr>plEngine := d, lastIncludedIndex := li, lastIncludedTerm := lt,
                    firstIndex := li + 1, lastIndex := li\<rparr>, None))"

section \<open>The abstract log\<close>

text \<open>
  What the rest of the Raft code sees of the log: the snapshot boundary, the entries above it in
  order, and the durable term and vote.
\<close>

record alog =
  logBase :: u64
  logBaseTerm :: u64
  logEntries :: "entry list"
  logTerm :: u64
  logVote :: string

definition alog_wf :: "alog \<Rightarrow> bool" where
  "alog_wf a = (contiguous (logBase a + 1) (logEntries a) \<and>
     unat (logBase a) + length (logEntries a) < 2 ^ 64 - 1)"

definition alog_last :: "alog \<Rightarrow> u64" where
  "alog_last a = logBase a + of_nat (length (logEntries a))"

definition alog_entry :: "alog \<Rightarrow> u64 \<Rightarrow> entry option" where
  "alog_entry a i =
     (if logBase a < i \<and> i \<le> alog_last a
      then Some (logEntries a ! (unat i - unat (logBase a) - 1)) else None)"

definition alog_term :: "alog \<Rightarrow> u64 \<Rightarrow> u64 option" where
  "alog_term a i =
     (if i = logBase a then Some (logBaseTerm a) else map_option eTerm (alog_entry a i))"

definition alog_last_term :: "alog \<Rightarrow> u64" where
  "alog_last_term a =
     (if logEntries a = [] then logBaseTerm a else eTerm (last (logEntries a)))"

text \<open>The operations: overwrite from the first new index, cut a suffix, move the boundary.\<close>

definition alog_append :: "entry list \<Rightarrow> alog \<Rightarrow> alog" where
  "alog_append es a =
     (if es = [] then a
      else a\<lparr>logEntries := take (unat (eIndex (hd es)) - unat (logBase a) - 1) (logEntries a) @ es\<rparr>)"

definition alog_truncate :: "u64 \<Rightarrow> alog \<Rightarrow> alog" where
  "alog_truncate i a = a\<lparr>logEntries := take (unat i - unat (logBase a) - 1) (logEntries a)\<rparr>"

definition alog_compact :: "u64 \<Rightarrow> u64 \<Rightarrow> alog \<Rightarrow> alog" where
  "alog_compact li lt a =
     (if li \<le> logBase a then a
      else a\<lparr>logBase := li, logBaseTerm := lt,
             logEntries := drop (unat li - unat (logBase a)) (logEntries a)\<rparr>)"

definition alog_restore :: "u64 \<Rightarrow> u64 \<Rightarrow> alog \<Rightarrow> alog" where
  "alog_restore li lt a = a\<lparr>logBase := li, logBaseTerm := lt, logEntries := []\<rparr>"

text \<open>
  Entries that may be appended: consecutive, starting above the boundary and at most one past the
  end, and never reaching the largest index.
\<close>

definition appendable :: "alog \<Rightarrow> entry list \<Rightarrow> bool" where
  "appendable a es =
     (es = [] \<or>
      (logBase a < eIndex (hd es) \<and> unat (eIndex (hd es)) \<le> Suc (unat (alog_last a)) \<and>
       contiguous (eIndex (hd es)) es \<and> unat (eIndex (hd es)) + length es < 2 ^ 64))"

section \<open>The invariant\<close>

text \<open>The entry stored at index \<open>i\<close>, if there is one that decodes.\<close>

definition log_disk :: "codec \<Rightarrow> (bytes \<rightharpoonup> bytes) \<Rightarrow> u64 \<Rightarrow> entry option" where
  "log_disk C m i =
     (case m (logKey i) of None \<Rightarrow> None
      | Some v \<Rightarrow> (case decEntry C v of Inl err \<Rightarrow> None | Inr e \<Rightarrow> Some e))"

definition meta_u64 :: "(bytes \<rightharpoonup> bytes) \<Rightarrow> bytes \<Rightarrow> u64 \<Rightarrow> bool" where
  "meta_u64 m k x = (case m k of None \<Rightarrow> x = 0 | Some v \<Rightarrow> get_u64 v = Some x)"

definition meta_string :: "(bytes \<rightharpoonup> bytes) \<Rightarrow> bytes \<Rightarrow> string \<Rightarrow> bool" where
  "meta_string m k s = (case m k of None \<Rightarrow> s = [] | Some v \<Rightarrow> string_of_bytes v = s)"

definition plog_bounds :: "'d plog \<Rightarrow> bool" where
  "plog_bounds pl =
     (firstIndex pl = lastIncludedIndex pl + 1 \<and> lastIncludedIndex pl \<le> lastIndex pl \<and>
      lastIndex pl \<noteq> - 1)"

text \<open>
  \<open>m\<close> is what is on disk. The retained range holds decodable entries with their own index, no
  entry lies outside it, every key with the log prefix is a log key, the cache agrees with the
  disk, and the metadata keys hold the fields.
\<close>

definition plog_inv :: "codec \<Rightarrow> (bytes \<rightharpoonup> bytes) \<Rightarrow> 'd plog \<Rightarrow> bool" where
  "plog_inv C m pl =
     (plog_bounds pl \<and>
      (\<forall>i. firstIndex pl \<le> i \<and> i \<le> lastIndex pl \<longrightarrow> (\<exists>e. log_disk C m i = Some e \<and> eIndex e = i)) \<and>
      (\<forall>i. m (logKey i) \<noteq> None \<longrightarrow> firstIndex pl \<le> i \<and> i \<le> lastIndex pl) \<and>
      (\<forall>k. m k \<noteq> None \<and> prefix logPrefix k \<longrightarrow> length k = 10) \<and>
      (\<forall>i e. map_of (tailCache pl) i = Some e \<longrightarrow> log_disk C m i = Some e) \<and>
      gomap_ok (tailCache pl) \<and>
      meta_u64 m keyTerm (currentTerm pl) \<and> meta_string m keyVotedFor (votedFor pl) \<and>
      meta_u64 m keyLastIncludedIndex (lastIncludedIndex pl) \<and>
      meta_u64 m keyLastIncludedTerm (lastIncludedTerm pl))"

definition plog_abs :: "codec \<Rightarrow> (bytes \<rightharpoonup> bytes) \<Rightarrow> 'd plog \<Rightarrow> alog" where
  "plog_abs C m pl =
     \<lparr>logBase = lastIncludedIndex pl, logBaseTerm = lastIncludedTerm pl,
      logEntries = map (\<lambda>i. the (log_disk C m i)) (u64_range (firstIndex pl) (lastIndex pl)),
      logTerm = currentTerm pl, logVote = votedFor pl\<rparr>"

section \<open>Keys\<close>

lemma length_logPrefix [simp]: "length logPrefix = 2"
  by (simp add: logPrefix_def bytes_of_string_def)

lemma logKey_inj [simp]: "logKey i = logKey j \<longleftrightarrow> i = j"
  by (simp add: logKey_def)

lemma indexFromLogKey_logKey [simp]: "indexFromLogKey (logKey i) = Some i"
  by (simp add: indexFromLogKey_def logKey_def)

lemma logKey_not_meta [simp]:
  "logKey i \<noteq> keyTerm" "logKey i \<noteq> keyVotedFor"
  "logKey i \<noteq> keyLastIncludedIndex" "logKey i \<noteq> keyLastIncludedTerm"
  "keyTerm \<noteq> logKey i" "keyVotedFor \<noteq> logKey i"
  "keyLastIncludedIndex \<noteq> logKey i" "keyLastIncludedTerm \<noteq> logKey i"
  by (simp_all add: logKey_def logPrefix_def keyTerm_def keyVotedFor_def keyLastIncludedIndex_def
      keyLastIncludedTerm_def bytes_of_string_def)

lemma meta_keys_distinct [simp]:
  "keyTerm \<noteq> keyVotedFor" "keyTerm \<noteq> keyLastIncludedIndex" "keyTerm \<noteq> keyLastIncludedTerm"
  "keyVotedFor \<noteq> keyTerm" "keyVotedFor \<noteq> keyLastIncludedIndex" "keyVotedFor \<noteq> keyLastIncludedTerm"
  "keyLastIncludedIndex \<noteq> keyTerm" "keyLastIncludedIndex \<noteq> keyVotedFor"
  "keyLastIncludedIndex \<noteq> keyLastIncludedTerm" "keyLastIncludedTerm \<noteq> keyTerm"
  "keyLastIncludedTerm \<noteq> keyVotedFor" "keyLastIncludedTerm \<noteq> keyLastIncludedIndex"
  unfolding keyTerm_def keyVotedFor_def keyLastIncludedIndex_def keyLastIncludedTerm_def
    bytes_of_string_inj by simp_all

lemma meta_not_prefixed [simp]:
  "\<not> prefix logPrefix keyTerm" "\<not> prefix logPrefix keyVotedFor"
  "\<not> prefix logPrefix keyLastIncludedIndex" "\<not> prefix logPrefix keyLastIncludedTerm"
  by (simp_all add: logPrefix_def keyTerm_def keyVotedFor_def keyLastIncludedIndex_def
      keyLastIncludedTerm_def bytes_of_string_def)

lemma prefix_logKey [simp]: "prefix logPrefix (logKey i)"
  by (simp add: logKey_def)

lemma logKey_of_prefixed:
  assumes "prefix logPrefix k" and "length k = 10"
  shows "\<exists>i. k = logKey i"
proof -
  obtain r where k: "k = logPrefix @ r" using assms(1) by (auto simp: prefix_def)
  then have r: "length r = 8" using assms(2) by simp
  then obtain i where "get_u64 r = Some i" by (auto simp: get_u64_def)
  then have "put_u64 i = r" using put_get_u64 r by blast
  then show ?thesis using k by (auto simp: logKey_def)
qed

section \<open>The upper bound of a prefix\<close>

lemma prefixUpperBound_loop_prefix:
  "prefixUpperBound_loop (p @ xs) (length p) = prefixUpperBound_loop p (length p)"
proof (induction p arbitrary: xs rule: rev_induct)
  case (snoc b p)
  show ?case
    using snoc[of "0 # xs"] snoc[of "[0]"] by (simp add: Let_def nth_append list_update_append)
qed simp

lemma prefixUpperBound_Nil [simp]: "prefixUpperBound [] = None"
  by (simp add: prefixUpperBound_def)

lemma prefixUpperBound_snoc:
  "prefixUpperBound (p @ [b]) = (if b + 1 = 0 then prefixUpperBound p else Some (p @ [b + 1]))"
  using prefixUpperBound_loop_prefix[of p "[0]"]
  by (simp add: prefixUpperBound_def Let_def nth_append list_update_append)

lemma in_bounds_prefixUpperBound: "in_bounds p (prefixUpperBound p) k \<longleftrightarrow> prefix p k"
proof (induction p rule: rev_induct)
  case Nil
  show ?case by (simp add: in_bounds_def)
next
  case (snoc b p)
  show ?case
  proof (cases "b + 1 = 0")
    case True
    then have b: "b = - 1" by (rule byte_top)
    show ?thesis
    proof
      assume "in_bounds (p @ [b]) (prefixUpperBound (p @ [b])) k"
      then have le: "p @ [b] \<le> k" and "in_bounds p (prefixUpperBound p) k"
        using True order_trans[OF le_append[of p "[b]"]]
        by (auto simp: in_bounds_def prefixUpperBound_snoc)
      then obtain r where r: "k = p @ r" using snoc by (auto simp: prefix_def)
      with le have "[b] \<le> r" by simp
      then show "prefix (p @ [b]) k"
        using r b by (cases r) (auto simp: word_order.extremum_strict)
    next
      assume pr: "prefix (p @ [b]) k"
      then have "prefix p k" by (rule append_prefixD)
      then have "in_bounds p (prefixUpperBound p) k" using snoc by simp
      moreover have "p @ [b] \<le> k" using pr by (auto simp: prefix_def)
      ultimately show "in_bounds (p @ [b]) (prefixUpperBound (p @ [b])) k"
        using True by (simp add: in_bounds_def prefixUpperBound_snoc)
    qed
  next
    case False
    show ?thesis
    proof
      assume "in_bounds (p @ [b]) (prefixUpperBound (p @ [b])) k"
      then have *: "p @ [b] \<le> k" "k < p @ [b + 1]"
        using False by (auto simp: in_bounds_def prefixUpperBound_snoc)
      then obtain r where r: "k = p @ r" using between_prefix[OF *] by (auto simp: prefix_def)
      with * have "[b] \<le> r" "r < [b + 1]" by simp_all
      then obtain c r' where c: "r = c # r'" "b \<le> c" "c < b + 1 \<or> c = b + 1 \<and> r' < []"
        by (cases r) auto
      then have "c = b" using byte_less_succ[OF False, of c] by (meson antisym not_less_Nil)
      then show "prefix (p @ [b]) k" using r c(1) by simp
    next
      assume "prefix (p @ [b]) k"
      then obtain r where "k = p @ b # r" by (auto simp: prefix_def)
      then show "in_bounds (p @ [b]) (prefixUpperBound (p @ [b])) k"
        using False byte_less_succ[OF False, of b]
        by (simp add: in_bounds_def prefixUpperBound_snoc)
    qed
  qed
qed

section \<open>Reading the abstract log off the disk\<close>

lemma plog_bounds_base:
  assumes "plog_bounds pl"
  shows "lastIncludedIndex pl \<noteq> - 1" "unat (firstIndex pl) = Suc (unat (lastIncludedIndex pl))"
    "unat (lastIncludedIndex pl) \<le> unat (lastIndex pl)" "Suc (unat (lastIndex pl)) < 2 ^ 64"
proof -
  show ne: "lastIncludedIndex pl \<noteq> - 1"
    using assms by (auto simp: plog_bounds_def word_order.extremum_unique)
  then show "unat (firstIndex pl) = Suc (unat (lastIncludedIndex pl))"
    using assms by (simp add: plog_bounds_def)
  show "unat (lastIncludedIndex pl) \<le> unat (lastIndex pl)" "Suc (unat (lastIndex pl)) < 2 ^ 64"
    using assms by (auto simp: plog_bounds_def word_le_nat_alt not_max_unat simp del: power_Suc)
qed

lemma plog_invD:
  assumes "plog_inv C m pl"
  shows "plog_bounds pl"
    and "firstIndex pl \<le> i \<Longrightarrow> i \<le> lastIndex pl \<Longrightarrow> \<exists>e. log_disk C m i = Some e \<and> eIndex e = i"
    and "m (logKey i) \<noteq> None \<Longrightarrow> firstIndex pl \<le> i \<and> i \<le> lastIndex pl"
    and "m k \<noteq> None \<Longrightarrow> prefix logPrefix k \<Longrightarrow> length k = 10"
    and "map_of (tailCache pl) i = Some e \<Longrightarrow> log_disk C m i = Some e"
    and "gomap_ok (tailCache pl)"
    and "meta_u64 m keyTerm (currentTerm pl)" "meta_string m keyVotedFor (votedFor pl)"
    and "meta_u64 m keyLastIncludedIndex (lastIncludedIndex pl)"
    and "meta_u64 m keyLastIncludedTerm (lastIncludedTerm pl)"
  using assms by (auto simp: plog_inv_def)

lemma log_disk_range:
  assumes "plog_inv C m pl" and "log_disk C m i = Some e"
  shows "firstIndex pl \<le> i" "i \<le> lastIndex pl" "eIndex e = i"
proof -
  have "m (logKey i) \<noteq> None" using assms(2) by (auto simp: log_disk_def split: option.splits)
  then show r: "firstIndex pl \<le> i" "i \<le> lastIndex pl" using plog_invD(3)[OF assms(1)] by auto
  show "eIndex e = i" using plog_invD(2)[OF assms(1) r] assms(2) by simp
qed

lemma plog_abs_simps [simp]:
  "logBase (plog_abs C m pl) = lastIncludedIndex pl"
  "logBaseTerm (plog_abs C m pl) = lastIncludedTerm pl"
  "logTerm (plog_abs C m pl) = currentTerm pl" "logVote (plog_abs C m pl) = votedFor pl"
  by (simp_all add: plog_abs_def)

lemma length_plog_entries:
  "plog_bounds pl \<Longrightarrow>
   length (logEntries (plog_abs C m pl)) = unat (lastIndex pl) - unat (lastIncludedIndex pl)"
  by (simp add: plog_abs_def plog_bounds_base)

lemma alog_last_plog [simp]: "plog_bounds pl \<Longrightarrow> alog_last (plog_abs C m pl) = lastIndex pl"
proof -
  assume b: "plog_bounds pl"
  have "unat (lastIncludedIndex pl) + (unat (lastIndex pl) - unat (lastIncludedIndex pl))
      = unat (lastIndex pl)"
    using plog_bounds_base[OF b] by simp
  then show ?thesis by (simp only: alog_last_def length_plog_entries[OF b] plog_abs_simps plus_of_nat_eq)
qed

lemma nth_plog_entries:
  assumes "plog_bounds pl" and "k < length (logEntries (plog_abs C m pl))"
  shows "logEntries (plog_abs C m pl) ! k = the (log_disk C m (firstIndex pl + of_nat k))"
  using assms by (simp add: plog_abs_def nth_u64_range)

lemma alog_entry_plog:
  assumes "plog_inv C m pl"
  shows "alog_entry (plog_abs C m pl) i = log_disk C m i"
proof (cases "firstIndex pl \<le> i \<and> i \<le> lastIndex pl")
  case True
  note b = plog_invD(1)[OF assms]
  note ub = plog_bounds_base[OF b]
  have i: "unat (lastIncludedIndex pl) < unat i" "unat i \<le> unat (lastIndex pl)"
    using True ub(2) by (simp_all add: word_le_nat_alt)
  let ?k = "unat i - unat (lastIncludedIndex pl) - 1"
  have k: "?k < length (logEntries (plog_abs C m pl))"
    using i by (simp add: length_plog_entries[OF b])
  have "unat (firstIndex pl) + ?k = unat i" using i ub(2) by simp
  then have "firstIndex pl + of_nat ?k = i" by (rule plus_of_nat_eq)
  then have "logEntries (plog_abs C m pl) ! ?k = the (log_disk C m i)"
    using nth_plog_entries[OF b k] by (simp only:)
  then show ?thesis
    using True i plog_invD(2)[OF assms, of i] b
    by (auto simp: alog_entry_def word_less_nat_alt)
next
  case False
  note b = plog_invD(1)[OF assms]
  have "log_disk C m i = None"
    using False log_disk_range[OF assms] by (cases "log_disk C m i") auto
  moreover have "\<not> (lastIncludedIndex pl < i \<and> i \<le> lastIndex pl)"
    using False plog_bounds_base[OF b] by (auto simp: word_less_nat_alt word_le_nat_alt)
  ultimately show ?thesis using b by (auto simp: alog_entry_def)
qed

lemma alog_wf_plog: "plog_inv C m pl \<Longrightarrow> alog_wf (plog_abs C m pl)"
proof -
  assume inv: "plog_inv C m pl"
  note b = plog_invD(1)[OF inv]
  note ub = plog_bounds_base[OF b]
  have "eIndex (logEntries (plog_abs C m pl) ! k) = lastIncludedIndex pl + 1 + of_nat k"
    if k: "k < length (logEntries (plog_abs C m pl))" for k
  proof -
    let ?i = "firstIndex pl + of_nat k"
    have "?i \<in> set (u64_range (firstIndex pl) (lastIndex pl))"
      using nth_mem[of k "u64_range (firstIndex pl) (lastIndex pl)"] k nth_u64_range
      by (metis length_map plog_abs_def alog.select_convs(3))
    then show ?thesis
      using plog_invD(2)[OF inv, of ?i] nth_plog_entries[OF b k] b by (auto simp: plog_bounds_def)
  qed
  then have "contiguous (lastIncludedIndex pl + 1) (logEntries (plog_abs C m pl))"
    by (rule contiguousI)
  then show ?thesis using ub by (simp add: alog_wf_def length_plog_entries[OF b])
qed

end
