(* ===== verification/Persistent_Log_Proofs.thy ===== *)
theory Persistent_Log_Proofs
  imports Persistent_Log
begin

text \<open>
  The methods of \<^verbatim>\<open>PersistentLog\<close> implement the abstract log. The locale \<open>raft_storage\<close> is what
  they ask of the engine and of the encoding, with every call allowed to fail; inside it each
  method keeps \<open>plog_inv\<close>, does the operation of \<open>alog\<close> it stands for when it returns no error, and
  leaves the abstract log as it was when it returns one. \<open>raft_storage_reads\<close> adds that reads do not
  fail: then the readers return exactly what the abstract log holds, and opening the log again after
  a crash at any point between two calls gives the same abstract log.
\<close>

section \<open>The storage the log is built on\<close>

text \<open>
  What the log asks of its environment: an engine that keeps its contract and an encoding that
  round-trips. \<open>raft_storage_reads\<close> adds that reads do not fail.
\<close>

locale raft_storage = engine_contract E content + codec_contract C
  for E :: "'d engine" and content :: "'d \<Rightarrow> bytes \<rightharpoonup> bytes" and C :: codec

locale raft_storage_reads = engine_reads E content + codec_contract C
  for E :: "'d engine" and content :: "'d \<Rightarrow> bytes \<rightharpoonup> bytes" and C :: codec

sublocale raft_storage_reads \<subseteq> raft_storage E content C
  by unfold_locales

context raft_storage
begin

abbreviation disk :: "'d plog \<Rightarrow> bytes \<rightharpoonup> bytes" where
  "disk pl \<equiv> content (plEngine pl)"

abbreviation inv :: "'d plog \<Rightarrow> bool" where
  "inv pl \<equiv> plog_inv C (disk pl) pl"

abbreviation absl :: "'d plog \<Rightarrow> alog" where
  "absl pl \<equiv> plog_abs C (disk pl) pl"

lemma getLocked_sound: "getLocked E C pl i = Inr e \<Longrightarrow> log_disk C (disk pl) i = Some e"
  by (auto simp: getLocked_def log_disk_def split: if_splits sum.splits dest: get_value)

lemma Log_Get_sound: "inv pl \<Longrightarrow> Log_Get E C pl i = Inr e \<Longrightarrow> alog_entry (absl pl) i = Some e"
  by (auto simp: Log_Get_def alog_entry_plog split: option.splits
      dest: getLocked_sound plog_invD(5))

lemma TermAt_sound: "inv pl \<Longrightarrow> TermAt E C pl i = Some t \<Longrightarrow> alog_term (absl pl) i = Some t"
  by (auto simp: TermAt_def termAtLocked_def alog_term_def alog_entry_plog
      split: if_splits option.splits sum.splits dest!: getLocked_sound plog_invD(5))

end

context raft_storage_reads
begin

lemma getLocked_complete:
  assumes "inv pl" and "log_disk C (disk pl) i = Some e"
  shows "getLocked E C pl i = Inr e"
proof -
  have "lastIncludedIndex pl < i"
    using log_disk_range(1)[OF assms] plog_bounds_base[OF plog_invD(1)[OF assms(1)]]
    by (simp add: word_less_nat_alt word_le_nat_alt)
  moreover obtain v where "disk pl (logKey i) = Some v" "decEntry C v = Inr e"
    using assms(2) by (auto simp: log_disk_def split: option.splits sum.splits)
  ultimately show ?thesis using get_present by (auto simp: getLocked_def)
qed

lemma Log_Get_complete: "inv pl \<Longrightarrow> alog_entry (absl pl) i = Some e \<Longrightarrow> Log_Get E C pl i = Inr e"
  by (auto simp: Log_Get_def alog_entry_plog getLocked_complete split: option.splits
      dest: plog_invD(5))

lemma Log_Get_iff: "inv pl \<Longrightarrow> Log_Get E C pl i = Inr e \<longleftrightarrow> alog_entry (absl pl) i = Some e"
  using Log_Get_sound Log_Get_complete by blast

lemma TermAt_abs: "inv pl \<Longrightarrow> TermAt E C pl i = alog_term (absl pl) i"
proof -
  assume inv: "inv pl"
  have "TermAt E C pl i = Some t" if t: "alog_term (absl pl) i = Some t" for t
  proof (cases "i = lastIncludedIndex pl")
    case True
    then show ?thesis using t by (simp add: TermAt_def termAtLocked_def alog_term_def)
  next
    case False
    then obtain e where e: "log_disk C (disk pl) i = Some e" "eTerm e = t"
      using t inv by (auto simp: alog_term_def alog_entry_plog)
    then show ?thesis
      using False log_disk_range[OF inv e(1)] getLocked_complete[OF inv e(1)] plog_invD(5)[OF inv, of i]
      by (auto simp: TermAt_def termAtLocked_def not_less split: option.splits)
  qed
  then show ?thesis using TermAt_sound[OF inv, of i]
    by (metis option.exhaust)
qed

lemma LastTerm_abs: "inv pl \<Longrightarrow> LastTerm E C pl = alog_last_term (absl pl)"
proof -
  assume inv: "inv pl"
  note b = plog_invD(1)[OF inv]
  note ub = plog_bounds_base[OF b]
  show ?thesis
  proof (cases "lastIndex pl = lastIncludedIndex pl")
    case True
    then have "logEntries (absl pl) = []" using length_plog_entries[OF b, of C "disk pl"] by simp
    then show ?thesis using True by (simp add: LastTerm_def alog_last_term_def)
  next
    case False
    then have lt: "unat (lastIncludedIndex pl) < unat (lastIndex pl)"
      using ub(3) by (auto simp: word_unat_eq_iff le_less)
    then have ne: "logEntries (absl pl) \<noteq> []"
      using length_plog_entries[OF b, of C "disk pl"] by auto
    have "firstIndex pl \<le> lastIndex pl" using lt ub(2) by (simp add: word_le_nat_alt)
    then obtain e where e: "log_disk C (disk pl) (lastIndex pl) = Some e"
      using plog_invD(2)[OF inv, of "lastIndex pl"] by auto
    have "alog_entry (absl pl) (lastIndex pl) = Some (last (logEntries (absl pl)))"
      using lt ne b length_plog_entries[OF b, of C "disk pl"]
      by (simp add: alog_entry_def word_less_nat_alt last_conv_nth)
    then have "last (logEntries (absl pl)) = e" using e alog_entry_plog[OF inv] by simp
    then show ?thesis
      using False ne getLocked_complete[OF inv e] plog_invD(5)[OF inv, of "lastIndex pl"] e
      by (auto simp: LastTerm_def alog_last_term_def split: option.splits)
  qed
qed

lemma Log_Range_abs:
  assumes inv: "inv pl" and r: "firstIndex pl \<le> from" "from \<le> to" "to \<le> lastIndex pl"
  shows "Log_Range E C pl from to =
    Some (Inr (map (\<lambda>i. the (alog_entry (absl pl) i)) (u64_range from to)))"
proof -
  have to: "to \<noteq> - 1"
    using r(3) plog_invD(1)[OF inv] by (auto simp: plog_bounds_def word_order.extremum_unique)
  have body: "(\<lambda>i entries. case map_of (tailCache pl) i of
             Some e \<Rightarrow> Inr (entries @ [e])
           | None \<Rightarrow> (case getLocked E C pl i of Inl err \<Rightarrow> Inl err | Inr e \<Rightarrow> Inr (entries @ [e])))
      = (\<lambda>i entries. case Log_Get E C pl i of Inl err \<Rightarrow> Inl err | Inr e \<Rightarrow> Inr (entries @ [e]))"
    by (auto simp: Log_Get_def fun_eq_iff split: option.splits)
  have "Log_Get E C pl i = Inr (the (alog_entry (absl pl) i))"
    if "i \<in> set (u64_range from to)" for i
  proof -
    have "firstIndex pl \<le> i" "i \<le> lastIndex pl" using that r by auto
    then obtain e where "log_disk C (disk pl) i = Some e" using plog_invD(2)[OF inv] by blast
    then show ?thesis using Log_Get_complete[OF inv, of i e] by (simp add: alog_entry_plog[OF inv])
  qed
  then show ?thesis
    using r(2) to fold_err_collect[of "u64_range from to" "Log_Get E C pl"
        "\<lambda>i. the (alog_entry (absl pl) i)" "[]"]
    by (simp add: Log_Range_def body for_upto_err_range not_less[symmetric])
qed

end

section \<open>Batches of entry deletions and entry writes\<close>

lemma fold_delete_entry:
  "fold delete_entry is (b, cache) =
     (b @ map (\<lambda>i. BatchDelete (logKey i)) is, fold AList.delete is cache)"
  by (induction "is" arbitrary: b cache) (auto simp: delete_entry_def Batch_Delete_def)

lemma fold_Batch_Delete:
  "fold (\<lambda>i b. Batch_Delete b (logKey i)) is b = b @ map (\<lambda>i. BatchDelete (logKey i)) is"
  by (induction "is" arbitrary: b) (auto simp: Batch_Delete_def)

lemma apply_batch_delete_entries:
  "apply_batch m (map (\<lambda>i. BatchDelete (logKey i)) is) k =
     (if \<exists>i \<in> set is. k = logKey i then None else m k)"
  using apply_batch_deletes[of m "map logKey is"] by (auto simp: comp_def)

lemma log_disk_cong: "m (logKey i) = m' (logKey i) \<Longrightarrow> log_disk C m i = log_disk C m' i"
  by (simp add: log_disk_def)

lemma log_disk_None: "m (logKey i) = None \<Longrightarrow> log_disk C m i = None"
  by (simp add: log_disk_def)

lemma set_entries_other:
  "set_entries C es b = Inr b' \<Longrightarrow> (\<And>i. k \<noteq> logKey i) \<Longrightarrow> apply_batch m b' k = apply_batch m b k"
  by (induction C es b rule: set_entries.induct) (auto split: sum.splits)

lemma set_entries_outside:
  assumes "set_entries C es b = Inr b'" "contiguous i0 es" "unat i0 + length es < 2 ^ 64"
    and "unat i < unat i0 \<or> unat i0 + length es \<le> unat i"
  shows "apply_batch m b' (logKey i) = apply_batch m b (logKey i)"
  using assms
proof (induction es arbitrary: b i0)
  case (Cons e es)
  note u = unat_in_Cons_range[OF Cons.prems(3)]
  obtain v where v: "encEntry C e = Inr v" "set_entries C es (Batch_Set b (logKey i0) v) = Inr b'"
    using Cons.prems(1,2) by (auto split: sum.splits)
  have "apply_batch m b' (logKey i) = apply_batch m (Batch_Set b (logKey i0) v) (logKey i)"
    using Cons.IH[OF v(2) _ u(3)] Cons.prems(2,4) u(2) by auto
  moreover have "i \<noteq> i0" using Cons.prems(4) by auto
  ultimately show ?case by simp
qed simp

context codec_contract
begin

lemma set_entries_inside:
  assumes "set_entries C es b = Inr b'" "contiguous i0 es" "unat i0 + length es < 2 ^ 64"
    and "unat i0 \<le> unat i" "unat i < unat i0 + length es"
  shows "log_disk C (apply_batch m b') i = Some (es ! (unat i - unat i0))"
  using assms
proof (induction es arbitrary: b i0)
  case (Cons e es)
  note u = unat_in_Cons_range[OF Cons.prems(3)]
  obtain v where v: "encEntry C e = Inr v" "set_entries C es (Batch_Set b (logKey i0) v) = Inr b'"
    using Cons.prems(1,2) by (auto split: sum.splits)
  show ?case
  proof (cases "i = i0")
    case True
    then have "apply_batch m b' (logKey i) = Some v"
      using set_entries_outside[OF v(2) _ u(3), of i m] Cons.prems(2) u(2) by simp
    then show ?thesis using True entry_round_trip[OF v(1)] by (simp add: log_disk_def)
  next
    case False
    then have "unat i0 < unat i" using Cons.prems(4) by (auto simp: le_less word_unat_eq_iff)
    then show ?thesis
      using Cons.IH[OF v(2) _ u(3)] Cons.prems(2,5) u(2)
      by (auto simp: nth_Cons_diff)
  qed
qed simp

end

lemma cache_updates:
  assumes "contiguous i0 es" "unat i0 + length es < 2 ^ 64"
  shows "map_of (foldl (\<lambda>m e. AList.update (eIndex e) e m) c es) i =
    (if unat i0 \<le> unat i \<and> unat i < unat i0 + length es then Some (es ! (unat i - unat i0))
     else map_of c i)"
  using assms
proof (induction es arbitrary: c i0)
  case (Cons e es)
  note u = unat_in_Cons_range[OF Cons.prems(2)]
  have "unat i0 \<le> unat i \<longleftrightarrow> i = i0 \<or> Suc (unat i0) \<le> unat i"
    by (auto simp: word_unat_eq_iff)
  then show ?case
    using Cons.IH[OF _ u(3), of "AList.update i0 e c"] Cons.prems(1) u(2)
    by (auto simp: update_conv' nth_Cons_diff)
qed auto

lemma gomap_ok_updates: "gomap_ok c \<Longrightarrow> gomap_ok (foldl (\<lambda>m e. AList.update (eIndex e) e m) c es)"
  by (induction es arbitrary: c) auto

lemma evict_fields [simp]:
  "plEngine (evictTailCacheLocked pl) = plEngine pl"
  "firstIndex (evictTailCacheLocked pl) = firstIndex pl"
  "lastIndex (evictTailCacheLocked pl) = lastIndex pl"
  "lastIncludedIndex (evictTailCacheLocked pl) = lastIncludedIndex pl"
  "lastIncludedTerm (evictTailCacheLocked pl) = lastIncludedTerm pl"
  "currentTerm (evictTailCacheLocked pl) = currentTerm pl"
  "votedFor (evictTailCacheLocked pl) = votedFor pl"
  "tailCacheLimit (evictTailCacheLocked pl) = tailCacheLimit pl"
  by (simp_all add: evictTailCacheLocked_def Let_def)

lemma evict_subcache:
  assumes "gomap_ok (tailCache pl)"
  shows "gomap_ok (tailCache (evictTailCacheLocked pl))"
    and "map_of (tailCache (evictTailCacheLocked pl)) i = Some e \<Longrightarrow> map_of (tailCache pl) i = Some e"
proof -
  show "gomap_ok (tailCache (evictTailCacheLocked pl))"
    using assms by (simp add: evictTailCacheLocked_def Let_def)
  show "map_of (tailCache pl) i = Some e" if "map_of (tailCache (evictTailCacheLocked pl)) i = Some e"
    using that map_of_filter_key[OF assms]
    by (auto simp: evictTailCacheLocked_def Let_def split: if_splits)
qed

section \<open>Every operation implements its abstract counterpart\<close>

text \<open>
  A change of the in-memory fields and of the disk that keeps the retained range of entries in
  place keeps the invariant: the lemma the failure cases share.
\<close>

lemma plog_inv_subcache:
  assumes "plog_inv C m pl" and "gomap_ok cache"
    and "\<And>i e. map_of cache i = Some e \<Longrightarrow> map_of (tailCache pl) i = Some e"
  shows "plog_inv C m (pl\<lparr>tailCache := cache, plEngine := d\<rparr>)"
    and "plog_abs C m (pl\<lparr>tailCache := cache, plEngine := d\<rparr>) = plog_abs C m pl"
  using assms by (auto simp: plog_inv_def plog_bounds_def plog_abs_def)

lemma fold_delete_subcache:
  assumes "gomap_ok cache"
  shows "gomap_ok (fold AList.delete is cache)"
    and "map_of (fold AList.delete is cache) i = Some e \<Longrightarrow> map_of cache i = Some e"
  using assms by (auto simp: map_of_fold_delete split: if_splits)

context raft_storage
begin

lemma SetTermAndVote_spec:
  assumes inv: "inv pl" and ret: "SetTermAndVote E pl t v = (pl', r)"
  shows "inv pl'"
    and "r = None \<Longrightarrow> absl pl' = (absl pl)\<lparr>logTerm := t, logVote := v\<rparr>"
    and "r \<noteq> None \<Longrightarrow> absl pl' = absl pl"
proof -
  let ?b = "Batch_Set (Batch_Set NewBatch keyTerm (put_u64 t)) keyVotedFor (bytes_of_string v)"
  obtain d err where c: "Engine_Commit E (plEngine pl) ?b \<lparr>Sync = True\<rparr> = (d, err)"
    by (cases "Engine_Commit E (plEngine pl) ?b \<lparr>Sync = True\<rparr>")
  have "inv pl' \<and> (r = None \<longrightarrow> absl pl' = (absl pl)\<lparr>logTerm := t, logVote := v\<rparr>)
      \<and> (r \<noteq> None \<longrightarrow> absl pl' = absl pl)"
  proof (cases err)
    case None
    have m: "content d = (disk pl)(keyTerm \<mapsto> put_u64 t, keyVotedFor \<mapsto> bytes_of_string v)"
      using commit_done c None by (metis apply_batch_NewBatch apply_batch_Set)
    have pl': "pl' = pl\<lparr>plEngine := d, currentTerm := t, votedFor := v\<rparr>" "r = None"
      using ret c None by (auto simp: SetTermAndVote_def Let_def)
    have ld: "log_disk C (content d) = log_disk C (disk pl)"
      by (rule ext, rule log_disk_cong) (simp add: m)
    have "inv pl'"
      using inv unfolding plog_inv_def pl' 
      by (auto simp: ld plog_bounds_def) (auto simp: m meta_u64_def meta_string_def split: if_splits)
    then show ?thesis using pl' ld by (simp add: plog_abs_def)
  next
    case (Some e)
    have m: "content d = disk pl" using commit_failed c Some by blast
    have pl': "pl' = pl\<lparr>plEngine := d\<rparr>" "r = Some e"
      using ret c Some by (auto simp: SetTermAndVote_def Let_def)
    show ?thesis
      using plog_inv_subcache[OF inv plog_invD(6)[OF inv], of d] by (simp add: pl' m)
  qed
  then show "inv pl'" "r = None \<Longrightarrow> absl pl' = (absl pl)\<lparr>logTerm := t, logVote := v\<rparr>"
    "r \<noteq> None \<Longrightarrow> absl pl' = absl pl" by auto
qed

lemma AppendEntries_unfold:
  assumes b: "plog_bounds pl" and ne: "es \<noteq> []"
  shows "AppendEntries E C pl es sync =
    (let is = u64_range (eIndex (hd es)) (lastIndex pl);
         pl0 = pl\<lparr>tailCache := fold AList.delete is (tailCache pl)\<rparr>
     in case set_entries C es (map (\<lambda>i. BatchDelete (logKey i)) is) of
          Inl err \<Rightarrow> Some (pl0, Some err)
        | Inr b \<Rightarrow> (case Engine_Commit E (plEngine pl) b \<lparr>Sync = sync\<rparr> of
             (d, Some err) \<Rightarrow> Some (pl0\<lparr>plEngine := d\<rparr>, Some err)
           | (d, None) \<Rightarrow> Some ((evictTailCacheLocked (pl0\<lparr>plEngine := d,
               tailCache := foldl (\<lambda>m e. AList.update (eIndex e) e m) (tailCache pl0) es\<rparr>))
                 \<lparr>lastIndex := eIndex (last es)\<rparr>, None)))"
proof -
  have l: "lastIndex pl \<noteq> - 1" using b by (simp add: plog_bounds_def)
  have f0: "firstIndex pl \<noteq> 0" using plog_bounds_base(2)[OF b] by (metis nat.simps(3) unat_0)
  have f: "firstIndex pl = lastIncludedIndex pl + 1" using b by (simp add: plog_bounds_def)
  have del: "(if eIndex (hd es) \<le> lastIndex pl
       then for_upto (eIndex (hd es)) (lastIndex pl) delete_entry (NewBatch, tailCache pl)
       else Some (NewBatch, tailCache pl))
     = Some (map (\<lambda>i. BatchDelete (logKey i)) (u64_range (eIndex (hd es)) (lastIndex pl)),
         fold AList.delete (u64_range (eIndex (hd es)) (lastIndex pl)) (tailCache pl))"
    using l by (auto simp: for_upto_range fold_delete_entry NewBatch_def not_le)
  show ?thesis
    unfolding AppendEntries_def Let_def del using ne f f0
    by (auto split: sum.splits prod.splits option.splits)
qed

lemma AppendEntries_failed:
  assumes inv: "inv pl" and ret: "AppendEntries E C pl es sync = Some (pl', Some err)"
  shows "inv pl'" "absl pl' = absl pl"
proof -
  have ne: "es \<noteq> []" using ret by (auto simp: AppendEntries_def)
  let ?is = "u64_range (eIndex (hd es)) (lastIndex pl)"
  let ?pl0 = "pl\<lparr>tailCache := fold AList.delete ?is (tailCache pl)\<rparr>"
  consider "pl' = ?pl0" | d where "pl' = ?pl0\<lparr>plEngine := d\<rparr>" "content d = disk pl"
    using ret unfolding AppendEntries_unfold[OF plog_invD(1)[OF inv] ne] Let_def
    by (auto split: sum.splits prod.splits option.splits dest: commit_failed)
  then obtain d where pl': "pl' = ?pl0\<lparr>plEngine := d\<rparr>" and m: "content d = disk pl"
  proof cases
    case 1
    then show ?thesis using that[of "plEngine pl"] by simp
  qed
  note sub = fold_delete_subcache[OF plog_invD(6)[OF inv], of ?is]
  show "inv pl'" "absl pl' = absl pl"
    using plog_inv_subcache[OF inv sub] by (simp_all add: pl' m)
qed

end

lemma unat_last_contiguous:
  assumes "contiguous i0 es" "es \<noteq> []" "unat i0 + length es < 2 ^ 64"
  shows "Suc (unat (eIndex (last es))) = unat i0 + length es"
  using assms contiguous_last[OF assms(1,2)] unat_plus_of_nat[of i0 "length es - 1"]
  by (cases es) auto

lemma appendableD:
  assumes "appendable (plog_abs C m pl) es" "es \<noteq> []" "plog_bounds pl"
  shows "contiguous (eIndex (hd es)) es" "unat (eIndex (hd es)) + length es < 2 ^ 64"
    "unat (lastIncludedIndex pl) < unat (eIndex (hd es))"
    "unat (eIndex (hd es)) \<le> Suc (unat (lastIndex pl))"
    "Suc (unat (eIndex (last es))) = unat (eIndex (hd es)) + length es"
    "unat (eIndex (hd es)) \<le> unat (eIndex (last es))"
proof -
  show c: "contiguous (eIndex (hd es)) es" "unat (eIndex (hd es)) + length es < 2 ^ 64"
    "unat (lastIncludedIndex pl) < unat (eIndex (hd es))"
    "unat (eIndex (hd es)) \<le> Suc (unat (lastIndex pl))"
    using assms by (auto simp: appendable_def word_less_nat_alt)
  show l: "Suc (unat (eIndex (last es))) = unat (eIndex (hd es)) + length es"
    by (rule unat_last_contiguous[OF c(1) assms(2) c(2)])
  show "unat (eIndex (hd es)) \<le> unat (eIndex (last es))" using l assms(2) by (cases es) auto
qed

text \<open>
  What the disk \<open>m'\<close> holds once the entries \<open>es\<close> are written over \<open>m\<close>: the new entries, the old
  ones below them, none above them, and every other key as before.
\<close>

definition disk_appended ::
    "codec \<Rightarrow> entry list \<Rightarrow> (bytes \<rightharpoonup> bytes) \<Rightarrow> (bytes \<rightharpoonup> bytes) \<Rightarrow> bool" where
  "disk_appended C es m m' =
     ((\<forall>i. eIndex (hd es) \<le> i \<and> i \<le> eIndex (last es) \<longrightarrow>
         log_disk C m' i = Some (es ! (unat i - unat (eIndex (hd es))))) \<and>
      (\<forall>i < eIndex (hd es). m' (logKey i) = m (logKey i)) \<and>
      (\<forall>i > eIndex (last es). m' (logKey i) = None) \<and>
      (\<forall>k. (\<forall>j. k \<noteq> logKey j) \<longrightarrow> m' k = m k))"

lemma disk_appendedD:
  assumes "disk_appended C es m m'"
  shows "eIndex (hd es) \<le> i \<Longrightarrow> i \<le> eIndex (last es) \<Longrightarrow>
      log_disk C m' i = Some (es ! (unat i - unat (eIndex (hd es))))"
    and "i < eIndex (hd es) \<Longrightarrow> m' (logKey i) = m (logKey i)"
    and "i < eIndex (hd es) \<Longrightarrow> log_disk C m' i = log_disk C m i"
    and "eIndex (last es) < i \<Longrightarrow> m' (logKey i) = None"
    and "(\<And>j. k \<noteq> logKey j) \<Longrightarrow> m' k = m k"
  using assms by (auto simp: disk_appended_def intro: log_disk_cong)

context codec_contract
begin

lemma append_batch_disk:
  assumes inv: "plog_inv C m pl" and ne: "es \<noteq> []" and ap: "appendable (plog_abs C m pl) es"
    and se: "set_entries C es
        (map (\<lambda>i. BatchDelete (logKey i)) (u64_range (eIndex (hd es)) (lastIndex pl))) = Inr b'"
  shows "disk_appended C es m (apply_batch m b')"
proof -
  let ?i0 = "eIndex (hd es)" and ?l = "eIndex (last es)" and ?m' = "apply_batch m b'"
  note c = appendableD[OF ap ne plog_invD(1)[OF inv]]
  have inside: "log_disk C ?m' i = Some (es ! (unat i - unat ?i0))" if "?i0 \<le> i" "i \<le> ?l" for i
    using that c(5) by (intro set_entries_inside[OF se c(1,2)]) (auto simp: word_le_nat_alt)
  have out: "?m' (logKey i) = (if ?i0 \<le> i \<and> i \<le> lastIndex pl then None else m (logKey i))"
    if "i < ?i0 \<or> ?l < i" for i
  proof -
    have "unat i < unat ?i0 \<or> unat ?i0 + length es \<le> unat i"
      using that c(5) by (auto simp: word_less_nat_alt)
    then show ?thesis
      using set_entries_outside[OF se c(1,2), of i m] by (simp add: apply_batch_delete_entries)
  qed
  have above: "?m' (logKey i) = None" if "?l < i" for i
  proof -
    have "?i0 \<le> i" using that c(6) by (simp add: word_less_nat_alt word_le_nat_alt)
    then show ?thesis
      using out[of i] that plog_invD(3)[OF inv, of i] by (cases "m (logKey i)") auto
  qed
  have other: "?m' k = m k" if "\<And>j. k \<noteq> logKey j" for k
    using set_entries_other[OF se that, of m] that by (simp add: apply_batch_delete_entries)
  show ?thesis
    unfolding disk_appended_def using inside out above other by auto
qed

end

text \<open>An append moves the end of the log and caches new entries or keeps old ones below them.\<close>

definition fields_appended :: "entry list \<Rightarrow> 'd plog \<Rightarrow> 'd plog \<Rightarrow> bool" where
  "fields_appended es pl pl' =
     (firstIndex pl' = firstIndex pl \<and> lastIndex pl' = eIndex (last es) \<and>
      lastIncludedIndex pl' = lastIncludedIndex pl \<and> lastIncludedTerm pl' = lastIncludedTerm pl \<and>
      currentTerm pl' = currentTerm pl \<and> votedFor pl' = votedFor pl \<and> gomap_ok (tailCache pl') \<and>
      (\<forall>i e. map_of (tailCache pl') i = Some e \<longrightarrow>
         eIndex (hd es) \<le> i \<and> i \<le> eIndex (last es) \<and> e = es ! (unat i - unat (eIndex (hd es))) \<or>
         \<not> (eIndex (hd es) \<le> i \<and> i \<le> lastIndex pl) \<and> map_of (tailCache pl) i = Some e))"

lemma appended_inv:
  assumes inv: "plog_inv C m pl" and ne: "es \<noteq> []" and ap: "appendable (plog_abs C m pl) es"
    and da: "disk_appended C es m m'" and fa: "fields_appended es pl pl'"
  shows "plog_inv C m' pl'"
proof -
  let ?i0 = "eIndex (hd es)" and ?l = "eIndex (last es)"
  note b = plog_invD(1)[OF inv]
  note c = appendableD[OF ap ne b] and ub = plog_bounds_base[OF b] and ad = disk_appendedD[OF da]
  have "plog_bounds pl'"
    using b c fa by (auto simp: plog_bounds_def fields_appended_def word_le_nat_alt not_max_unat)
  moreover have "\<exists>e. log_disk C m' i = Some e \<and> eIndex e = i"
    if i: "firstIndex pl \<le> i" "i \<le> ?l" for i
  proof (cases "?i0 \<le> i")
    case True
    have "unat i - unat ?i0 < length es" using i(2) c(5) True by (simp add: word_le_nat_alt)
    then have "eIndex (es ! (unat i - unat ?i0)) = i"
      using contiguous_nth[OF c(1)] plus_of_nat_eq[of ?i0 "unat i - unat ?i0" i] True
      by (simp only: word_le_nat_alt)
    then show ?thesis using ad(1)[OF True i(2)] by simp
  next
    case False
    then have "i \<le> lastIndex pl" using c(4) by (simp add: word_less_nat_alt word_le_nat_alt)
    then show ?thesis using False plog_invD(2)[OF inv i(1)] ad(3)[of i] by simp
  qed
  moreover have "firstIndex pl \<le> i \<and> i \<le> ?l" if i: "m' (logKey i) \<noteq> None" for i
  proof -
    have "i \<le> ?l" using ad(4)[of i] i by (cases "?l < i") auto
    moreover have "firstIndex pl \<le> i"
      using ad(2)[of i] i plog_invD(3)[OF inv, of i] c(3) ub(2)
      by (cases "i < ?i0") (auto simp: word_less_nat_alt word_le_nat_alt)
    ultimately show ?thesis by simp
  qed
  moreover have "length k = 10" if k: "m' k \<noteq> None" "prefix logPrefix k" for k
    using ad(5)[of k] plog_invD(4)[OF inv, of k] k by (cases "\<exists>j. k = logKey j") (auto simp: logKey_def)
  moreover have "log_disk C m' i = Some e" if e: "map_of (tailCache pl') i = Some e" for i e
  proof -
    consider "?i0 \<le> i" "i \<le> ?l" "e = es ! (unat i - unat ?i0)"
      | "\<not> (?i0 \<le> i \<and> i \<le> lastIndex pl)" "map_of (tailCache pl) i = Some e"
      using fa e by (auto simp: fields_appended_def)
    then show ?thesis
    proof cases
      case 1
      then show ?thesis using ad(1) by simp
    next
      case 2
      have "log_disk C m i = Some e" by (rule plog_invD(5)[OF inv 2(2)])
      then show ?thesis using log_disk_range(2)[OF inv] 2(1) ad(3)[of i] by auto
    qed
  qed
  moreover have "meta_u64 m' keyTerm (currentTerm pl)" "meta_string m' keyVotedFor (votedFor pl)"
    "meta_u64 m' keyLastIncludedIndex (lastIncludedIndex pl)"
    "meta_u64 m' keyLastIncludedTerm (lastIncludedTerm pl)"
    using plog_invD(7-10)[OF inv] ad(5) by (simp_all add: meta_u64_def meta_string_def)
  ultimately show ?thesis using fa by (simp add: plog_inv_def fields_appended_def)
qed

lemma appended_abs:
  assumes inv: "plog_inv C m pl" and ne: "es \<noteq> []" and ap: "appendable (plog_abs C m pl) es"
    and da: "disk_appended C es m m'" and fa: "fields_appended es pl pl'"
  shows "plog_abs C m' pl' = alog_append es (plog_abs C m pl)"
proof -
  let ?i0 = "eIndex (hd es)" and ?l = "eIndex (last es)" and ?li = "lastIncludedIndex pl"
  let ?old = "logEntries (plog_abs C m pl)" and ?new = "logEntries (plog_abs C m' pl')"
  note b = plog_invD(1)[OF inv] and inv' = appended_inv[OF assms]
  note b' = plog_invD(1)[OF inv']
  note c = appendableD[OF ap ne b] and ub = plog_bounds_base[OF b] and ad = disk_appendedD[OF da]
  have fl: "firstIndex pl' = firstIndex pl" "lastIndex pl' = ?l" "lastIncludedIndex pl' = ?li"
    using fa by (simp_all add: fields_appended_def)
  have len: "length ?new = unat ?l - unat ?li" "length ?old = unat (lastIndex pl) - unat ?li"
    using length_plog_entries[OF b'] length_plog_entries[OF b] by (simp_all add: fl)
  have tk: "length (take (unat ?i0 - unat ?li - 1) ?old) = unat ?i0 - unat ?li - 1"
    using c(4) len by simp
  have "?new = take (unat ?i0 - unat ?li - 1) ?old @ es"
  proof (rule nth_equalityI)
    show "length ?new = length (take (unat ?i0 - unat ?li - 1) ?old @ es)"
      using len c by simp
    fix k assume k: "k < length ?new"
    let ?j = "firstIndex pl + of_nat k"
    have i: "unat ?j = unat (firstIndex pl) + k"
      using k len c(2,5) ub(2) by (intro unat_plus_of_nat) simp
    have e: "?new ! k = the (log_disk C m' ?j)" using nth_plog_entries[OF b' k] by (simp add: fl)
    show "?new ! k = (take (unat ?i0 - unat ?li - 1) ?old @ es) ! k"
    proof (cases "?j < ?i0")
      case True
      then have k1: "k < unat ?i0 - unat ?li - 1" using i ub(2) by (simp add: word_less_nat_alt)
      then have "k < length ?old" using c(4) len by simp
      then show ?thesis
        using k1 e ad(3)[OF True] nth_plog_entries[OF b, of k C m] by (simp add: nth_append)
    next
      case False
      then have sub: "unat ?j - unat ?i0 = k - (unat ?i0 - unat ?li - 1)"
        and nk: "\<not> k < unat ?i0 - unat ?li - 1"
        using i ub(2) c(3) by (simp_all add: word_less_nat_alt)
      have "?j \<le> ?l" using i k len ub(2) by (simp add: word_le_nat_alt)
      then have "?new ! k = es ! (k - (unat ?i0 - unat ?li - 1))"
        using e ad(1)[of ?j] False by (simp add: sub)
      then show ?thesis by (simp only: nth_append tk nk if_False)
    qed
  qed
  then show ?thesis using ne fa by (simp add: alog_append_def plog_abs_def fields_appended_def)
qed

context raft_storage
begin

lemma AppendEntries_done:
  assumes inv: "inv pl" and ap: "appendable (absl pl) es"
    and ret: "AppendEntries E C pl es sync = Some (pl', None)"
  shows "inv pl'" "absl pl' = alog_append es (absl pl)"
proof -
  have "inv pl' \<and> absl pl' = alog_append es (absl pl)"
  proof (cases "es = []")
    case True
    then show ?thesis using inv ret by (simp add: AppendEntries_def alog_append_def)
  next
    case ne: False
    let ?is = "u64_range (eIndex (hd es)) (lastIndex pl)"
    let ?c0 = "fold AList.delete ?is (tailCache pl)"
    let ?c1 = "foldl (\<lambda>m e. AList.update (eIndex e) e m) ?c0 es"
    let ?pl1 = "\<lambda>d. pl\<lparr>plEngine := d, tailCache := ?c1\<rparr>"
    note b = plog_invD(1)[OF inv]
    note c = appendableD[OF ap ne b]
    obtain b' d where se: "set_entries C es (map (\<lambda>i. BatchDelete (logKey i)) ?is) = Inr b'"
      and cm: "Engine_Commit E (plEngine pl) b' \<lparr>Sync = sync\<rparr> = (d, None)"
      and pl': "pl' = (evictTailCacheLocked (?pl1 d))\<lparr>lastIndex := eIndex (last es)\<rparr>"
      using ret unfolding AppendEntries_unfold[OF b ne] Let_def
      by (auto split: sum.splits prod.splits option.splits)
    have "disk_appended C es (disk pl) (content d)"
      using append_batch_disk[OF inv ne ap se] commit_done[OF cm] by simp
    moreover have "fields_appended es pl pl'"
    proof -
      have ok: "gomap_ok (tailCache (?pl1 d))"
        using plog_invD(6)[OF inv] by (simp add: gomap_ok_updates)
      have "eIndex (hd es) \<le> i \<and> i \<le> eIndex (last es) \<and> e = es ! (unat i - unat (eIndex (hd es))) \<or>
         \<not> (eIndex (hd es) \<le> i \<and> i \<le> lastIndex pl) \<and> map_of (tailCache pl) i = Some e"
        if "map_of (tailCache pl') i = Some e" for i e
      proof -
        have "map_of ?c1 i = Some e" using evict_subcache(2)[OF ok, of i e] that by (simp add: pl')
        then show ?thesis
          using cache_updates[OF c(1,2), of ?c0 i] c(5)
          by (auto simp: word_le_nat_alt map_of_fold_delete split: if_splits)
      qed
      then show ?thesis using evict_subcache(1)[OF ok] by (simp add: fields_appended_def pl')
    qed
    moreover have "disk pl' = content d" by (simp add: pl')
    ultimately show ?thesis using appended_inv[OF inv ne ap] appended_abs[OF inv ne ap] by simp
  qed
  then show "inv pl'" "absl pl' = alog_append es (absl pl)" by auto
qed

lemma AppendEntries_returns: "inv pl \<Longrightarrow> \<exists>pl' r. AppendEntries E C pl es sync = Some (pl', r)"
  by (cases "es = []")
    (auto simp: AppendEntries_unfold[OF plog_invD(1)] Let_def AppendEntries_def[of E C pl "[]"]
      split: sum.splits prod.splits option.splits)

end

text \<open>
  Moving the snapshot boundary to \<open>li\<close>: with \<open>keep\<close> the entries above \<open>li\<close> stay
  (\<^const>\<open>CompactPrefix\<close>), without it all are dropped (\<^const>\<open>RestoreSnapshotBoundary\<close>).
\<close>

definition disk_moved ::
    "bool \<Rightarrow> u64 \<Rightarrow> u64 \<Rightarrow> (bytes \<rightharpoonup> bytes) \<Rightarrow> (bytes \<rightharpoonup> bytes) \<Rightarrow> bool" where
  "disk_moved keep li lt m m' =
     ((\<forall>i. m' (logKey i) = (if keep \<and> li < i then m (logKey i) else None)) \<and>
      (\<forall>k. (\<forall>j. k \<noteq> logKey j) \<longrightarrow> k \<noteq> keyLastIncludedIndex \<longrightarrow> k \<noteq> keyLastIncludedTerm \<longrightarrow> m' k = m k) \<and>
      m' keyLastIncludedIndex = Some (put_u64 li) \<and> m' keyLastIncludedTerm = Some (put_u64 lt))"

definition fields_moved :: "bool \<Rightarrow> u64 \<Rightarrow> u64 \<Rightarrow> 'd plog \<Rightarrow> 'd plog \<Rightarrow> bool" where
  "fields_moved keep li lt pl pl' =
     (firstIndex pl' = li + 1 \<and>
      lastIndex pl' = (if keep \<and> li < lastIndex pl then lastIndex pl else li) \<and>
      lastIncludedIndex pl' = li \<and> lastIncludedTerm pl' = lt \<and>
      currentTerm pl' = currentTerm pl \<and> votedFor pl' = votedFor pl \<and> gomap_ok (tailCache pl') \<and>
      (\<forall>i e. map_of (tailCache pl') i = Some e \<longrightarrow>
         keep \<and> li < i \<and> map_of (tailCache pl) i = Some e))"

lemma moved_log_disk:
  "disk_moved keep li lt m m' \<Longrightarrow> log_disk C m' i = (if keep \<and> li < i then log_disk C m i else None)"
  by (auto simp: disk_moved_def intro: log_disk_cong log_disk_None)

lemma moved_inv:
  assumes inv: "plog_inv C m pl" and li: "li \<noteq> - 1" and old: "keep \<Longrightarrow> lastIncludedIndex pl \<le> li"
    and dm: "disk_moved keep li lt m m'" and fm: "fields_moved keep li lt pl pl'"
  shows "plog_inv C m' pl'"
proof -
  note b = plog_invD(1)[OF inv]
  note ub = plog_bounds_base[OF b] and ld = moved_log_disk[OF dm]
  have first_gt: "li < i \<longleftrightarrow> li + 1 \<le> i" for i
    using li by (simp add: inc_less_eq_iff)
  have "plog_bounds pl'"
    using b fm li by (auto simp: plog_bounds_def fields_moved_def)
  moreover have "\<exists>e. log_disk C m' i = Some e \<and> eIndex e = i"
    if i: "firstIndex pl' \<le> i" "i \<le> lastIndex pl'" for i
  proof -
    have "li < i" using i(1) fm first_gt by (simp add: fields_moved_def)
    moreover from this have k: "keep" "i \<le> lastIndex pl"
      using i(2) fm by (auto simp: fields_moved_def split: if_splits)
    moreover have "firstIndex pl \<le> i"
      using old[OF k(1)] \<open>li < i\<close> ub(2) by (simp add: word_le_nat_alt word_less_nat_alt)
    ultimately show ?thesis using ld plog_invD(2)[OF inv, of i] by simp
  qed
  moreover have "firstIndex pl' \<le> i \<and> i \<le> lastIndex pl'" if i: "m' (logKey i) \<noteq> None" for i
  proof -
    have "keep" "li < i" "m (logKey i) \<noteq> None"
      using i dm by (auto simp: disk_moved_def split: if_splits)
    then show ?thesis
      using plog_invD(3)[OF inv, of i] fm first_gt by (auto simp: fields_moved_def)
  qed
  moreover have "length k = 10" if k: "m' k \<noteq> None" "prefix logPrefix k" for k
  proof (cases "\<exists>j. k = logKey j")
    case False
    then have "m' k = m k" using dm k(2) by (auto simp: disk_moved_def)
    then show ?thesis using plog_invD(4)[OF inv, of k] k by simp
  qed (auto simp: logKey_def)
  moreover have "log_disk C m' i = Some e" if "map_of (tailCache pl') i = Some e" for i e
    using that fm ld plog_invD(5)[OF inv, of i e] by (auto simp: fields_moved_def)
  moreover have "meta_u64 m' keyTerm (currentTerm pl)" "meta_string m' keyVotedFor (votedFor pl)"
    "meta_u64 m' keyLastIncludedIndex li" "meta_u64 m' keyLastIncludedTerm lt"
    using plog_invD(7-8)[OF inv] dm by (simp_all add: meta_u64_def meta_string_def disk_moved_def)
  ultimately show ?thesis using fm by (simp add: plog_inv_def fields_moved_def)
qed

lemma moved_abs:
  assumes inv: "plog_inv C m pl" and li: "li \<noteq> - 1" and old: "keep \<Longrightarrow> lastIncludedIndex pl \<le> li"
    and dm: "disk_moved keep li lt m m'" and fm: "fields_moved keep li lt pl pl'"
  shows "plog_abs C m' pl' =
    (if keep then (plog_abs C m pl)\<lparr>logBase := li, logBaseTerm := lt,
       logEntries := drop (unat li - unat (lastIncludedIndex pl)) (logEntries (plog_abs C m pl))\<rparr>
     else alog_restore li lt (plog_abs C m pl))"
proof -
  note b = plog_invD(1)[OF inv] and b' = plog_invD(1)[OF moved_inv[OF assms]]
  note ub = plog_bounds_base[OF b] and ub' = plog_bounds_base[OF b']
  let ?new = "logEntries (plog_abs C m' pl')" and ?old = "logEntries (plog_abs C m pl)"
  let ?n = "unat li - unat (lastIncludedIndex pl)"
  have len: "length ?new = unat (lastIndex pl') - unat li"
    "length ?old = unat (lastIndex pl) - unat (lastIncludedIndex pl)"
    using length_plog_entries[OF b'] length_plog_entries[OF b] fm by (simp_all add: fields_moved_def)
  have "?new = drop ?n ?old" if keep
  proof (rule nth_equalityI)
    have lo: "unat (lastIncludedIndex pl) \<le> unat li" using old[OF that] by (simp add: word_le_nat_alt)
    show ln: "length ?new = length (drop ?n ?old)"
      using len that lo fm by (auto simp: fields_moved_def word_less_nat_alt)
    fix k assume k: "k < length ?new"
    let ?i = "firstIndex pl' + of_nat k"
    have up: "unat (firstIndex pl') = Suc (unat li)" using ub'(2) fm by (simp add: fields_moved_def)
    have i: "unat ?i = Suc (unat li) + k"
      using k len(1) up ub'(4) by (subst unat_plus_of_nat) simp_all
    have "unat (firstIndex pl) + (?n + k) = unat ?i" using i ub(2) lo by simp
    then have same: "firstIndex pl + of_nat (?n + k) = ?i" by (rule plus_of_nat_eq)
    have "?new ! k = the (log_disk C m ?i)"
      using nth_plog_entries[OF b' k] moved_log_disk[OF dm] that i by (simp add: word_less_nat_alt)
    moreover have "?old ! (?n + k) = the (log_disk C m ?i)"
      using nth_plog_entries[OF b, of "?n + k" C m] k ln same by (simp del: of_nat_add)
    ultimately show "?new ! k = drop ?n ?old ! k" using k ln by simp
  qed
  moreover have "?new = []" if "\<not> keep"
    using len(1) that fm by (simp add: fields_moved_def)
  ultimately show ?thesis
    using fm by (auto simp: plog_abs_def fields_moved_def alog_restore_def)
qed

context raft_storage
begin

lemma moved_ret:
  assumes inv: "inv pl" and li: "li \<noteq> - 1" and old: "keep \<Longrightarrow> lastIncludedIndex pl \<le> li"
    and dm: "disk_moved keep li lt (disk pl) (disk pl')" and fm: "fields_moved keep li lt pl pl'"
  shows "inv pl'"
    and "absl pl' = (if keep then (absl pl)\<lparr>logBase := li, logBaseTerm := lt,
       logEntries := drop (unat li - unat (lastIncludedIndex pl)) (logEntries (absl pl))\<rparr>
     else alog_restore li lt (absl pl))"
  using moved_inv[OF assms] moved_abs[OF assms] by auto

lemma CompactPrefix_unfold:
  assumes "plog_bounds pl" and "lastIncludedIndex pl < li"
  shows "CompactPrefix E pl li lt =
    (let is = u64_range (firstIndex pl) (min li (lastIndex pl));
         pl0 = pl\<lparr>tailCache := fold AList.delete is (tailCache pl)\<rparr>;
         b = Batch_Set (Batch_Set (map (\<lambda>i. BatchDelete (logKey i)) is)
               keyLastIncludedIndex (put_u64 li)) keyLastIncludedTerm (put_u64 lt)
     in case Engine_Commit E (plEngine pl) b \<lparr>Sync = True\<rparr> of
          (d, Some err) \<Rightarrow> Some (pl0\<lparr>plEngine := d\<rparr>, Some err)
        | (d, None) \<Rightarrow> Some (pl0\<lparr>plEngine := d, lastIncludedIndex := li, lastIncludedTerm := lt,
            firstIndex := li + 1, lastIndex := (if lastIndex pl < li then li else lastIndex pl)\<rparr>, None))"
proof -
  have e: "(if lastIndex pl < li then lastIndex pl else li) = min li (lastIndex pl)" by auto
  have ne: "min li (lastIndex pl) \<noteq> - 1"
    using assms(1) by (auto simp: plog_bounds_def min_def word_order.extremum_unique)
  show ?thesis
    using assms(2)[folded not_le] ne unfolding CompactPrefix_def Let_def e
    by (simp add: for_upto_range fold_delete_entry NewBatch_def)
qed

lemma CompactPrefix_done:
  assumes inv: "inv pl" and li: "li \<noteq> - 1" and ret: "CompactPrefix E pl li lt = Some (pl', None)"
  shows "inv pl'" "absl pl' = alog_compact li lt (absl pl)"
proof -
  have "inv pl' \<and> absl pl' = alog_compact li lt (absl pl)"
  proof (cases "li \<le> lastIncludedIndex pl")
    case True
    then show ?thesis using ret inv by (simp add: CompactPrefix_def alog_compact_def)
  next
    case False
    note b = plog_invD(1)[OF inv]
    let ?is = "u64_range (firstIndex pl) (min li (lastIndex pl))"
    let ?b = "Batch_Set (Batch_Set (map (\<lambda>i. BatchDelete (logKey i)) ?is)
        keyLastIncludedIndex (put_u64 li)) keyLastIncludedTerm (put_u64 lt)"
    obtain d where cm: "Engine_Commit E (plEngine pl) ?b \<lparr>Sync = True\<rparr> = (d, None)"
      and pl': "pl' = pl\<lparr>tailCache := fold AList.delete ?is (tailCache pl), plEngine := d,
        lastIncludedIndex := li, lastIncludedTerm := lt, firstIndex := li + 1,
        lastIndex := (if lastIndex pl < li then li else lastIndex pl)\<rparr>"
      using ret False unfolding Let_def
      by (auto simp: CompactPrefix_unfold[OF b] Let_def not_le split: prod.splits option.splits)
    have gone: "disk pl (logKey i) = None" if "i \<le> li" "i \<notin> set ?is" for i
      using that plog_invD(3)[OF inv, of i] by (cases "disk pl (logKey i)") auto
    have "content d = apply_batch (disk pl) ?b" by (rule commit_done[OF cm])
    then have "disk_moved True li lt (disk pl) (disk pl')"
      using gone unfolding disk_moved_def
      by (auto simp: pl' apply_batch_delete_entries min_def split: if_splits)
    moreover have "fields_moved True li lt pl pl'"
    proof -
      have "li < i" if "map_of (tailCache pl) i = Some e" "i \<notin> set ?is" for i e
        using log_disk_range[OF inv plog_invD(5)[OF inv that(1)]] that(2)
        by (auto simp: min_def not_le split: if_splits)
      then show ?thesis
        using plog_invD(6)[OF inv]
        by (auto simp: fields_moved_def pl' map_of_fold_delete split: if_splits)
    qed
    ultimately show ?thesis
      using moved_ret[OF inv li, of True lt pl'] False by (simp add: alog_compact_def)
  qed
  then show "inv pl'" "absl pl' = alog_compact li lt (absl pl)" by auto
qed

lemma CompactPrefix_failed:
  assumes inv: "inv pl" and ret: "CompactPrefix E pl li lt = Some (pl', Some err)"
  shows "inv pl'" "absl pl' = absl pl"
proof -
  let ?is = "u64_range (firstIndex pl) (min li (lastIndex pl))"
  have "\<not> li \<le> lastIncludedIndex pl" using ret by (auto simp: CompactPrefix_def)
  then obtain d where pl': "pl' = pl\<lparr>tailCache := fold AList.delete ?is (tailCache pl), plEngine := d\<rparr>"
    and m: "content d = disk pl"
    using ret by (auto simp: CompactPrefix_unfold[OF plog_invD(1)[OF inv]] Let_def not_le
        split: prod.splits option.splits dest: commit_failed)
  show "inv pl'" "absl pl' = absl pl"
    using plog_inv_subcache[OF inv fold_delete_subcache[OF plog_invD(6)[OF inv], of ?is]]
    by (simp_all add: pl' m)
qed

lemma CompactPrefix_returns: "inv pl \<Longrightarrow> \<exists>pl' r. CompactPrefix E pl li lt = Some (pl', r)"
proof (cases "li \<le> lastIncludedIndex pl")
  case True
  then show ?thesis by (simp add: CompactPrefix_def)
next
  case False
  assume "inv pl"
  then show ?thesis
    using False by (auto simp: CompactPrefix_unfold[OF plog_invD(1)] Let_def not_le
        split: prod.splits option.splits)
qed

end

text \<open>Cutting the log from index \<open>i0\<close> on.\<close>

lemma truncated:
  assumes inv: "plog_inv C m pl" and lo: "lastIncludedIndex pl < i0" and hi: "i0 \<le> lastIndex pl"
    and keys: "\<And>i. m' (logKey i) = (if i0 \<le> i then None else m (logKey i))"
    and other: "\<And>k. (\<And>j. k \<noteq> logKey j) \<Longrightarrow> m' k = m k"
    and ok: "gomap_ok cache"
    and cache: "\<And>i e. map_of cache i = Some e \<Longrightarrow> map_of (tailCache pl) i = Some e \<and> i < i0"
    and pl': "pl' = pl\<lparr>tailCache := cache, plEngine := d, lastIndex := i0 - 1\<rparr>"
  shows "plog_inv C m' pl'" and "plog_abs C m' pl' = alog_truncate i0 (plog_abs C m pl)"
proof -
  note b = plog_invD(1)[OF inv]
  note ub = plog_bounds_base[OF b]
  have lo': "unat (lastIncludedIndex pl) < unat i0" using lo by (simp add: word_less_nat_alt)
  then have "i0 \<noteq> 0" by auto
  then have f: "unat (i0 - 1) = unat i0 - 1" by (rule unat_minus_one)
  have le: "i \<le> i0 - 1 \<longleftrightarrow> i < i0" for i
    using f lo' by (simp only: word_less_nat_alt word_le_nat_alt) arith
  have ld: "log_disk C m' i = (if i0 \<le> i then None else log_disk C m i)" for i
    using keys[of i] by (auto intro: log_disk_cong log_disk_None)
  have b': "plog_bounds pl'"
  proof -
    have "lastIncludedIndex pl \<le> i0 - 1" using le lo by simp
    moreover have "i0 - 1 \<noteq> - 1" using \<open>i0 \<noteq> 0\<close> by simp
    ultimately show ?thesis using b by (simp add: plog_bounds_def pl')
  qed
  moreover have "\<exists>e. log_disk C m' i = Some e \<and> eIndex e = i"
    if "firstIndex pl \<le> i" "i < i0" for i
    using that hi plog_invD(2)[OF inv, of i] by (simp add: ld not_le)
  moreover have "firstIndex pl \<le> i \<and> i < i0" if "m' (logKey i) \<noteq> None" for i
    using that keys[of i] plog_invD(3)[OF inv, of i] by (simp split: if_splits)
  moreover have "length k = 10" if "m' k \<noteq> None" "prefix logPrefix k" for k
    using that other[of k] plog_invD(4)[OF inv, of k] by (cases "\<exists>j. k = logKey j") (auto simp: logKey_def)
  moreover have "log_disk C m' i = Some e" if "map_of cache i = Some e" for i e
    using cache[OF that] plog_invD(5)[OF inv, of i e] by (simp add: ld not_le[symmetric])
  moreover have "meta_u64 m' keyTerm (currentTerm pl)" "meta_string m' keyVotedFor (votedFor pl)"
    "meta_u64 m' keyLastIncludedIndex (lastIncludedIndex pl)"
    "meta_u64 m' keyLastIncludedTerm (lastIncludedTerm pl)"
    using plog_invD(7-10)[OF inv] other by (simp_all add: meta_u64_def meta_string_def)
  ultimately show inv': "plog_inv C m' pl'" using ok by (simp add: plog_inv_def pl' le)
  let ?n = "unat i0 - unat (lastIncludedIndex pl) - 1"
  let ?new = "logEntries (plog_abs C m' pl')" and ?old = "logEntries (plog_abs C m pl)"
  have len: "length ?new = ?n" "length ?old = unat (lastIndex pl) - unat (lastIncludedIndex pl)"
    using length_plog_entries[OF b'] length_plog_entries[OF b] f by (simp_all add: pl')
  have "?new = take ?n ?old"
  proof (rule nth_equalityI)
    show ln: "length ?new = length (take ?n ?old)"
      using len hi by (simp add: word_le_nat_alt)
    fix k assume k: "k < length ?new"
    have "unat (firstIndex pl + of_nat k) = Suc (unat (lastIncludedIndex pl)) + k"
      using k len(1) ub(2) u64_max[of i0] by (subst unat_plus_of_nat) simp_all
    then have "\<not> i0 \<le> firstIndex pl + of_nat k" using k len(1) by (simp add: word_le_nat_alt)
    then show "?new ! k = take ?n ?old ! k"
      using nth_plog_entries[OF b' k] nth_plog_entries[OF b, of k C m] k ln
      by (simp add: pl' ld)
  qed
  then show "plog_abs C m' pl' = alog_truncate i0 (plog_abs C m pl)"
    by (simp add: alog_truncate_def plog_abs_def pl')
qed

context raft_storage
begin

lemma RestoreSnapshotBoundary_unfold:
  assumes "plog_bounds pl"
  shows "RestoreSnapshotBoundary E pl li lt =
    (let b = Batch_Set (Batch_Set
               (map (\<lambda>i. BatchDelete (logKey i)) (u64_range (firstIndex pl) (lastIndex pl)))
               keyLastIncludedIndex (put_u64 li)) keyLastIncludedTerm (put_u64 lt)
     in case Engine_Commit E (plEngine pl) b \<lparr>Sync = True\<rparr> of
          (d, Some err) \<Rightarrow> Some (pl\<lparr>tailCache := [], plEngine := d\<rparr>, Some err)
        | (d, None) \<Rightarrow> Some (pl\<lparr>tailCache := [], plEngine := d, lastIncludedIndex := li,
            lastIncludedTerm := lt, firstIndex := li + 1, lastIndex := li\<rparr>, None))"
  using assms unfolding RestoreSnapshotBoundary_def Let_def plog_bounds_def
  by (simp add: for_upto_range fold_Batch_Delete NewBatch_def)

lemma RestoreSnapshotBoundary_done:
  assumes inv: "inv pl" and li: "li \<noteq> - 1"
    and ret: "RestoreSnapshotBoundary E pl li lt = Some (pl', None)"
  shows "inv pl'" "absl pl' = alog_restore li lt (absl pl)"
proof -
  let ?is = "u64_range (firstIndex pl) (lastIndex pl)"
  let ?b = "Batch_Set (Batch_Set (map (\<lambda>i. BatchDelete (logKey i)) ?is)
      keyLastIncludedIndex (put_u64 li)) keyLastIncludedTerm (put_u64 lt)"
  obtain d where cm: "Engine_Commit E (plEngine pl) ?b \<lparr>Sync = True\<rparr> = (d, None)"
    and pl': "pl' = pl\<lparr>tailCache := [], plEngine := d, lastIncludedIndex := li,
            lastIncludedTerm := lt, firstIndex := li + 1, lastIndex := li\<rparr>"
    using ret by (auto simp: RestoreSnapshotBoundary_unfold[OF plog_invD(1)[OF inv]] Let_def
        split: prod.splits option.splits)
  have gone: "disk pl (logKey i) = None" if "i \<notin> set ?is" for i
    using that plog_invD(3)[OF inv, of i] by (cases "disk pl (logKey i)") auto
  have "content d = apply_batch (disk pl) ?b" by (rule commit_done[OF cm])
  then have "disk_moved False li lt (disk pl) (disk pl')"
    using gone unfolding disk_moved_def by (auto simp: pl' apply_batch_delete_entries)
  moreover have "fields_moved False li lt pl pl'" by (simp add: fields_moved_def pl')
  ultimately show "inv pl'" "absl pl' = alog_restore li lt (absl pl)"
    using moved_ret[OF inv li, of False lt pl'] by simp_all
qed

lemma RestoreSnapshotBoundary_failed:
  assumes inv: "inv pl" and ret: "RestoreSnapshotBoundary E pl li lt = Some (pl', Some err)"
  shows "inv pl'" "absl pl' = absl pl"
proof -
  obtain d where pl': "pl' = pl\<lparr>tailCache := [], plEngine := d\<rparr>" and m: "content d = disk pl"
    using ret by (auto simp: RestoreSnapshotBoundary_unfold[OF plog_invD(1)[OF inv]] Let_def
        split: prod.splits option.splits dest: commit_failed)
  show "inv pl'" "absl pl' = absl pl"
    using plog_inv_subcache[OF inv gomap_ok_Nil] by (simp_all add: pl' m)
qed

lemma RestoreSnapshotBoundary_returns:
  "inv pl \<Longrightarrow> \<exists>pl' r. RestoreSnapshotBoundary E pl li lt = Some (pl', r)"
  by (auto simp: RestoreSnapshotBoundary_unfold[OF plog_invD(1)] Let_def
      split: prod.splits option.splits)

lemma TruncateSuffix_unfold:
  assumes "plog_bounds pl" and "from \<le> lastIndex pl"
  shows "TruncateSuffix E pl from =
    (let is = u64_range from (lastIndex pl);
         pl0 = pl\<lparr>tailCache := fold AList.delete is (tailCache pl)\<rparr>
     in case Engine_Commit E (plEngine pl) (map (\<lambda>i. BatchDelete (logKey i)) is) \<lparr>Sync = True\<rparr> of
          (d, Some err) \<Rightarrow> Some (pl0\<lparr>plEngine := d\<rparr>, Some err)
        | (d, None) \<Rightarrow> Some (pl0\<lparr>plEngine := d, lastIndex := from - 1\<rparr>, None))"
proof -
  have "(if from = firstIndex pl then lastIncludedIndex pl else from - 1) = from - 1"
    using assms(1) by (simp add: plog_bounds_def)
  then show ?thesis
    using assms unfolding TruncateSuffix_def Let_def plog_bounds_def
    by (simp add: for_upto_range fold_delete_entry NewBatch_def not_less[symmetric])
qed

lemma TruncateSuffix_done:
  assumes inv: "inv pl" and fr: "lastIncludedIndex pl < from"
    and ret: "TruncateSuffix E pl from = Some (pl', None)"
  shows "inv pl'" "absl pl' = alog_truncate from (absl pl)"
proof -
  note b = plog_invD(1)[OF inv]
  have "inv pl' \<and> absl pl' = alog_truncate from (absl pl)"
  proof (cases "from > lastIndex pl")
    case True
    then have "pl' = pl" using ret by (simp add: TruncateSuffix_def)
    moreover have "length (logEntries (absl pl)) \<le> unat from - unat (lastIncludedIndex pl) - 1"
      using True length_plog_entries[OF b, of C "disk pl"] by (simp add: word_less_nat_alt)
    ultimately show ?thesis using inv by (simp add: alog_truncate_def)
  next
    case False
    let ?is = "u64_range from (lastIndex pl)"
    obtain d where cm: "Engine_Commit E (plEngine pl) (map (\<lambda>i. BatchDelete (logKey i)) ?is)
          \<lparr>Sync = True\<rparr> = (d, None)"
      and pl': "pl' = pl\<lparr>tailCache := fold AList.delete ?is (tailCache pl), plEngine := d,
        lastIndex := from - 1\<rparr>"
      using ret False by (auto simp: TruncateSuffix_unfold[OF b] Let_def not_less
          split: prod.splits option.splits)
    have m': "content d k = (if \<exists>i \<in> set ?is. k = logKey i then None else disk pl k)" for k
      using commit_done[OF cm] by (simp only: apply_batch_delete_entries)
    have keys: "content d (logKey i) = (if from \<le> i then None else disk pl (logKey i))" for i
      using m'[of "logKey i"] plog_invD(3)[OF inv, of i] by (cases "disk pl (logKey i)") auto
    have other: "content d k = disk pl k" if "\<And>j. k \<noteq> logKey j" for k
      using m'[of k] that by simp
    have cache: "map_of (tailCache pl) i = Some e \<and> i < from"
      if "map_of (fold AList.delete ?is (tailCache pl)) i = Some e" for i e
      using that log_disk_range(2)[OF inv plog_invD(5)[OF inv]]
      by (auto simp: map_of_fold_delete not_le[symmetric] split: if_splits)
    have ok: "gomap_ok (fold AList.delete ?is (tailCache pl))" using plog_invD(6)[OF inv] by simp
    have hi: "from \<le> lastIndex pl" using False by simp
    have "disk pl' = content d" by (simp add: pl')
    then show ?thesis using truncated[OF inv fr hi keys other ok cache pl'] by simp
  qed
  then show "inv pl'" "absl pl' = alog_truncate from (absl pl)" by auto
qed

lemma TruncateSuffix_failed:
  assumes inv: "inv pl" and ret: "TruncateSuffix E pl from = Some (pl', Some err)"
  shows "inv pl'" "absl pl' = absl pl"
proof -
  let ?is = "u64_range from (lastIndex pl)"
  have "\<not> from > lastIndex pl" using ret by (auto simp: TruncateSuffix_def)
  then obtain d where pl': "pl' = pl\<lparr>tailCache := fold AList.delete ?is (tailCache pl), plEngine := d\<rparr>"
    and m: "content d = disk pl"
    using ret by (auto simp: TruncateSuffix_unfold[OF plog_invD(1)[OF inv]] Let_def not_less
        split: prod.splits option.splits dest: commit_failed)
  show "inv pl'" "absl pl' = absl pl"
    using plog_inv_subcache[OF inv fold_delete_subcache[OF plog_invD(6)[OF inv], of ?is]]
    by (simp_all add: pl' m)
qed

lemma TruncateSuffix_returns: "inv pl \<Longrightarrow> \<exists>pl' r. TruncateSuffix E pl from = Some (pl', r)"
proof (cases "from > lastIndex pl")
  case True
  then show ?thesis by (simp add: TruncateSuffix_def)
next
  case False
  assume "inv pl"
  then show ?thesis
    using False by (auto simp: TruncateSuffix_unfold[OF plog_invD(1)] Let_def not_less
        split: prod.splits option.splits)
qed

end

section \<open>Opening the log\<close>

lemma open_scan_max:
  assumes "\<And>k v. (k, v) \<in> set it \<Longrightarrow> \<exists>i. k = logKey i \<and> i \<le> u" and "l \<le> u"
    and "l = u \<or> (\<exists>v. (logKey u, v) \<in> set it)"
  shows "open_scan it l = Some u"
  using assms
proof (induction it arbitrary: l)
  case (Cons p it)
  obtain k v where p: "p = (k, v)" by (cases p)
  then obtain i where i: "k = logKey i" "i \<le> u" using Cons.prems(1)[of k v] by auto
  let ?l = "if i > l then i else l"
  have "?l = u \<or> (\<exists>v. (logKey u, v) \<in> set it)"
    using Cons.prems(2,3) i p by auto
  moreover have "?l \<le> u" using i Cons.prems(2) by simp
  moreover have "\<exists>i. k = logKey i \<and> i \<le> u" if "(k, v) \<in> set it" for k v
    using Cons.prems(1)[of k v] that by simp
  ultimately have "open_scan it ?l = Some u" by (intro Cons.IH) auto
  then show ?case by (simp add: p i)
qed simp

text \<open>The fields of a log that are not on disk.\<close>

definition cold :: "'d plog \<Rightarrow> 'd plog" where
  "cold pl = pl\<lparr>tailCache := [], tailCacheLimit := 4096\<rparr>"

lemma cold_simps [simp]:
  "plEngine (cold pl) = plEngine pl" "plog_abs C m (cold pl) = plog_abs C m pl"
  by (simp_all add: cold_def plog_abs_def)

lemma cold_inv: "plog_inv C m pl \<Longrightarrow> plog_inv C m (cold pl)"
proof -
  assume inv: "plog_inv C m pl"
  have "plog_inv C m (pl\<lparr>tailCache := []\<rparr>)"
    using plog_inv_subcache(1)[OF inv, of "[]" "plEngine pl"] by simp
  then show ?thesis
    unfolding plog_inv_def plog_bounds_def cold_def by (elim conjE, intro conjI) simp_all
qed

context raft_storage_reads
begin

lemma open_meta_u64:
  "meta_u64 (content d) k x \<Longrightarrow> open_meta E d k get_u64 0 = Some (Inr x)"
  using get_present[of d k] get_missing[of d k]
  by (cases "content d k") (auto simp: open_meta_def meta_u64_def)

lemma open_meta_string:
  "meta_string (content d) k x \<Longrightarrow>
   open_meta E d k (\<lambda>v. Some (string_of_bytes v)) [] = Some (Inr x)"
  using get_present[of d k] get_missing[of d k]
  by (cases "content d k") (auto simp: open_meta_def meta_string_def)

lemma open_scan_inv:
  assumes inv: "inv pl"
    and it: "Engine_NewIterator E (plEngine pl) logPrefix (prefixUpperBound logPrefix) = Inr it"
  shows "open_scan it (lastIncludedIndex pl) = Some (lastIndex pl)"
proof (rule open_scan_max)
  note b = plog_bounds_base[OF plog_invD(1)[OF inv]]
  have walk: "(k, v) \<in> set it \<longleftrightarrow> disk pl k = Some v \<and> prefix logPrefix k" for k v
    using iterator_walks[OF it] by (simp add: iterates_def in_bounds_prefixUpperBound)
  show "\<exists>i. k = logKey i \<and> i \<le> lastIndex pl" if "(k, v) \<in> set it" for k v
    using that walk[of k v] plog_invD(3,4)[OF inv] logKey_of_prefixed[of k] by auto
  show "lastIncludedIndex pl \<le> lastIndex pl" using b by (simp add: word_le_nat_alt)
  show "lastIncludedIndex pl = lastIndex pl \<or> (\<exists>v. (logKey (lastIndex pl), v) \<in> set it)"
  proof (cases "lastIncludedIndex pl = lastIndex pl")
    case False
    then have "unat (lastIncludedIndex pl) < unat (lastIndex pl)"
      using b(3) by (auto simp: word_unat_eq_iff le_less)
    then have "firstIndex pl \<le> lastIndex pl" using b(2) by (simp add: word_le_nat_alt)
    then obtain e where "log_disk C (disk pl) (lastIndex pl) = Some e"
      using plog_invD(2)[OF inv, of "lastIndex pl"] by auto
    then show ?thesis by (auto simp: log_disk_def walk split: option.splits)
  qed simp
qed

lemma OpenPersistentLog_reopens:
  assumes inv: "inv pl"
  shows "OpenPersistentLog E (plEngine pl) = Some (Inr (cold pl))"
proof -
  obtain it where "Engine_NewIterator E (plEngine pl) logPrefix (prefixUpperBound logPrefix) = Inr it"
    using iterator_opens by blast
  moreover have "firstIndex pl = lastIncludedIndex pl + 1"
    using plog_invD(1)[OF inv] by (simp add: plog_bounds_def)
  ultimately show ?thesis
    using open_meta_u64[OF plog_invD(7)[OF inv]] open_meta_string[OF plog_invD(8)[OF inv]]
      open_meta_u64[OF plog_invD(9)[OF inv]] open_meta_u64[OF plog_invD(10)[OF inv]]
      open_scan_inv[OF inv]
    by (simp add: OpenPersistentLog_def cold_def)
qed

text \<open>The log of a new node.\<close>

lemma empty_inv:
  assumes "\<And>k. prefix logPrefix k \<or> k \<in> {keyTerm, keyVotedFor, keyLastIncludedIndex, keyLastIncludedTerm} \<Longrightarrow>
    content d k = None"
  shows "inv \<lparr>plEngine = d, firstIndex = 1, lastIndex = 0, lastIncludedIndex = 0,
    lastIncludedTerm = 0, currentTerm = 0, votedFor = [], tailCache = [], tailCacheLimit = 4096\<rparr>"
proof -
  have "content d (logKey i) = None" for i using assms[of "logKey i"] by simp
  moreover have "length k = 10" if "content d k \<noteq> None" "prefix logPrefix k" for k
    using assms[of k] that by simp
  moreover have "content d keyTerm = None" "content d keyVotedFor = None"
    "content d keyLastIncludedIndex = None" "content d keyLastIncludedTerm = None"
    by (rule assms, simp)+
  moreover have "\<not> (1 \<le> i \<and> i \<le> (0 :: u64))" for i by (auto simp: word_le_nat_alt)
  ultimately show ?thesis
    unfolding plog_inv_def by (simp add: plog_bounds_def meta_u64_def meta_string_def gomap_ok_def)
qed

end

end
