(* ===== verification/State_Machine.thy ===== *)
theory State_Machine
  imports Persistent_Log
begin

text \<open>
  \<^verbatim>\<open>internal/kv/state_machine.go\<close>: the replicated key-value store on a storage engine. Each method
  takes the engine's methods \<open>E\<close>; the mutex of the state machine makes each atomic. \<open>kv_content\<close> reads
  the abstract store, a partial map from keys to values, out of the stored pairs, and the lemmas
  show what each method does to it. The last section is about the sequence of operations the apply
  loop feeds to the store: replaying a log over the effect of any part of it gives the same store.
\<close>

section \<open>Keys\<close>

definition dataPrefix :: bytes where
  "dataPrefix = bytes_of_string ''d/''"

definition dataKey :: "string \<Rightarrow> bytes" where
  "dataKey key = dataPrefix @ bytes_of_string key"

text \<open>The package has its own copy of the function of \<^verbatim>\<open>log.go\<close>.\<close>

definition kv_prefixUpperBound :: "bytes \<Rightarrow> bytes option" where
  "kv_prefixUpperBound p = prefixUpperBound_loop p (length p)"

section \<open>StateMachine\<close>

record 'd state_machine =
  smEngine :: 'd
  smLastApplied :: u64

definition NewStateMachine :: "'d \<Rightarrow> 'd state_machine" where
  "NewStateMachine d = \<lparr>smEngine = d, smLastApplied = 0\<rparr>"

text \<open>\<open>Inr None\<close> is the result \<^verbatim>\<open>(nil, false, nil)\<close>: no such key.\<close>

definition SM_Get :: "'d engine \<Rightarrow> 'd state_machine \<Rightarrow> string \<Rightarrow> goerror + bytes option" where
  "SM_Get E s key =
     (case Engine_Get E (smEngine s) (dataKey key) of
        Inl err \<Rightarrow> if err = ErrNotFound then Inr None else Inl err
      | Inr v \<Rightarrow> Inr (Some v))"

definition ApplyPut ::
    "'d engine \<Rightarrow> 'd state_machine \<Rightarrow> u64 \<Rightarrow> string \<Rightarrow> bytes \<Rightarrow> 'd state_machine \<times> goerror option" where
  "ApplyPut E s index key v =
     (case Engine_Set E (smEngine s) (dataKey key) v \<lparr>Sync = False\<rparr> of
        (d, Some err) \<Rightarrow> (s\<lparr>smEngine := d\<rparr>, Some err)
      | (d, None) \<Rightarrow> (s\<lparr>smEngine := d, smLastApplied := index\<rparr>, None))"

definition ApplyDelete ::
    "'d engine \<Rightarrow> 'd state_machine \<Rightarrow> u64 \<Rightarrow> string \<Rightarrow> 'd state_machine \<times> goerror option" where
  "ApplyDelete E s index key =
     (case Engine_Delete E (smEngine s) (dataKey key) \<lparr>Sync = False\<rparr> of
        (d, Some err) \<Rightarrow> (s\<lparr>smEngine := d\<rparr>, Some err)
      | (d, None) \<Rightarrow> (s\<lparr>smEngine := d, smLastApplied := index\<rparr>, None))"

definition ApplyNoop :: "'d state_machine \<Rightarrow> u64 \<Rightarrow> 'd state_machine" where
  "ApplyNoop s index = s\<lparr>smLastApplied := index\<rparr>"

text \<open>
  The loop of \<^verbatim>\<open>Dump\<close> over the iterator. The slice \<^verbatim>\<open>it.Key()[len(dataPrefix):]\<close> panics on a shorter
  key: the result \<^const>\<open>None\<close>.
\<close>

fun dump_loop :: "kviter \<Rightarrow> (string, bytes) gomap \<Rightarrow> (string, bytes) gomap option" where
  "dump_loop [] pairs = Some pairs"
| "dump_loop ((k, v) # it) pairs =
     (if length k < length dataPrefix then None
      else dump_loop it (AList.update (string_of_bytes (drop (length dataPrefix) k)) v pairs))"

definition Dump :: "'d engine \<Rightarrow> 'd state_machine \<Rightarrow> (goerror + snapshot) option" where
  "Dump E s =
     (case Engine_NewIterator E (smEngine s) dataPrefix (kv_prefixUpperBound dataPrefix) of
        Inl err \<Rightarrow> Some (Inl err)
      | Inr it \<Rightarrow> map_option (\<lambda>pairs. Inr \<lparr>Pairs = pairs\<rparr>) (dump_loop it []))"

definition Restore ::
    "'d engine \<Rightarrow> 'd state_machine \<Rightarrow> snapshot \<Rightarrow> u64 \<Rightarrow> 'd state_machine \<times> goerror option" where
  "Restore E s snap appliedIndex =
     (case Engine_NewIterator E (smEngine s) dataPrefix (kv_prefixUpperBound dataPrefix) of
        Inl err \<Rightarrow> (s, Some err)
      | Inr it \<Rightarrow>
          let b = foldl (\<lambda>b (k, v). Batch_Delete b k) NewBatch it;
              b = foldl (\<lambda>b (k, v). Batch_Set b (dataKey k) v) b (Pairs snap)
          in (case Engine_Commit E (smEngine s) b \<lparr>Sync = True\<rparr> of
                (d, Some err) \<Rightarrow> (s\<lparr>smEngine := d\<rparr>, Some err)
              | (d, None) \<Rightarrow> (s\<lparr>smEngine := d, smLastApplied := appliedIndex\<rparr>, None)))"

section \<open>Serialising a snapshot\<close>

text \<open>\<^verbatim>\<open>fmt.Errorf\<close> with \<^verbatim>\<open>%w\<close> puts a text in front of the error: \<^const>\<open>ErrWrapped\<close>.\<close>

definition Marshal :: "codec \<Rightarrow> snapshot \<Rightarrow> goerror + bytes" where
  "Marshal C snap =
     (case encPairs C (Pairs snap) of
        Inl err \<Rightarrow> Inl (ErrWrapped ''marshal snapshot'' err)
      | Inr b \<Rightarrow> Inr b)"

definition UnmarshalSnapshot :: "codec \<Rightarrow> bytes \<Rightarrow> goerror + snapshot" where
  "UnmarshalSnapshot C data =
     (case decPairs C data of
        Inl err \<Rightarrow> Inl (ErrWrapped ''unmarshal snapshot'' err)
      | Inr pairs \<Rightarrow> Inr \<lparr>Pairs = pairs\<rparr>)"

section \<open>The abstract store\<close>

definition kv_content :: "(bytes \<rightharpoonup> bytes) \<Rightarrow> string \<rightharpoonup> bytes" where
  "kv_content m = (\<lambda>key. m (dataKey key))"

lemma length_dataPrefix [simp]: "length dataPrefix = 2"
  by (simp add: dataPrefix_def bytes_of_string_def)

lemma dataKey_inj [simp]: "dataKey a = dataKey b \<longleftrightarrow> a = b"
  by (simp add: dataKey_def)

lemma prefix_dataKey [simp]: "prefix dataPrefix (dataKey key)"
  by (simp add: dataKey_def)

lemma dataKey_of_prefixed:
  "prefix dataPrefix k \<Longrightarrow> \<exists>key. k = dataKey key \<and> string_of_bytes (drop (length dataPrefix) k) = key"
  by (auto simp: prefix_def dataKey_def)

text \<open>No key of the store is a key of the log: the two may share an engine.\<close>

lemma dataKey_not_log [simp]:
  "dataKey key \<noteq> logKey i" "dataKey key \<noteq> keyTerm" "dataKey key \<noteq> keyVotedFor"
  "dataKey key \<noteq> keyLastIncludedIndex" "dataKey key \<noteq> keyLastIncludedTerm"
  by (simp_all add: dataKey_def dataPrefix_def logKey_def logPrefix_def keyTerm_def keyVotedFor_def
      keyLastIncludedIndex_def keyLastIncludedTerm_def bytes_of_string_def)

lemma kv_content_set [simp]: "kv_content (m(dataKey key := v)) = (kv_content m)(key := v)"
  by (auto simp: kv_content_def)

lemma in_bounds_data [simp]:
  "in_bounds dataPrefix (kv_prefixUpperBound dataPrefix) k \<longleftrightarrow> prefix dataPrefix k"
  using in_bounds_prefixUpperBound[of dataPrefix k]
  by (simp add: kv_prefixUpperBound_def prefixUpperBound_def)

lemma dump_loop_pairs:
  assumes "\<And>k v. (k, v) \<in> set it \<Longrightarrow> prefix dataPrefix k" and "distinct (map fst it)"
    and "gomap_ok ps"
  shows "\<exists>ps'. dump_loop it ps = Some ps' \<and> gomap_ok ps' \<and>
    (\<forall>key. map_of ps' key = (case map_of it (dataKey key) of Some v \<Rightarrow> Some v | None \<Rightarrow> map_of ps key))"
  using assms
proof (induction it arbitrary: ps)
  case (Cons p it)
  obtain k v where p: "p = (k, v)" by (cases p)
  then obtain key where k: "k = dataKey key" and key: "string_of_bytes (drop (length dataPrefix) k) = key"
    using Cons.prems(1)[of k v] dataKey_of_prefixed[of k] by auto
  have new: "map_of it (dataKey key) = None"
    using Cons.prems(2) p k by (simp add: map_of_eq_None_iff)
  have len: "\<not> length k < length dataPrefix" by (simp add: k dataKey_def)
  obtain ps' where "dump_loop it (AList.update key v ps) = Some ps'" "gomap_ok ps'"
    "\<forall>key'. map_of ps' key' = (case map_of it (dataKey key') of Some v \<Rightarrow> Some v
       | None \<Rightarrow> map_of (AList.update key v ps) key')"
    using Cons.IH[of "AList.update key v ps"] Cons.prems by auto
  then show ?case
    using new len key by (auto simp: p k update_conv' split: option.splits)
qed simp

lemma foldl_Batch_Delete:
  "foldl (\<lambda>b (k, v). Batch_Delete b k) b it = b @ map (\<lambda>(k, v). BatchDelete k) it"
  by (induction it arbitrary: b) (auto simp: Batch_Delete_def)

lemma foldl_Batch_Set:
  "apply_batch m (foldl (\<lambda>b (k, v). Batch_Set b (dataKey k) v) b ps)
     = foldl (\<lambda>m (k, v). m(dataKey k \<mapsto> v)) (apply_batch m b) ps"
  by (induction ps arbitrary: b) auto

lemma map_of_data: "map_of (map (\<lambda>(k, v). (dataKey k, v)) ps) (dataKey key) = map_of ps key"
  by (induction ps) auto

lemma foldl_data_sets:
  "gomap_ok ps \<Longrightarrow> foldl (\<lambda>m (k, v). m(dataKey k \<mapsto> v)) m ps k =
     (case map_of (map (\<lambda>(k, v). (dataKey k, v)) ps) k of Some v \<Rightarrow> Some v | None \<Rightarrow> m k)"
proof (induction ps arbitrary: m)
  case (Cons p ps)
  have "map_of (map (\<lambda>(k, v). (dataKey k, v)) ps) (dataKey (fst p)) = None"
    using Cons.prems by (simp add: gomap_ok_def map_of_data map_of_eq_None_iff)
  then show ?case using Cons by (cases p) (auto simp: gomap_ok_def split: option.splits)
qed simp

context engine_contract
begin

lemma SM_Get_sound: "SM_Get E s key = Inr r \<Longrightarrow> kv_content (content (smEngine s)) key = r"
  by (auto simp: SM_Get_def kv_content_def split: sum.splits if_splits dest: get_value get_absent)

lemma ApplyPut_done:
  "ApplyPut E s i key v = (s', None) \<Longrightarrow>
     content (smEngine s') = (content (smEngine s))(dataKey key \<mapsto> v) \<and> smLastApplied s' = i"
  by (auto simp: ApplyPut_def split: prod.splits option.splits dest: set_done)

lemma ApplyPut_failed:
  "ApplyPut E s i key v = (s', Some err) \<Longrightarrow>
     content (smEngine s') = content (smEngine s) \<and> smLastApplied s' = smLastApplied s"
  by (auto simp: ApplyPut_def split: prod.splits option.splits dest: set_failed)

lemma ApplyDelete_done:
  "ApplyDelete E s i key = (s', None) \<Longrightarrow>
     content (smEngine s') = (content (smEngine s))(dataKey key := None) \<and> smLastApplied s' = i"
  by (auto simp: ApplyDelete_def split: prod.splits option.splits dest: delete_done)

lemma ApplyDelete_failed:
  "ApplyDelete E s i key = (s', Some err) \<Longrightarrow>
     content (smEngine s') = content (smEngine s) \<and> smLastApplied s' = smLastApplied s"
  by (auto simp: ApplyDelete_def split: prod.splits option.splits dest: delete_failed)

lemma data_walk:
  assumes "Engine_NewIterator E d dataPrefix (kv_prefixUpperBound dataPrefix) = Inr it"
  shows "(k, v) \<in> set it \<longleftrightarrow> content d k = Some v \<and> prefix dataPrefix k" and "distinct (map fst it)"
    and "map_of it (dataKey key) = kv_content (content d) key"
proof -
  have it: "iterates (content d) dataPrefix (kv_prefixUpperBound dataPrefix) it"
    using iterator_walks[OF assms] .
  then show walk: "(k, v) \<in> set it \<longleftrightarrow> content d k = Some v \<and> prefix dataPrefix k" for k v
    by (simp add: iterates_def)
  show dis: "distinct (map fst it)" using it by (simp add: iterates_def strict_sorted_iff)
  have "map_of it (dataKey key) = Some v \<longleftrightarrow> content d (dataKey key) = Some v" for v
    using map_of_eq_Some_iff[OF dis] walk by simp
  then show "map_of it (dataKey key) = kv_content (content d) key"
    unfolding kv_content_def by (metis option.exhaust)
qed

lemma Dump_spec:
  "\<exists>r. Dump E s = Some r \<and>
     (\<forall>snap. r = Inr snap \<longrightarrow> gomap_ok (Pairs snap) \<and> map_of (Pairs snap) = kv_content (content (smEngine s)))"
proof (cases "Engine_NewIterator E (smEngine s) dataPrefix (kv_prefixUpperBound dataPrefix)")
  case (Inr it)
  note w = data_walk[OF Inr]
  obtain ps where ps: "dump_loop it [] = Some ps" "gomap_ok ps"
    and lk: "\<And>key. map_of ps key = (case map_of it (dataKey key) of Some v \<Rightarrow> Some v
       | None \<Rightarrow> map_of [] key)"
    using dump_loop_pairs[of it "[]"] w(1,2) by auto
  have "map_of ps = kv_content (content (smEngine s))"
    by (auto simp: lk w(3) split: option.splits)
  then show ?thesis using Inr ps by (auto simp: Dump_def)
qed (simp add: Dump_def)

lemma Restore_done:
  assumes ok: "gomap_ok (Pairs snap)" and ret: "Restore E s snap i = (s', None)"
  shows "kv_content (content (smEngine s')) = map_of (Pairs snap)" and "smLastApplied s' = i"
    and "\<not> prefix dataPrefix k \<Longrightarrow> content (smEngine s') k = content (smEngine s) k"
proof -
  let ?set = "map_of (map (\<lambda>(k, v). (dataKey k, v)) (Pairs snap))"
  obtain it d where it: "Engine_NewIterator E (smEngine s) dataPrefix (kv_prefixUpperBound dataPrefix) = Inr it"
    and cm: "Engine_Commit E (smEngine s) (foldl (\<lambda>b (k, v). Batch_Set b (dataKey k) v)
        (foldl (\<lambda>b (k, v). Batch_Delete b k) NewBatch it) (Pairs snap)) \<lparr>Sync = True\<rparr> = (d, None)"
    and s': "s' = s\<lparr>smEngine := d, smLastApplied := i\<rparr>"
    using ret by (auto simp: Restore_def Let_def split: sum.splits prod.splits option.splits)
  note w = data_walk[OF it]
  have dels: "map (\<lambda>(k, v). BatchDelete k) it = map BatchDelete (map fst it)" by auto
  have "content d = foldl (\<lambda>m (k, v). m(dataKey k \<mapsto> v))
      (apply_batch (content (smEngine s)) (map BatchDelete (map fst it))) (Pairs snap)"
    using commit_done[OF cm] by (simp only: foldl_Batch_Set foldl_Batch_Delete apply_batch_append
        apply_batch_NewBatch dels)
  then have c: "content d k = (case ?set k of Some v \<Rightarrow> Some v
      | None \<Rightarrow> if k \<in> fst ` set it then None else content (smEngine s) k)" for k
    by (simp only: foldl_data_sets[OF ok] apply_batch_deletes set_map)
  have gone: "(if k \<in> fst ` set it then None else content (smEngine s) k)
      = (if prefix dataPrefix k then None else content (smEngine s) k)" for k
    using w(1) by (cases "content (smEngine s) k") (force simp: image_iff)+
  have c': "content d k = (case ?set k of Some v \<Rightarrow> Some v
      | None \<Rightarrow> if prefix dataPrefix k then None else content (smEngine s) k)" for k
    by (simp only: c gone)
  show "kv_content (content (smEngine s')) = map_of (Pairs snap)"
    by (rule ext) (simp add: kv_content_def s' c' map_of_data split: option.splits)
  show "smLastApplied s' = i" by (simp add: s')
  assume k: "\<not> prefix dataPrefix k"
  then have "?set k = None" by (auto simp: map_of_eq_None_iff)
  then show "content (smEngine s') k = content (smEngine s) k" using k by (simp add: s' c')
qed

lemma Restore_failed:
  "Restore E s snap i = (s', Some err) \<Longrightarrow>
     content (smEngine s') = content (smEngine s) \<and> smLastApplied s' = smLastApplied s"
  by (auto simp: Restore_def Let_def split: sum.splits prod.splits option.splits dest: commit_failed)

end

context codec_contract
begin

lemma Marshal_round_trip:
  assumes "gomap_ok (Pairs snap)" and "Marshal C snap = Inr b"
  shows "\<exists>snap'. UnmarshalSnapshot C b = Inr snap' \<and> gomap_ok (Pairs snap') \<and>
    map_of (Pairs snap') = map_of (Pairs snap)"
  using assms pairs_round_trip[of "Pairs snap" b]
  by (auto simp: Marshal_def UnmarshalSnapshot_def split: sum.splits)

lemma UnmarshalSnapshot_ok: "UnmarshalSnapshot C b = Inr snap \<Longrightarrow> gomap_ok (Pairs snap)"
  by (auto simp: UnmarshalSnapshot_def split: sum.splits dest: decoded_pairs_ok)

end

section \<open>Sequences of committed operations\<close>

text \<open>What one committed entry does to the abstract store; an unknown type does nothing.\<close>

definition kv_apply :: "entry \<Rightarrow> (string \<rightharpoonup> bytes) \<Rightarrow> string \<rightharpoonup> bytes" where
  "kv_apply e kv =
     (if eType e = EntryPut then kv(eKey e \<mapsto> eValue e)
      else if eType e = EntryDelete then kv(eKey e := None) else kv)"

definition kv_replay :: "entry list \<Rightarrow> (string \<rightharpoonup> bytes) \<Rightarrow> string \<rightharpoonup> bytes" where
  "kv_replay es kv = fold kv_apply es kv"

lemma kv_replay_Nil [simp]: "kv_replay [] kv = kv"
  by (simp add: kv_replay_def)

lemma kv_replay_append [simp]: "kv_replay (es @ fs) kv = kv_replay fs (kv_replay es kv)"
  by (simp add: kv_replay_def)

lemma kv_replay_Cons [simp]: "kv_replay (e # es) kv = kv_replay es (kv_apply e kv)"
  by (simp add: kv_replay_def)

text \<open>The entries that write a key.\<close>

definition writes :: "string \<Rightarrow> entry \<Rightarrow> bool" where
  "writes key e = (eKey e = key \<and> (eType e = EntryPut \<or> eType e = EntryDelete))"

lemma kv_replay_unwritten:
  "(\<And>e. e \<in> set es \<Longrightarrow> \<not> writes key e) \<Longrightarrow> kv_replay es kv key = kv key"
  by (induction es arbitrary: kv) (auto simp: kv_apply_def writes_def)

lemma kv_replay_written:
  "(\<exists>e \<in> set es. writes key e) \<Longrightarrow> kv_replay es kv key = kv_replay es kv' key"
proof (induction es rule: rev_induct)
  case (snoc e es)
  show ?case
  proof (cases "writes key e")
    case True
    then show ?thesis by (auto simp: kv_apply_def writes_def)
  next
    case False
    then have "kv_replay es kv key = kv_replay es kv' key" using snoc by auto
    then show ?thesis by (simp add: kv_apply_def)
  qed
qed simp

lemma kv_replay_again: "set fs \<subseteq> set es \<Longrightarrow> kv_replay es (kv_replay fs kv) = kv_replay es kv"
proof
  fix key
  assume sub: "set fs \<subseteq> set es"
  show "kv_replay es (kv_replay fs kv) key = kv_replay es kv key"
  proof (cases "\<exists>e \<in> set es. writes key e")
    case True
    then show ?thesis by (rule kv_replay_written)
  next
    case False
    then show ?thesis using sub by (metis kv_replay_unwritten subsetD)
  qed
qed

end
