(* ===== verification/Gob.thy ===== *)
theory Gob
  imports State_Machine
begin

text \<open>
  The instance of the parameter \<open>codec\<close>: the bytes that \<^verbatim>\<open>encoding/gob\<close> writes for an \<^verbatim>\<open>Entry\<close> and for
  a \<^verbatim>\<open>map[string][]byte\<close> with a fresh encoder (the type's description, then the value), and that
  \<^verbatim>\<open>encoding/json\<close> writes for a \<^verbatim>\<open>SnapshotMeta\<close>. The decoders accept what the encoders write.
  The interpretation at the end discharges the contract, so every property that has an encoding as
  a parameter holds of the program with these encodings.
\<close>

section \<open>Gob's integers, strings and structures\<close>

text \<open>
  A number below 128 is one byte; another is the negated count of its bytes, then the bytes, most
  significant first, without leading zeros.
\<close>

definition gob_uint :: "nat \<Rightarrow> bytes" where
  "gob_uint n =
     (if n < 128 then [of_nat n]
      else let bs = dropWhile (\<lambda>b. b = 0) (put_u64 (of_nat n)) in (- of_nat (length bs)) # bs)"

definition gob_dec_uint :: "bytes \<Rightarrow> (nat \<times> bytes) option" where
  "gob_dec_uint bs =
     (case bs of [] \<Rightarrow> None
      | b # bs \<Rightarrow>
          if unat b < 128 then Some (unat b, bs)
          else let n = unat (- b) in
            if n > 8 \<or> length bs < n then None
            else (case get_u64 (replicate (8 - n) 0 @ take n bs) of None \<Rightarrow> None
                  | Some x \<Rightarrow> Some (unat x, drop n bs)))"

text \<open>The sign of an integer is its lowest bit.\<close>

definition gob_int :: "int \<Rightarrow> bytes" where
  "gob_int i = gob_uint (nat (if i \<ge> 0 then 2 * i else 2 * (- i - 1) + 1))"

definition gob_dec_int :: "bytes \<Rightarrow> (int \<times> bytes) option" where
  "gob_dec_int bs =
     (case gob_dec_uint bs of None \<Rightarrow> None
      | Some (n, bs) \<Rightarrow> Some (if even n then int (n div 2) else - int (n div 2) - 1, bs))"

definition gob_bytes :: "bytes \<Rightarrow> bytes" where
  "gob_bytes b = gob_uint (length b) @ b"

definition gob_dec_bytes :: "bytes \<Rightarrow> (bytes \<times> bytes) option" where
  "gob_dec_bytes bs =
     (case gob_dec_uint bs of None \<Rightarrow> None
      | Some (n, bs) \<Rightarrow> if length bs < n then None else Some (take n bs, drop n bs))"

text \<open>
  A structure is its non-zero fields, each after the distance from the previous one, and a zero.
  The decoder holds the distance to the next field that is present, 0 when there is none.
\<close>

fun gob_fields :: "nat \<Rightarrow> bytes option list \<Rightarrow> bytes" where
  "gob_fields k [] = gob_uint 0"
| "gob_fields k (None # fs) = gob_fields (k + 1) fs"
| "gob_fields k (Some b # fs) = gob_uint k @ b @ gob_fields 1 fs"

definition gob_dec_field ::
    "(bytes \<Rightarrow> ('a \<times> bytes) option) \<Rightarrow> 'a \<Rightarrow> nat \<times> bytes \<Rightarrow> ('a \<times> nat \<times> bytes) option" where
  "gob_dec_field p zero = (\<lambda>(d, bs).
     if d = 1
     then (case p bs of None \<Rightarrow> None
           | Some (x, bs) \<Rightarrow> (case gob_dec_uint bs of None \<Rightarrow> None
               | Some (d, bs) \<Rightarrow> Some (x, d, bs)))
     else Some (zero, d - 1, bs))"

text \<open>A message is its length and its bytes; the encoder refuses one of 8 GiB.\<close>

definition gob_message :: "bytes \<Rightarrow> goerror + bytes" where
  "gob_message b =
     (if int (length b) \<ge> 8589934592 then Inl (ErrOther ''gob: encoder: message too big'')
      else Inr (gob_uint (length b) @ b))"

section \<open>Entry\<close>

text \<open>The description of the type: its name, its number, and the name and type of each field.\<close>

definition gob_field_type :: "string \<times> int \<Rightarrow> bytes" where
  "gob_field_type = (\<lambda>(name, id).
     gob_fields 1 [Some (gob_bytes (bytes_of_string name)), Some (gob_int id)])"

definition gob_entry_type :: bytes where
  "gob_entry_type =
     gob_int (- 65) @
     gob_fields 1 [None, None, Some (gob_fields 1
       [Some (gob_fields 1 [Some (gob_bytes (bytes_of_string ''Entry'')), Some (gob_int 65)]),
        Some (gob_uint 6 @ concat (map gob_field_type
          [(''Index'', 3), (''Term'', 3), (''Type'', 2), (''Key'', 6), (''Value'', 5),
           (''ClientRequestID'', 6)]))])]"

definition gob_nonzero :: "bool \<Rightarrow> bytes \<Rightarrow> bytes option" where
  "gob_nonzero zero b = (if zero then None else Some b)"

definition gob_entry_fields :: "entry \<Rightarrow> bytes option list" where
  "gob_entry_fields e =
     [gob_nonzero (eIndex e = 0) (gob_uint (unat (eIndex e))),
      gob_nonzero (eTerm e = 0) (gob_uint (unat (eTerm e))),
      gob_nonzero (eType e = 0) (gob_int (sint (eType e))),
      gob_nonzero (eKey e = []) (gob_bytes (bytes_of_string (eKey e))),
      gob_nonzero (eValue e = []) (gob_bytes (eValue e)),
      gob_nonzero (eClientRequestID e = []) (gob_bytes (bytes_of_string (eClientRequestID e)))]"

definition gob_encEntry :: "entry \<Rightarrow> goerror + bytes" where
  "gob_encEntry e =
     (case gob_message (gob_int 65 @ gob_fields 1 (gob_entry_fields e)) of
        Inl err \<Rightarrow> Inl err
      | Inr b \<Rightarrow> Inr (gob_uint (length gob_entry_type) @ gob_entry_type @ b))"

text \<open>A decoder that expects some bytes and the two headers of the stream.\<close>

definition gob_expect :: "bytes \<Rightarrow> bytes \<Rightarrow> bytes option" where
  "gob_expect p bs = (if prefix p bs then Some (drop (length p) bs) else None)"

definition gob_dec_header :: "bytes \<Rightarrow> int \<Rightarrow> bytes \<Rightarrow> bytes option" where
  "gob_dec_header desc tid bs =
     Option.bind (gob_expect (gob_uint (length desc) @ desc) bs) (\<lambda>bs.
     Option.bind (gob_dec_bytes bs) (\<lambda>(body, rest).
     gob_expect (gob_int tid) body))"

definition gob_dec_u64 :: "bytes \<Rightarrow> (u64 \<times> bytes) option" where
  "gob_dec_u64 bs = map_option (\<lambda>(n, bs). (of_nat n, bs)) (gob_dec_uint bs)"

definition gob_dec_int32 :: "bytes \<Rightarrow> (32 word \<times> bytes) option" where
  "gob_dec_int32 bs =
     (case gob_dec_int bs of None \<Rightarrow> None
      | Some (i, bs) \<Rightarrow> if - 2147483648 \<le> i \<and> i < 2147483648 then Some (of_int i, bs) else None)"

definition gob_dec_string :: "bytes \<Rightarrow> (string \<times> bytes) option" where
  "gob_dec_string bs = map_option (\<lambda>(b, bs). (string_of_bytes b, bs)) (gob_dec_bytes bs)"

definition gob_dec_entry_fields :: "nat \<times> bytes \<Rightarrow> entry option" where
  "gob_dec_entry_fields s =
     Option.bind (gob_dec_field gob_dec_u64 0 s) (\<lambda>(index, s).
     Option.bind (gob_dec_field gob_dec_u64 0 s) (\<lambda>(term, s).
     Option.bind (gob_dec_field gob_dec_int32 0 s) (\<lambda>(type, s).
     Option.bind (gob_dec_field gob_dec_string [] s) (\<lambda>(key, s).
     Option.bind (gob_dec_field gob_dec_bytes [] s) (\<lambda>(v, s).
     Option.bind (gob_dec_field gob_dec_string [] s) (\<lambda>(req, d, bs).
     if d = 0 then Some \<lparr>eIndex = index, eTerm = term, eType = type, eKey = key, eValue = v,
        eClientRequestID = req\<rparr> else None))))))"

definition gob_decEntry :: "bytes \<Rightarrow> goerror + entry" where
  "gob_decEntry bs =
     (case Option.bind (gob_dec_header gob_entry_type 65 bs) (\<lambda>bs.
           Option.bind (gob_dec_uint bs) gob_dec_entry_fields) of
        None \<Rightarrow> Inl (ErrOther ''gob: cannot decode'')
      | Some e \<Rightarrow> Inr e)"

section \<open>The pairs of a snapshot\<close>

definition gob_pairs_type :: bytes where
  "gob_pairs_type =
     gob_int (- 66) @
     gob_fields 1 [None, None, None, Some (gob_fields 1
       [Some (gob_fields 1 [None, Some (gob_int 66)]), Some (gob_int 6), Some (gob_int 5)])]"

definition gob_pair :: "string \<times> bytes \<Rightarrow> bytes" where
  "gob_pair = (\<lambda>(k, v). gob_bytes (bytes_of_string k) @ gob_bytes v)"

definition gob_encPairs :: "(string, bytes) gomap \<Rightarrow> goerror + bytes" where
  "gob_encPairs ps =
     (case gob_message (gob_int 66 @ [0] @ gob_uint (length ps) @ concat (map gob_pair ps)) of
        Inl err \<Rightarrow> Inl err
      | Inr b \<Rightarrow> Inr (gob_uint (length gob_pairs_type) @ gob_pairs_type @ b))"

fun gob_dec_pairs :: "nat \<Rightarrow> bytes \<Rightarrow> (string, bytes) gomap \<Rightarrow> (string, bytes) gomap option" where
  "gob_dec_pairs 0 bs ps = Some ps"
| "gob_dec_pairs (Suc n) bs ps =
     (case gob_dec_string bs of None \<Rightarrow> None
      | Some (k, bs) \<Rightarrow> (case gob_dec_bytes bs of None \<Rightarrow> None
          | Some (v, bs) \<Rightarrow> gob_dec_pairs n bs (AList.update k v ps)))"

definition gob_decPairs :: "bytes \<Rightarrow> goerror + (string, bytes) gomap" where
  "gob_decPairs bs =
     (case Option.bind (gob_dec_header gob_pairs_type 66 bs) (\<lambda>bs.
           Option.bind (gob_expect [0] bs) (\<lambda>bs.
           Option.bind (gob_dec_uint bs) (\<lambda>(n, bs). gob_dec_pairs n bs []))) of
        None \<Rightarrow> Inl (ErrOther ''gob: cannot decode'')
      | Some ps \<Rightarrow> Inr ps)"

section \<open>JSON of SnapshotMeta\<close>

fun json_digits :: "nat \<Rightarrow> string" where
  "json_digits n =
     (if n < 10 then [char_of (48 + n)] else json_digits (n div 10) @ [char_of (48 + n mod 10)])"

declare json_digits.simps [simp del]

definition is_digit :: "char \<Rightarrow> bool" where
  "is_digit c = (48 \<le> (of_char c :: nat) \<and> (of_char c :: nat) \<le> 57)"

definition json_number :: "string \<Rightarrow> nat" where
  "json_number s = foldl (\<lambda>a c. a * 10 + (of_char c - 48)) 0 s"

definition json_encMeta :: "snapshot_meta \<Rightarrow> goerror + bytes" where
  "json_encMeta m =
     Inr (bytes_of_string
       (''{\"last_included_index\":'' @ json_digits (unat (smLastIncludedIndex m)) @
        '',\"last_included_term\":'' @ json_digits (unat (smLastIncludedTerm m)) @ ''}''))"

definition json_expect :: "string \<Rightarrow> string \<Rightarrow> string option" where
  "json_expect p s = (if prefix p s then Some (drop (length p) s) else None)"

definition json_dec_u64 :: "string \<Rightarrow> (u64 \<times> string) option" where
  "json_dec_u64 s =
     (let n = json_number (takeWhile is_digit s) in
      if takeWhile is_digit s = [] \<or> int n \<ge> 2 ^ 64 then None
      else Some (of_nat n, dropWhile is_digit s))"

definition json_decMeta :: "bytes \<Rightarrow> goerror + snapshot_meta" where
  "json_decMeta bs =
     (case
       Option.bind (json_expect ''{\"last_included_index\":'' (string_of_bytes bs)) (\<lambda>s.
       Option.bind (json_dec_u64 s) (\<lambda>(i, s).
       Option.bind (json_expect '',\"last_included_term\":'' s) (\<lambda>s.
       Option.bind (json_dec_u64 s) (\<lambda>(t, s).
       if s = ''}'' then Some \<lparr>smLastIncludedIndex = i, smLastIncludedTerm = t\<rparr> else None)))) of
        None \<Rightarrow> Inl (ErrOther ''json: cannot unmarshal'')
      | Some m \<Rightarrow> Inr m)"

definition gob_codec :: codec where
  "gob_codec =
     \<lparr>encEntry = gob_encEntry, decEntry = gob_decEntry, encPairs = gob_encPairs,
      decPairs = gob_decPairs, encMeta = json_encMeta, decMeta = json_decMeta\<rparr>"

section \<open>Round trips\<close>

lemma strip_zeros: "replicate (length bs - length (dropWhile (\<lambda>b. b = 0) bs)) 0 @ dropWhile (\<lambda>b. b = 0) bs = bs"
proof -
  have "takeWhile (\<lambda>b. b = 0) bs = replicate (length (takeWhile (\<lambda>b. b = 0) bs)) 0"
    by (induction bs) auto
  moreover have "length bs - length (dropWhile (\<lambda>b. b = 0) bs) = length (takeWhile (\<lambda>b. b = 0) bs)"
    by (metis add_diff_cancel_right' length_append takeWhile_dropWhile_id)
  ultimately show ?thesis by (metis takeWhile_dropWhile_id)
qed

lemma put_u64_0: "put_u64 0 = replicate 8 0"
  by (simp add: put_u64_def numeral_eq_Suc)

lemma unat_neg_byte: "0 < l \<Longrightarrow> l \<le> 8 \<Longrightarrow> unat (- (of_nat l :: byte)) = 256 - l"
proof -
  assume l: "0 < l" "l \<le> 8"
  then have "- (of_nat l :: byte) = of_nat (256 - l)" by (simp add: of_nat_diff)
  then show ?thesis using l by (simp only: unat_of_nat) simp
qed

lemma gob_dec_uint_round_trip [simp]:
  assumes "n < 2 ^ 64"
  shows "gob_dec_uint (gob_uint n @ r) = Some (n, r)"
proof (cases "n < 128")
  case True
  then have "unat (of_nat n :: byte) = n" by (simp add: unat_of_nat)
  then show ?thesis using True by (simp add: gob_uint_def gob_dec_uint_def)
next
  case False
  let ?bs = "dropWhile (\<lambda>b. b = 0) (put_u64 (of_nat n))"
  let ?l = "length ?bs"
  have le: "?l \<le> 8" using length_dropWhile_le[of "\<lambda>b. b = 0" "put_u64 (of_nat n)"] by simp
  have n: "unat (of_nat n :: u64) = n" using assms by (simp add: unat_of_nat)
  then have "(of_nat n :: u64) \<noteq> 0" using False by auto
  then have "put_u64 (of_nat n) \<noteq> put_u64 0" by simp
  then have "?bs \<noteq> []"
    using strip_zeros[of "put_u64 (of_nat n)"] put_u64_0
    by (metis append_Nil2 diff_zero length_put_u64 list.size(3))
  then have l: "0 < ?l" by simp
  have whole: "replicate (8 - ?l) 0 @ ?bs = put_u64 (of_nat n)"
    using strip_zeros[of "put_u64 (of_nat n)"] by simp
  have u: "unat (of_nat ?l :: byte) = ?l" using le by (simp add: unat_of_nat)
  have big: "\<not> unat (- (of_nat ?l :: byte)) < 128" using unat_neg_byte[OF l le] le by simp
  show ?thesis using False big u le whole n
    by (simp add: gob_uint_def gob_dec_uint_def Let_def)
qed

lemma gob_uint_small [simp]: "n < 128 \<Longrightarrow> gob_uint n = [of_nat n]"
  by (simp add: gob_uint_def)

lemma gob_dec_int_round_trip [simp]:
  assumes "- (2 ^ 62) < i" and "i < 2 ^ 62"
  shows "gob_dec_int (gob_int i @ r) = Some (i, r)"
proof (cases "i \<ge> 0")
  case True
  then have "nat (2 * i) < 2 ^ 64" using assms by simp
  moreover have "nat (2 * i) = 2 * nat i" using True by simp
  ultimately show ?thesis using True by (simp add: gob_int_def gob_dec_int_def)
next
  case False
  obtain j where j: "i = - int j - 1" using False that[of "nat (- i - 1)"] by simp
  have "nat (2 * (- i - 1) + 1) = 2 * j + 1" by (simp add: j)
  moreover have "2 * j + 1 < 2 ^ 64" using assms(1) by (simp add: j)
  then have "gob_dec_uint (gob_uint (2 * j + 1) @ r) = Some (2 * j + 1, r)"
    by (rule gob_dec_uint_round_trip)
  ultimately show ?thesis using False by (simp only: gob_int_def gob_dec_int_def if_False) (simp add: j)
qed

lemma gob_dec_bytes_round_trip [simp]:
  "length b < 2 ^ 64 \<Longrightarrow> gob_dec_bytes (gob_bytes b @ r) = Some (b, r)"
  by (simp add: gob_bytes_def gob_dec_bytes_def)

lemma gob_expect_append [simp]: "gob_expect p (p @ r) = Some r"
  by (simp add: gob_expect_def)

text \<open>The decoder's view of the fields that are still to come.\<close>

fun gob_pending :: "bytes option list \<Rightarrow> bytes \<Rightarrow> nat \<times> bytes" where
  "gob_pending [] r = (0, r)"
| "gob_pending (None # fs) r =
     (let (d, bs) = gob_pending fs r in (if d = 0 then 0 else d + 1, bs))"
| "gob_pending (Some b # fs) r = (1, b @ gob_fields 1 fs @ r)"

lemma gob_pending_next:
  "0 < k \<Longrightarrow> k + length fs < 128 \<Longrightarrow>
   gob_dec_uint (gob_fields k fs @ r) =
     Some (let (d, bs) = gob_pending fs r in (if d = 0 then 0 else d + k - 1, bs))"
proof (induction fs arbitrary: k)
  case Nil
  have "gob_dec_uint (gob_uint 0 @ r) = Some (0, r)" by (rule gob_dec_uint_round_trip) simp
  then show ?case by simp
next
  case (Cons f fs)
  show ?case
  proof (cases f)
    case None
    then show ?thesis using Cons by (simp split: prod.splits)
  next
    case (Some b)
    have "gob_dec_uint (gob_uint k @ b @ gob_fields 1 fs @ r) = Some (k, b @ gob_fields 1 fs @ r)"
      using Cons.prems by (intro gob_dec_uint_round_trip) simp
    then show ?thesis using Some Cons.prems by simp
  qed
qed

lemma gob_dec_field_absent:
  "gob_dec_field p z (gob_pending (None # fs) r) = Some (z, gob_pending fs r)"
  by (auto simp: gob_dec_field_def split: prod.splits)

lemma gob_dec_field_present:
  assumes "\<And>r. p (b @ r) = Some (x, r)" and "length fs < 127"
  shows "gob_dec_field p z (gob_pending (Some b # fs) r) = Some (x, gob_pending fs r)"
  using assms gob_pending_next[of 1 fs r] by (auto simp: gob_dec_field_def split: prod.splits)

lemma gob_dec_field_nonzero:
  assumes "zero \<longleftrightarrow> x = z" and "\<And>r. x \<noteq> z \<Longrightarrow> p (b @ r) = Some (x, r)" and "length fs < 127"
  shows "gob_dec_field p z (gob_pending (gob_nonzero zero b # fs) r) = Some (x, gob_pending fs r)"
  using assms gob_dec_field_absent gob_dec_field_present[of p b x fs z r]
  by (cases "x = z") (simp_all add: gob_nonzero_def)

lemma gob_dec_u64_round_trip [simp]: "gob_dec_u64 (gob_uint (unat x) @ r) = Some (x, r)"
  using gob_dec_uint_round_trip[OF u64_max] by (simp add: gob_dec_u64_def)

lemma length_bytes_of_string [simp]: "length (bytes_of_string s) = length s"
  by (simp add: bytes_of_string_def)

lemma bytes_of_string_Nil [simp]: "bytes_of_string s = [] \<longleftrightarrow> s = []"
  by (simp add: bytes_of_string_def)

lemma gob_dec_string_round_trip [simp]:
  "length s < 2 ^ 64 \<Longrightarrow> gob_dec_string (gob_bytes (bytes_of_string s) @ r) = Some (s, r)"
  by (simp add: gob_dec_string_def)

lemma gob_dec_int32_round_trip [simp]: "gob_dec_int32 (gob_int (sint x) @ r) = Some (x, r)"
proof -
  have "- (2 ^ 31) \<le> sint x" "sint x < 2 ^ 31"
    using sint_greater_eq[of x] sint_lt[of x] by simp_all
  then show ?thesis by (simp add: gob_dec_int32_def)
qed

lemma gob_entry_round_trip:
  assumes len: "length (eKey e) < 2 ^ 64" "length (eValue e) < 2 ^ 64" "length (eClientRequestID e) < 2 ^ 64"
  shows "Option.bind (gob_dec_uint (gob_fields 1 (gob_entry_fields e) @ r)) gob_dec_entry_fields = Some e"
proof -
  let ?fs = "gob_entry_fields e"
  have "gob_dec_uint (gob_fields 1 ?fs @ r) = Some (gob_pending ?fs r)"
    using gob_pending_next[of 1 ?fs r] by (simp add: gob_entry_fields_def Let_def split: prod.splits)
  then show ?thesis
    using len
    by (simp add: gob_dec_entry_fields_def gob_entry_fields_def gob_dec_field_nonzero del: gob_pending.simps(2,3))
qed

lemma gob_stream:
  assumes "gob_message body = Inr b"
  shows "gob_dec_header desc tid (gob_uint (length desc) @ desc @ b) = gob_expect (gob_int tid) body"
proof -
  have "length body < 2 ^ 64" "b = gob_bytes body"
    using assms by (auto simp: gob_message_def gob_bytes_def split: if_splits)
  then show ?thesis
    using gob_dec_bytes_round_trip[of body "[]"] gob_expect_append[of "gob_uint (length desc) @ desc" b]
    by (simp add: gob_dec_header_def)
qed

lemma gob_fields_bound: "Some b \<in> set fs \<Longrightarrow> length b \<le> length (gob_fields k fs)"
proof (induction k fs rule: gob_fields.induct)
  case (3 k b' fs)
  then show ?case by auto
qed auto

lemma gob_encEntry_round_trip: "gob_encEntry e = Inr b \<Longrightarrow> gob_decEntry b = Inr e"
proof -
  let ?fs = "gob_entry_fields e"
  assume enc: "gob_encEntry e = Inr b"
  then obtain m where m: "gob_message (gob_int 65 @ gob_fields 1 ?fs) = Inr m"
    and b: "b = gob_uint (length gob_entry_type) @ gob_entry_type @ m"
    by (auto simp: gob_encEntry_def split: sum.splits)
  have small: "length (gob_fields 1 ?fs) < 2 ^ 64"
    using m by (auto simp: gob_message_def split: if_splits)
  have bound: "length s < 2 ^ 64" if "gob_nonzero (s = []) (gob_bytes s) \<in> set ?fs" for s
    using that gob_fields_bound[of "gob_bytes s" ?fs 1] small
    by (auto simp: gob_bytes_def gob_nonzero_def split: if_splits)
  have len: "length (eKey e) < 2 ^ 64" "length (eValue e) < 2 ^ 64" "length (eClientRequestID e) < 2 ^ 64"
    using bound[of "bytes_of_string (eKey e)"] bound[of "eValue e"]
      bound[of "bytes_of_string (eClientRequestID e)"]
    by (simp_all add: gob_entry_fields_def)
  show ?thesis
    using gob_stream[OF m, of gob_entry_type 65] gob_entry_round_trip[OF len, of "[]"]
    by (simp add: gob_decEntry_def b)
qed

lemma gob_dec_pairs_fold:
  "(\<And>k v. (k, v) \<in> set ps \<Longrightarrow> length k < 2 ^ 64 \<and> length v < 2 ^ 64) \<Longrightarrow>
   gob_dec_pairs (length ps) (concat (map gob_pair ps) @ r) acc
     = Some (foldl (\<lambda>m (k, v). AList.update k v m) acc ps)"
proof (induction ps arbitrary: acc)
  case (Cons p ps)
  obtain k v where p: "p = (k, v)" by (cases p)
  have "length k < 2 ^ 64" "length v < 2 ^ 64" using Cons.prems[of k v] p by auto
  moreover have "\<And>k v. (k, v) \<in> set ps \<Longrightarrow> length k < 2 ^ 64 \<and> length v < 2 ^ 64"
    using Cons.prems by (meson list.set_intros(2))
  ultimately show ?case using Cons.IH by (simp add: p gob_pair_def)
qed simp

lemma foldl_update_ok: "gomap_ok m \<Longrightarrow> gomap_ok (foldl (\<lambda>m (k, v). AList.update k v m) m ps)"
  by (induction ps arbitrary: m) auto

lemma map_of_foldl_update:
  "gomap_ok ps \<Longrightarrow> map_of (foldl (\<lambda>m (k, v). AList.update k v m) m ps) = map_of m ++ map_of ps"
proof (induction ps arbitrary: m)
  case (Cons p ps)
  have "map_of ps (fst p) = None" using Cons.prems by (simp add: gomap_ok_def map_of_eq_None_iff)
  then show ?case
    using Cons by (cases p) (auto simp: gomap_ok_def update_conv' map_add_def fun_eq_iff split: option.splits)
qed simp

lemma length_concat_mem: "x \<in> set xs \<Longrightarrow> length x \<le> length (concat xs)"
  by (induction xs) auto

lemma gob_encPairs_round_trip:
  assumes ok: "gomap_ok ps" and enc: "gob_encPairs ps = Inr b"
  shows "\<exists>ps'. gob_decPairs b = Inr ps' \<and> gomap_ok ps' \<and> map_of ps' = map_of ps"
proof -
  obtain m where m: "gob_message (gob_int 66 @ [0] @ gob_uint (length ps) @ concat (map gob_pair ps)) = Inr m"
    and b: "b = gob_uint (length gob_pairs_type) @ gob_pairs_type @ m"
    using enc by (auto simp: gob_encPairs_def split: sum.splits)
  have small: "length (concat (map gob_pair ps)) < 2 ^ 64"
    using m by (auto simp: gob_message_def split: if_splits)
  have len: "length k < 2 ^ 64 \<and> length v < 2 ^ 64" if "(k, v) \<in> set ps" for k v
  proof -
    have "gob_pair (k, v) \<in> set (map gob_pair ps)" using that by simp
    then have "length (gob_pair (k, v)) < 2 ^ 64" using length_concat_mem small le_less_trans by blast
    then show ?thesis by (simp add: gob_pair_def gob_bytes_def)
  qed
  have "length xs \<le> length (concat (map gob_pair xs))" for xs
    by (induction xs) (auto simp: gob_pair_def gob_bytes_def gob_uint_def Let_def)
  then have n: "length ps < 2 ^ 64" using small by (meson le_less_trans)
  have fld: "gob_dec_pairs (length ps) (concat (map gob_pair ps)) []
      = Some (foldl (\<lambda>m (k, v). AList.update k v m) [] ps)"
    using gob_dec_pairs_fold[of ps "[]" "[]"] len by simp
  have "gob_decPairs b = Inr (foldl (\<lambda>m (k, v). AList.update k v m) [] ps)"
    using gob_stream[OF m, of gob_pairs_type 66] gob_expect_append[of "[0]"]
      gob_dec_uint_round_trip[OF n] fld
    by (simp add: gob_decPairs_def b)
  then show ?thesis using foldl_update_ok[of "[]" ps] map_of_foldl_update[OF ok, of "[]"] by simp
qed

lemma gob_decPairs_ok: "gob_decPairs b = Inr ps \<Longrightarrow> gomap_ok ps"
proof -
  have "gob_dec_pairs n bs acc = Some ps \<Longrightarrow> gomap_ok acc \<Longrightarrow> gomap_ok ps" for n bs acc
    by (induction n arbitrary: bs acc) (auto split: option.splits)
  then show "gob_decPairs b = Inr ps \<Longrightarrow> gomap_ok ps"
    by (auto simp: gob_decPairs_def Option.bind_eq_Some_conv split: option.splits)
qed

lemma is_digit_char [simp]: "d < 10 \<Longrightarrow> is_digit (char_of (48 + d))"
  "d < 10 \<Longrightarrow> (of_char (char_of (48 + d) :: char) :: nat) = 48 + d"
  by (simp_all add: is_digit_def)

lemma json_digits_digits: "c \<in> set (json_digits n) \<Longrightarrow> is_digit c"
proof (induction n rule: json_digits.induct)
  case (1 n)
  then show ?case by (subst (asm) json_digits.simps) (auto split: if_splits)
qed

lemma json_number_digits: "json_number (json_digits n) = n"
proof (induction n rule: json_digits.induct)
  case (1 n)
  then show ?case by (subst json_digits.simps) (auto simp: json_number_def)
qed

lemma json_digits_not_Nil [simp]: "json_digits n \<noteq> []"
  by (subst json_digits.simps) simp

lemma json_dec_u64_round_trip:
  assumes "\<not> is_digit c"
  shows "json_dec_u64 (json_digits (unat x) @ c # s) = Some (x, c # s)"
proof -
  have "takeWhile is_digit (json_digits (unat x) @ c # s) = json_digits (unat x)"
    "dropWhile is_digit (json_digits (unat x) @ c # s) = c # s"
    using assms json_digits_digits by (simp_all add: takeWhile_append2 dropWhile_append2)
  then show ?thesis using u64_max[of x] by (simp add: json_dec_u64_def json_number_digits not_le)
qed

lemma json_expect_append [simp]: "json_expect p (p @ s) = Some s"
  by (simp add: json_expect_def)

lemma json_meta_round_trip: "json_encMeta m = Inr b \<Longrightarrow> json_decMeta b = Inr m"
proof -
  assume "json_encMeta m = Inr b"
  then have b: "string_of_bytes b = ''{\"last_included_index\":'' @ (json_digits (unat (smLastIncludedIndex m)) @
      (CHR '','' # ''\"last_included_term\":'' @ (json_digits (unat (smLastIncludedTerm m)) @ CHR ''}'' # [])))"
    by (auto simp: json_encMeta_def)
  have nd: "\<not> is_digit CHR '',''" "\<not> is_digit CHR ''}''" by (simp_all add: is_digit_def)
  have comma: "json_expect '',\"last_included_term\":'' (CHR '','' # ''\"last_included_term\":'' @ s) = Some s" for s
    using json_expect_append[of "'',\"last_included_term\":''" s] by simp
  show ?thesis
    unfolding json_decMeta_def b json_expect_append
    by (simp only: Option.bind.simps json_dec_u64_round_trip[OF nd(1)] json_dec_u64_round_trip[OF nd(2)]
        comma prod.case simp_thms if_True option.simps) simp
qed

interpretation gob: codec_contract gob_codec
  by unfold_locales
    (auto simp: gob_codec_def gob_encEntry_round_trip gob_encPairs_round_trip gob_decPairs_ok
      json_meta_round_trip)

text \<open>Everything of a practical size is encoded.\<close>

lemma length_gob_uint: "length (gob_uint n) \<le> 9"
  using length_dropWhile_le[of "\<lambda>b. b = 0" "put_u64 (of_nat n)"]
  by (simp add: gob_uint_def Let_def)

lemma length_gob_fields: "length (gob_fields k fs) \<le> 9 + sum_list (map (\<lambda>f. case f of None \<Rightarrow> 0 | Some b \<Rightarrow> 9 + length b) fs)"
proof (induction k fs rule: gob_fields.induct)
  case (3 k b fs)
  then show ?case using length_gob_uint[of k] by simp
qed (auto simp: length_gob_uint)

lemma gob_encEntry_small:
  assumes "length (eKey e) + length (eValue e) + length (eClientRequestID e) < 2 ^ 32"
  shows "\<exists>b. gob_encEntry e = Inr b"
proof -
  let ?w = "\<lambda>f. case f of None \<Rightarrow> 0 | Some b \<Rightarrow> 9 + length b"
  have w: "?w (gob_nonzero z b) \<le> 9 + length b" for z b by (simp add: gob_nonzero_def)
  have int: "length (gob_int i) \<le> 9" for i by (simp add: gob_int_def length_gob_uint)
  have bytes: "length (gob_bytes b) \<le> 9 + length b" for b
    using length_gob_uint[of "length b"] by (simp add: gob_bytes_def)
  have "?w (gob_nonzero z (gob_uint n)) \<le> 18" for z n
    using w[of z "gob_uint n"] length_gob_uint[of n] by linarith
  moreover have "?w (gob_nonzero z (gob_int i)) \<le> 18" for z i
    using w[of z "gob_int i"] int[of i] by linarith
  moreover have "?w (gob_nonzero z (gob_bytes b)) \<le> 18 + length b" for z b
    using w[of z "gob_bytes b"] bytes[of b] by linarith
  ultimately have "sum_list (map ?w (gob_entry_fields e))
      \<le> 18 + (18 + (18 + ((18 + length (eKey e)) + ((18 + length (eValue e))
          + ((18 + length (eClientRequestID e)) + 0)))))"
    unfolding gob_entry_fields_def list.map sum_list.Cons sum_list.Nil
    by (intro add_mono) (simp_all only: length_bytes_of_string[symmetric])
  then have "length (gob_fields 1 (gob_entry_fields e))
      \<le> 200 + length (eKey e) + length (eValue e) + length (eClientRequestID e)"
    using length_gob_fields[of 1 "gob_entry_fields e"] by linarith
  moreover have "length (gob_int 65) \<le> 9" by (rule int)
  ultimately have "length (gob_int 65 @ gob_fields 1 (gob_entry_fields e)) < 8589934592"
    using assms by simp
  then show ?thesis using assms by (simp add: gob_encEntry_def gob_message_def)
qed

end
