(* ===== verification/Log_Properties.thy ===== *)
theory Log_Properties
  imports Persistent_Log_Proofs Gob
begin

text \<open>
  The properties of the storage layer, the persistent log and the state machine, stated on the
  definitions with the engine and the encoding as parameters. \<open>log_reach\<close> runs the persistent log and
  the abstract log side by side through any sequence of calls, failures and reopenings. The
  witnesses run on \<open>PebbleEngine\<close> over the in-memory Pebble and on the encodings of \<open>Gob\<close>.
\<close>

section \<open>Runs of the log\<close>

inductive log_reach :: "'d engine \<Rightarrow> codec \<Rightarrow> alog \<Rightarrow> 'd plog \<Rightarrow> alog \<Rightarrow> 'd plog \<Rightarrow> bool"
  for E C a0 pl0 where
  start: "log_reach E C a0 pl0 a0 pl0"
| set_term: "log_reach E C a0 pl0 a pl \<Longrightarrow> SetTermAndVote E pl t v = (pl', r) \<Longrightarrow>
    log_reach E C a0 pl0 (if r = None then a\<lparr>logTerm := t, logVote := v\<rparr> else a) pl'"
| append: "log_reach E C a0 pl0 a pl \<Longrightarrow> appendable a es \<Longrightarrow> AppendEntries E C pl es sync = Some (pl', r) \<Longrightarrow>
    log_reach E C a0 pl0 (if r = None then alog_append es a else a) pl'"
| truncate: "log_reach E C a0 pl0 a pl \<Longrightarrow> logBase a < i \<Longrightarrow> TruncateSuffix E pl i = Some (pl', r) \<Longrightarrow>
    log_reach E C a0 pl0 (if r = None then alog_truncate i a else a) pl'"
| compact: "log_reach E C a0 pl0 a pl \<Longrightarrow> li \<noteq> - 1 \<Longrightarrow> CompactPrefix E pl li lt = Some (pl', r) \<Longrightarrow>
    log_reach E C a0 pl0 (if r = None then alog_compact li lt a else a) pl'"
| restore: "log_reach E C a0 pl0 a pl \<Longrightarrow> li \<noteq> - 1 \<Longrightarrow> RestoreSnapshotBoundary E pl li lt = Some (pl', r) \<Longrightarrow>
    log_reach E C a0 pl0 (if r = None then alog_restore li lt a else a) pl'"
| reopen: "log_reach E C a0 pl0 a pl \<Longrightarrow> OpenPersistentLog E (plEngine pl) = Some (Inr pl') \<Longrightarrow>
    log_reach E C a0 pl0 a pl'"

context raft_storage_reads
begin

lemma log_reach_sim:
  assumes "log_reach E C (absl pl0) pl0 a pl" and "inv pl0"
  shows "inv pl \<and> absl pl = a"
  using assms
proof induction
  case (set_term a pl t v pl' r)
  then show ?case using SetTermAndVote_spec[of pl t v pl' r] by auto
next
  case (append a pl es sync pl' r)
  then show ?case
    using AppendEntries_done[of pl es sync pl'] AppendEntries_failed[of pl es sync pl'] by (cases r) auto
next
  case (truncate a pl i pl' r)
  then have "lastIncludedIndex pl < i" by auto
  then show ?case
    using truncate TruncateSuffix_done[of pl i pl'] TruncateSuffix_failed[of pl i pl'] by (cases r) auto
next
  case (compact a pl li lt pl' r)
  then show ?case
    using CompactPrefix_done[of pl li lt pl'] CompactPrefix_failed[of pl li lt pl'] by (cases r) auto
next
  case (restore a pl li lt pl' r)
  then show ?case
    using RestoreSnapshotBoundary_done[of pl li lt pl'] RestoreSnapshotBoundary_failed[of pl li lt pl']
    by (cases r) auto
next
  case (reopen a pl pl')
  then have "pl' = cold pl" using OpenPersistentLog_reopens[of pl] by simp
  then show ?case using reopen cold_inv by auto
qed simp

end

interpretation store: raft_storage_reads "PebbleEngine mem_pebble" mem_content gob_codec
  by unfold_locales

section \<open>A concrete store for the witnesses\<close>

abbreviation exE :: "memdb engine" where
  "exE \<equiv> PebbleEngine mem_pebble"

definition ex_log0 :: "memdb plog" where
  "ex_log0 = \<lparr>plEngine = mem_empty, firstIndex = 1, lastIndex = 0, lastIncludedIndex = 0,
     lastIncludedTerm = 0, currentTerm = 0, votedFor = [], tailCache = [], tailCacheLimit = 4096\<rparr>"

definition ex_entry :: "u64 \<Rightarrow> u64 \<Rightarrow> entry" where
  "ex_entry i t = \<lparr>eIndex = i, eTerm = t, eType = EntryPut, eKey = ''k'', eValue = [ucast t],
     eClientRequestID = ''r''\<rparr>"

definition ex_log1 :: "memdb plog" where
  "ex_log1 = fst (the (AppendEntries exE gob_codec ex_log0 [ex_entry 1 1, ex_entry 2 1] True))"

definition ex_log2 :: "memdb plog" where
  "ex_log2 = fst (the (AppendEntries exE gob_codec ex_log1 [ex_entry 2 3] True))"

lemma ex_log0_inv: "plog_inv gob_codec (mem_content (plEngine ex_log0)) ex_log0"
  unfolding ex_log0_def by (rule store.empty_inv) (simp add: mem_content_def mem_empty_def)

lemma ex_log0_abs:
  "plog_abs gob_codec (mem_content (plEngine ex_log0)) ex_log0
     = \<lparr>logBase = 0, logBaseTerm = 0, logEntries = [], logTerm = 0, logVote = []\<rparr>"
  by (simp add: plog_abs_def ex_log0_def u64_range_empty)

lemma ex_set_entries:
  "(\<And>e. e \<in> set es \<Longrightarrow> \<exists>v. gob_encEntry e = Inr v) \<Longrightarrow> \<exists>b'. set_entries gob_codec es b = Inr b'"
  by (induction es arbitrary: b) (fastforce simp: gob_codec_def)+

text \<open>On the in-memory Pebble without faults an append of entries of a practical size succeeds.\<close>

lemma ex_AppendEntries:
  assumes "plog_bounds pl" and "mem_reliable (plEngine pl)"
    and "\<And>e. e \<in> set es \<Longrightarrow> length (eKey e) + length (eValue e) + length (eClientRequestID e) < 2 ^ 32"
  shows "\<exists>pl'. AppendEntries exE gob_codec pl es sync = Some (pl', None) \<and> mem_reliable (plEngine pl')"
proof (cases "es = []")
  case False
  obtain b where "set_entries gob_codec es (map (\<lambda>i. BatchDelete (logKey i))
      (u64_range (eIndex (hd es)) (lastIndex pl))) = Inr b"
    using ex_set_entries[of es] assms(3) gob_encEntry_small by blast
  moreover obtain d where "Engine_Commit exE (plEngine pl) b \<lparr>Sync = sync\<rparr> = (d, None)" "mem_reliable d"
    using mem_reliable_commit[OF assms(2)] by blast
  ultimately show ?thesis
    by (simp add: store.AppendEntries_unfold[OF assms(1) False] Let_def)
qed (use assms in \<open>simp add: AppendEntries_def\<close>)

lemma ex_entry_small:
  "length (eKey (ex_entry i t)) + length (eValue (ex_entry i t)) + length (eClientRequestID (ex_entry i t)) < 2 ^ 32"
  by (simp add: ex_entry_def)

lemma ex_append1:
  "AppendEntries exE gob_codec ex_log0 [ex_entry 1 1, ex_entry 2 1] True = Some (ex_log1, None)"
  and ex_log1_reliable: "mem_reliable (plEngine ex_log1)"
proof -
  have "mem_reliable (plEngine ex_log0)" by (simp add: ex_log0_def)
  then obtain pl where "AppendEntries exE gob_codec ex_log0 [ex_entry 1 1, ex_entry 2 1] True = Some (pl, None)"
    "mem_reliable (plEngine pl)"
    using ex_AppendEntries[OF plog_invD(1)[OF ex_log0_inv], of "[ex_entry 1 1, ex_entry 2 1]" True]
      ex_entry_small by auto
  then show "AppendEntries exE gob_codec ex_log0 [ex_entry 1 1, ex_entry 2 1] True = Some (ex_log1, None)"
    "mem_reliable (plEngine ex_log1)"
    by (simp_all add: ex_log1_def)
qed

lemma ex_log1_inv: "plog_inv gob_codec (mem_content (plEngine ex_log1)) ex_log1"
  and ex_log1_abs: "plog_abs gob_codec (mem_content (plEngine ex_log1)) ex_log1
     = \<lparr>logBase = 0, logBaseTerm = 0, logEntries = [ex_entry 1 1, ex_entry 2 1], logTerm = 0, logVote = []\<rparr>"
proof -
  have "appendable (plog_abs gob_codec (mem_content (plEngine ex_log0)) ex_log0) [ex_entry 1 1, ex_entry 2 1]"
    by (simp add: ex_log0_abs appendable_def ex_entry_def)
  note * = store.AppendEntries_done[OF ex_log0_inv this ex_append1]
  show "plog_inv gob_codec (mem_content (plEngine ex_log1)) ex_log1" by (rule *(1))
  show "plog_abs gob_codec (mem_content (plEngine ex_log1)) ex_log1
     = \<lparr>logBase = 0, logBaseTerm = 0, logEntries = [ex_entry 1 1, ex_entry 2 1], logTerm = 0, logVote = []\<rparr>"
    unfolding *(2) by (simp add: ex_log0_abs alog_append_def)
qed

lemma ex_append2: "AppendEntries exE gob_codec ex_log1 [ex_entry 2 3] True = Some (ex_log2, None)"
  and ex_log2_reliable: "mem_reliable (plEngine ex_log2)"
proof -
  obtain pl where "AppendEntries exE gob_codec ex_log1 [ex_entry 2 3] True = Some (pl, None)"
    "mem_reliable (plEngine pl)"
    using ex_AppendEntries[OF plog_invD(1)[OF ex_log1_inv] ex_log1_reliable, of "[ex_entry 2 3]" True]
      ex_entry_small by auto
  then show "AppendEntries exE gob_codec ex_log1 [ex_entry 2 3] True = Some (ex_log2, None)"
    "mem_reliable (plEngine ex_log2)"
    by (simp_all add: ex_log2_def)
qed

lemma ex_log2_inv: "plog_inv gob_codec (mem_content (plEngine ex_log2)) ex_log2"
  and ex_log2_abs: "plog_abs gob_codec (mem_content (plEngine ex_log2)) ex_log2
     = \<lparr>logBase = 0, logBaseTerm = 0, logEntries = [ex_entry 1 1, ex_entry 2 3], logTerm = 0, logVote = []\<rparr>"
proof -
  have "appendable (plog_abs gob_codec (mem_content (plEngine ex_log1)) ex_log1) [ex_entry 2 3]"
    by (simp add: ex_log1_abs appendable_def ex_entry_def alog_last_def word_less_nat_alt)
  note * = store.AppendEntries_done[OF ex_log1_inv this ex_append2]
  show "plog_inv gob_codec (mem_content (plEngine ex_log2)) ex_log2" by (rule *(1))
  show "plog_abs gob_codec (mem_content (plEngine ex_log2)) ex_log2
     = \<lparr>logBase = 0, logBaseTerm = 0, logEntries = [ex_entry 1 1, ex_entry 2 3], logTerm = 0, logVote = []\<rparr>"
    unfolding *(2) by (simp add: ex_log1_abs alog_append_def ex_entry_def)
qed

text \<open>The same log in term 3, with a vote.\<close>

definition ex_log3 :: "memdb plog" where
  "ex_log3 = fst (SetTermAndVote exE ex_log2 3 ''a'')"

lemma reliable_SetTermAndVote:
  assumes "mem_reliable (plEngine pl)"
  shows "\<exists>pl'. SetTermAndVote exE pl t v = (pl', None) \<and> mem_reliable (plEngine pl')"
proof -
  obtain d where "Engine_Commit exE (plEngine pl)
      (Batch_Set (Batch_Set NewBatch keyTerm (put_u64 t)) keyVotedFor (bytes_of_string v)) \<lparr>Sync = True\<rparr> = (d, None)" "mem_reliable d"
    using mem_reliable_commit[OF assms] by blast
  then show ?thesis by (simp add: SetTermAndVote_def Let_def)
qed

lemma ex_log3_inv: "plog_inv gob_codec (mem_content (plEngine ex_log3)) ex_log3"
  and ex_log3_abs: "plog_abs gob_codec (mem_content (plEngine ex_log3)) ex_log3
     = \<lparr>logBase = 0, logBaseTerm = 0, logEntries = [ex_entry 1 1, ex_entry 2 3], logTerm = 3, logVote = ''a''\<rparr>"
  and ex_log3_reliable: "mem_reliable (plEngine ex_log3)"
proof -
  obtain pl where pl: "SetTermAndVote exE ex_log2 3 ''a'' = (pl, None)" "mem_reliable (plEngine pl)"
    using reliable_SetTermAndVote[OF ex_log2_reliable] by blast
  then have e: "SetTermAndVote exE ex_log2 3 ''a'' = (ex_log3, None)" by (simp add: ex_log3_def)
  then show "mem_reliable (plEngine ex_log3)" using pl by simp
  note * = store.SetTermAndVote_spec[OF ex_log2_inv e]
  show "plog_inv gob_codec (mem_content (plEngine ex_log3)) ex_log3" by (rule *(1))
  show "plog_abs gob_codec (mem_content (plEngine ex_log3)) ex_log3
     = \<lparr>logBase = 0, logBaseTerm = 0, logEntries = [ex_entry 1 1, ex_entry 2 3], logTerm = 3, logVote = ''a''\<rparr>"
    using *(2) by (simp add: ex_log2_abs)
qed

section \<open>The persistent log\<close>

text \<open>
  C6. The persistent log refines the abstract log: after any sequence of its calls, each of which may
  fail in the engine, and of reopenings, the invariant holds, the abstract log read off the disk is
  the one the successful calls built, and opening the log again gives exactly that log.
\<close>

theorem log_run_refines:
  assumes "raft_storage_reads E content C" and "plog_inv C (content (plEngine pl0)) pl0"
    and "log_reach E C (plog_abs C (content (plEngine pl0)) pl0) pl0 a pl"
  shows "plog_inv C (content (plEngine pl)) pl \<and> plog_abs C (content (plEngine pl)) pl = a \<and> alog_wf a \<and>
    (\<exists>pl'. OpenPersistentLog E (plEngine pl) = Some (Inr pl') \<and>
       plog_inv C (content (plEngine pl')) pl' \<and> plog_abs C (content (plEngine pl')) pl' = a)"
proof -
  have inv: "plog_inv C (content (plEngine pl)) pl" and a: "plog_abs C (content (plEngine pl)) pl = a"
    using raft_storage_reads.log_reach_sim[OF assms(1,3,2)] by auto
  moreover have "OpenPersistentLog E (plEngine pl) = Some (Inr (cold pl))"
    by (rule raft_storage_reads.OpenPersistentLog_reopens[OF assms(1) inv])
  moreover have "alog_wf a" using alog_wf_plog[OF inv] a by simp
  ultimately show ?thesis using cold_inv[OF inv] by auto
qed

theorem log_run_refines_witness:
  "plog_abs gob_codec (mem_content (plEngine ex_log2)) ex_log2
     = \<lparr>logBase = 0, logBaseTerm = 0, logEntries = [ex_entry 1 1, ex_entry 2 3], logTerm = 0, logVote = []\<rparr> \<and>
   (\<exists>pl'. OpenPersistentLog exE (plEngine ex_log2) = Some (Inr pl'))"
proof -
  let ?a1 = "\<lparr>logBase = 0, logBaseTerm = 0, logEntries = [ex_entry 1 1, ex_entry 2 1], logTerm = 0, logVote = []\<rparr>"
  have "log_reach exE gob_codec (plog_abs gob_codec (mem_content (plEngine ex_log1)) ex_log1) ex_log1
      (if None = (None :: goerror option) then alog_append [ex_entry 2 3] ?a1 else ?a1) ex_log2"
    unfolding ex_log1_abs
    by (rule log_reach.append[OF log_reach.start _ ex_append2])
      (simp add: appendable_def ex_entry_def alog_last_def word_less_nat_alt)
  from log_run_refines[OF store.raft_storage_reads_axioms ex_log1_inv this]
  show ?thesis by (auto simp: alog_append_def ex_entry_def)
qed

text \<open>
  C22. The tail cache is transparent and the readers are exact: on an engine whose reads do not fail,
  \<^verbatim>\<open>TermAt\<close>, \<^verbatim>\<open>LastTerm\<close>, \<^verbatim>\<open>Get\<close> and \<^verbatim>\<open>Range\<close> return what the abstract log holds, whichever entries
  happen to be cached.
\<close>

theorem log_reads_abstract:
  assumes "raft_storage_reads E content C" and "plog_inv C (content (plEngine pl)) pl"
    and "a = plog_abs C (content (plEngine pl)) pl"
  shows "TermAt E C pl i = alog_term a i \<and> LastTerm E C pl = alog_last_term a \<and>
    lastIndex pl = alog_last a \<and> (Log_Get E C pl i = Inr e \<longleftrightarrow> alog_entry a i = Some e) \<and>
    (firstIndex pl \<le> fr \<and> fr \<le> to \<and> to \<le> lastIndex pl \<longrightarrow>
       Log_Range E C pl fr to = Some (Inr (map (\<lambda>i. the (alog_entry a i)) (u64_range fr to))))"
  using assms(3) plog_invD(1)[OF assms(2)] raft_storage_reads.TermAt_abs[OF assms(1,2)]
    raft_storage_reads.LastTerm_abs[OF assms(1,2)] raft_storage_reads.Log_Get_iff[OF assms(1,2)]
    raft_storage_reads.Log_Range_abs[OF assms(1,2)]
  by auto

theorem log_reads_abstract_witness:
  "TermAt exE gob_codec ex_log1 2 = Some 1 \<and> LastTerm exE gob_codec ex_log1 = 1 \<and>
   Log_Get exE gob_codec ex_log1 1 = Inr (ex_entry 1 1) \<and> TermAt exE gob_codec ex_log1 3 = None"
  using log_reads_abstract[OF store.raft_storage_reads_axioms ex_log1_inv refl, of 2]
    log_reads_abstract[OF store.raft_storage_reads_axioms ex_log1_inv refl, of 3]
    log_reads_abstract[OF store.raft_storage_reads_axioms ex_log1_inv refl, of 1 "ex_entry 1 1"]
  by (simp add: ex_log1_abs alog_term_def alog_last_term_def alog_entry_def alog_last_def ex_entry_def)

text \<open>
  C26. Every method of the log that loops over indices returns: the \<^verbatim>\<open>uint64\<close> loop bounds do not wrap
  while the invariant holds, whatever the arguments and however the engine fails.
\<close>

theorem log_calls_return:
  assumes "raft_storage E content C" and "plog_inv C (content (plEngine pl)) pl"
  shows "(\<exists>pl' r. AppendEntries E C pl es sync = Some (pl', r)) \<and>
    (\<exists>pl' r. TruncateSuffix E pl i = Some (pl', r)) \<and>
    (\<exists>pl' r. CompactPrefix E pl li lt = Some (pl', r)) \<and>
    (\<exists>pl' r. RestoreSnapshotBoundary E pl li lt = Some (pl', r))"
  using raft_storage.AppendEntries_returns[OF assms] raft_storage.TruncateSuffix_returns[OF assms]
    raft_storage.CompactPrefix_returns[OF assms] raft_storage.RestoreSnapshotBoundary_returns[OF assms]
  by blast

theorem log_calls_return_witness:
  "\<exists>pl' r. AppendEntries exE gob_codec ex_log1 [ex_entry 2 3] True = Some (pl', r)"
  using log_calls_return[OF store.raft_storage_axioms ex_log1_inv] by blast

text \<open>
  The bound of that guarantee: at the largest index the loop of \<^verbatim>\<open>RestoreSnapshotBoundary\<close> never
  ends, because its counter wraps to zero before it exceeds the bound.
\<close>

theorem restore_at_max_diverges: "RestoreSnapshotBoundary E (pl\<lparr>lastIndex := - 1\<rparr>) li lt = None"
  by (simp add: RestoreSnapshotBoundary_def for_upto_max_diverges)

text \<open>
  C29. The iterator bounds select exactly the keys with the prefix: \<^verbatim>\<open>prefixUpperBound\<close> is the least
  key above all of them, also when the prefix ends in bytes 0xff and when no bound exists.
\<close>

theorem prefixUpperBound_exact: "in_bounds p (prefixUpperBound p) k \<longleftrightarrow> prefix p k"
  by (rule in_bounds_prefixUpperBound)

section \<open>The storage engine\<close>



section \<open>The state machine\<close>

text \<open>
  C23. A snapshot carries the whole store: what \<^verbatim>\<open>Dump\<close> reads on one node, sent through \<^verbatim>\<open>Marshal\<close> and
  \<^verbatim>\<open>UnmarshalSnapshot\<close> and put in place by \<^verbatim>\<open>Restore\<close> on another, is the same store, whatever the second
  node held before; keys outside the data prefix, such as the log's, are untouched.
\<close>

theorem snapshot_transfers_store:
  assumes "engine_contract E content" and "codec_contract C"
    and "Dump E s = Some (Inr snap)" and "Marshal C snap = Inr b"
    and "UnmarshalSnapshot C b = Inr snap'" and "Restore E s2 snap' i = (s2', None)"
  shows "kv_content (content (smEngine s2')) = kv_content (content (smEngine s)) \<and>
    smLastApplied s2' = i \<and>
    (\<forall>k. \<not> prefix dataPrefix k \<longrightarrow> content (smEngine s2') k = content (smEngine s2) k)"
proof -
  have ok: "gomap_ok (Pairs snap)" and m: "map_of (Pairs snap) = kv_content (content (smEngine s))"
    using engine_contract.Dump_spec[OF assms(1), of s] assms(3) by auto
  have ok': "gomap_ok (Pairs snap')" and "map_of (Pairs snap') = map_of (Pairs snap)"
    using codec_contract.Marshal_round_trip[OF assms(2) ok assms(4)] assms(5) by auto
  then show ?thesis using m engine_contract.Restore_done[OF assms(1) ok' assms(6)] by simp
qed

definition ex_sm :: "memdb state_machine" where
  "ex_sm = \<lparr>smEngine = \<lparr>mem_pairs = [(dataKey ''a'', [1]), (dataKey ''b'', [2])], mem_faults = []\<rparr>,
     smLastApplied = 2\<rparr>"

definition ex_snap :: snapshot where
  "ex_snap = \<lparr>Pairs = [(''a'', [1]), (''b'', [2])]\<rparr>"

definition ex_snap_bytes :: bytes where
  "ex_snap_bytes = projr (Marshal gob_codec ex_snap)"

definition ex_sm2 :: "memdb state_machine" where
  "ex_sm2 = fst (Restore exE (NewStateMachine mem_empty) ex_snap 2)"

lemma ex_snap_dump: "Dump exE ex_sm = Some (Inr ex_snap)" by code_simp

lemma ex_snap_marshal: "Marshal gob_codec ex_snap = Inr ex_snap_bytes" by code_simp

lemma ex_snap_unmarshal: "UnmarshalSnapshot gob_codec ex_snap_bytes = Inr ex_snap" by code_simp

lemma ex_snap_restore: "Restore exE (NewStateMachine mem_empty) ex_snap 2 = (ex_sm2, None)" by code_simp

theorem snapshot_transfers_store_witness:
  "kv_content (mem_content (smEngine ex_sm2)) = kv_content (mem_content (smEngine ex_sm))"
  using snapshot_transfers_store[OF mem.pe.engine_contract_axioms gob.codec_contract_axioms
      ex_snap_dump ex_snap_marshal ex_snap_unmarshal ex_snap_restore] by simp

text \<open>
  C27. The store behaves as a map: a completed put or delete changes exactly its key and records the
  index, a failed one changes nothing, and a read that returns gives the value of the key.
\<close>

theorem state_machine_is_a_map:
  assumes "engine_contract E content" and "kv = kv_content (content (smEngine s))"
  shows "(SM_Get E s key = Inr r \<longrightarrow> kv key = r) \<and>
    (ApplyPut E s i key v = (s1, None) \<longrightarrow>
       kv_content (content (smEngine s1)) = kv(key \<mapsto> v) \<and> smLastApplied s1 = i) \<and>
    (ApplyDelete E s i key = (s2, None) \<longrightarrow>
       kv_content (content (smEngine s2)) = kv(key := None) \<and> smLastApplied s2 = i) \<and>
    (ApplyPut E s i key v = (s3, Some err) \<or> ApplyDelete E s i key = (s3, Some err) \<longrightarrow>
       kv_content (content (smEngine s3)) = kv \<and> smLastApplied s3 = smLastApplied s)"
  using engine_contract.SM_Get_sound[OF assms(1), of s key] assms(2)
    engine_contract.ApplyPut_done[OF assms(1), of s i key v s1]
    engine_contract.ApplyDelete_done[OF assms(1), of s i key s2]
    engine_contract.ApplyPut_failed[OF assms(1), of s i key v s3]
    engine_contract.ApplyDelete_failed[OF assms(1), of s i key s3]
  by auto

definition ex_sm3 :: "memdb state_machine" where
  "ex_sm3 = fst (ApplyPut exE ex_sm 3 ''b'' [9])"

lemma ex_put: "ApplyPut exE ex_sm 3 ''b'' [9] = (ex_sm3, None)" by code_simp

theorem state_machine_is_a_map_witness:
  "kv_content (mem_content (smEngine ex_sm3))
     = (kv_content (mem_content (smEngine ex_sm)))(''b'' \<mapsto> [9]) \<and> smLastApplied ex_sm3 = 3"
  using state_machine_is_a_map[OF mem.pe.engine_contract_axioms refl, of ex_sm "''b''" None 3 "[9]" ex_sm3]
    ex_put by simp

end
