(* ===== verification/Snapshot_Store.thy ===== *)
theory Snapshot_Store
  imports State_Machine
begin

text \<open>
  \<^verbatim>\<open>SnapshotStore\<close> of \<^verbatim>\<open>internal/raft/snapshot.go\<close>, on a model of the calls of \<^verbatim>\<open>os\<close> it makes. Each
  call takes one tick of the file system's clock, and a script says which ticks fail; a write that
  fails leaves a part of its data in the file. A crash at a tick is a script that fails from that
  tick on: nothing after it has an effect. \<open>Save\<close> is proved to be all or nothing up to one mixed
  state (the new data under the old boundary) when renames do not fail, at every fault and crash.
\<close>

section \<open>The file system\<close>

text \<open>\<open>fsFaults t = Some n\<close>: the call at tick \<open>t\<close> fails, a write after \<open>n\<close> bytes.\<close>

record file_system =
  fsFiles :: "(string, bytes) gomap"
  fsClock :: nat
  fsFaults :: "nat \<Rightarrow> nat option"

definition fs_tick :: "file_system \<Rightarrow> file_system" where
  "fs_tick fs = fs\<lparr>fsClock := Suc (fsClock fs)\<rparr>"

definition fs_fault :: "file_system \<Rightarrow> nat option" where
  "fs_fault fs = fsFaults fs (fsClock fs)"

definition fs_error :: goerror where
  "fs_error = ErrOther ''input/output error''"

text \<open>\<^verbatim>\<open>os.OpenFile(path, O_WRONLY|O_CREATE|O_TRUNC)\<close>.\<close>

definition os_OpenFile :: "file_system \<Rightarrow> string \<Rightarrow> file_system \<times> goerror option" where
  "os_OpenFile fs path =
     (case fs_fault fs of
        Some n \<Rightarrow> (fs_tick fs, Some fs_error)
      | None \<Rightarrow> (fs_tick fs\<lparr>fsFiles := AList.update path [] (fsFiles fs)\<rparr>, None))"

definition os_Write :: "file_system \<Rightarrow> string \<Rightarrow> bytes \<Rightarrow> file_system \<times> goerror option" where
  "os_Write fs path data =
     (let old = (case map_of (fsFiles fs) path of None \<Rightarrow> [] | Some b \<Rightarrow> b)
      in case fs_fault fs of
           Some n \<Rightarrow> (fs_tick fs\<lparr>fsFiles := AList.update path (old @ take n data) (fsFiles fs)\<rparr>,
                     Some fs_error)
         | None \<Rightarrow> (fs_tick fs\<lparr>fsFiles := AList.update path (old @ data) (fsFiles fs)\<rparr>, None))"

text \<open>\<^verbatim>\<open>Sync\<close> and \<^verbatim>\<open>Close\<close> of the open file.\<close>

definition os_SyncClose :: "file_system \<Rightarrow> file_system \<times> goerror option" where
  "os_SyncClose fs =
     (fs_tick fs, (case fs_fault fs of Some n \<Rightarrow> Some fs_error | None \<Rightarrow> None))"

definition os_Rename :: "file_system \<Rightarrow> string \<Rightarrow> string \<Rightarrow> file_system \<times> goerror option" where
  "os_Rename fs src dst =
     (case fs_fault fs of
        Some n \<Rightarrow> (fs_tick fs, Some fs_error)
      | None \<Rightarrow>
          (case map_of (fsFiles fs) src of
             None \<Rightarrow> (fs_tick fs, Some ErrNotExist)
           | Some b \<Rightarrow>
               (fs_tick fs\<lparr>fsFiles := AList.update dst b (AList.delete src (fsFiles fs))\<rparr>, None)))"

definition os_Remove :: "file_system \<Rightarrow> string \<Rightarrow> file_system \<times> goerror option" where
  "os_Remove fs path =
     (case fs_fault fs of
        Some n \<Rightarrow> (fs_tick fs, Some fs_error)
      | None \<Rightarrow>
          (case map_of (fsFiles fs) path of
             None \<Rightarrow> (fs_tick fs, Some ErrNotExist)
           | Some b \<Rightarrow> (fs_tick fs\<lparr>fsFiles := AList.delete path (fsFiles fs)\<rparr>, None)))"

definition os_ReadFile :: "file_system \<Rightarrow> string \<Rightarrow> file_system \<times> (goerror + bytes)" where
  "os_ReadFile fs path =
     (fs_tick fs,
      case fs_fault fs of
        Some n \<Rightarrow> Inl fs_error
      | None \<Rightarrow> (case map_of (fsFiles fs) path of None \<Rightarrow> Inl ErrNotExist | Some b \<Rightarrow> Inr b))"

definition os_MkdirAll :: "file_system \<Rightarrow> string \<Rightarrow> file_system \<times> goerror option" where
  "os_MkdirAll fs path =
     (fs_tick fs, (case fs_fault fs of Some n \<Rightarrow> Some fs_error | None \<Rightarrow> None))"

definition filepath_Join :: "string \<Rightarrow> string \<Rightarrow> string" where
  "filepath_Join dir name = (if dir = [] then name else dir @ ''/'' @ name)"

section \<open>SnapshotStore\<close>

record snapshot_store =
  ssDir :: string
  ssFS :: file_system

definition NewSnapshotStore :: "file_system \<Rightarrow> string \<Rightarrow> goerror + snapshot_store" where
  "NewSnapshotStore fs dir =
     (case os_MkdirAll fs dir of
        (fs, Some err) \<Rightarrow> Inl err
      | (fs, None) \<Rightarrow> Inr \<lparr>ssDir = dir, ssFS = fs\<rparr>)"

definition metaPath :: "snapshot_store \<Rightarrow> string" where
  "metaPath s = filepath_Join (ssDir s) ''snapshot.meta.json''"

definition dataPath :: "snapshot_store \<Rightarrow> string" where
  "dataPath s = filepath_Join (ssDir s) ''snapshot.data''"

definition tmpDataPath :: "snapshot_store \<Rightarrow> string" where
  "tmpDataPath s = filepath_Join (ssDir s) ''snapshot.data.tmp''"

definition tmpMetaPath :: "snapshot_store \<Rightarrow> string" where
  "tmpMetaPath s = filepath_Join (ssDir s) ''snapshot.meta.json.tmp''"

definition writeFileSync :: "file_system \<Rightarrow> string \<Rightarrow> bytes \<Rightarrow> file_system \<times> goerror option" where
  "writeFileSync fs path data =
     (case os_OpenFile fs path of
        (fs, Some err) \<Rightarrow> (fs, Some err)
      | (fs, None) \<Rightarrow>
          (case os_Write fs path data of
             (fs, Some err) \<Rightarrow> (fst (os_SyncClose fs), Some err)
           | (fs, None) \<Rightarrow>
               (case os_SyncClose fs of
                  (fs, Some err) \<Rightarrow> (fst (os_SyncClose fs), Some err)
                | (fs, None) \<Rightarrow> os_SyncClose fs)))"

definition replaceFile :: "file_system \<Rightarrow> string \<Rightarrow> string \<Rightarrow> file_system \<times> goerror option" where
  "replaceFile fs src dst =
     (case os_Rename fs src dst of
        (fs, None) \<Rightarrow> (fs, None)
      | (fs, Some err) \<Rightarrow>
          (case os_Remove fs dst of
             (fs, Some err) \<Rightarrow> if err \<noteq> ErrNotExist then (fs, Some err) else os_Rename fs src dst
           | (fs, None) \<Rightarrow> os_Rename fs src dst))"

definition Save ::
    "codec \<Rightarrow> snapshot_store \<Rightarrow> snapshot \<Rightarrow> snapshot_meta \<Rightarrow> snapshot_store \<times> goerror option" where
  "Save C s snap meta =
     (case Marshal C snap of
        Inl err \<Rightarrow> (s, Some err)
      | Inr data \<Rightarrow>
          (case writeFileSync (ssFS s) (tmpDataPath s) data of
             (fs, Some err) \<Rightarrow> (s\<lparr>ssFS := fs\<rparr>, Some (ErrWrapped ''writing snapshot data'' err))
           | (fs, None) \<Rightarrow>
          (case replaceFile fs (tmpDataPath s) (dataPath s) of
             (fs, Some err) \<Rightarrow> (s\<lparr>ssFS := fs\<rparr>, Some (ErrWrapped ''renaming snapshot data'' err))
           | (fs, None) \<Rightarrow>
          (case encMeta C meta of
             Inl err \<Rightarrow> (s\<lparr>ssFS := fs\<rparr>, Some err)
           | Inr metaBytes \<Rightarrow>
          (case writeFileSync fs (tmpMetaPath s) metaBytes of
             (fs, Some err) \<Rightarrow> (s\<lparr>ssFS := fs\<rparr>, Some (ErrWrapped ''writing snapshot meta'' err))
           | (fs, None) \<Rightarrow>
          (case replaceFile fs (tmpMetaPath s) (metaPath s) of
             (fs, Some err) \<Rightarrow> (s\<lparr>ssFS := fs\<rparr>, Some (ErrWrapped ''renaming snapshot meta'' err))
           | (fs, None) \<Rightarrow> (s\<lparr>ssFS := fs\<rparr>, None)))))))"

text \<open>\<open>Inr None\<close> is the result with \<^verbatim>\<open>ok = false\<close>.\<close>

definition LoadLatest ::
    "codec \<Rightarrow> snapshot_store \<Rightarrow> snapshot_store \<times> (goerror + (snapshot \<times> snapshot_meta) option)" where
  "LoadLatest C s =
     (case os_ReadFile (ssFS s) (metaPath s) of
        (fs, Inl err) \<Rightarrow> (s\<lparr>ssFS := fs\<rparr>, if err = ErrNotExist then Inr None else Inl err)
      | (fs, Inr metaBytes) \<Rightarrow>
          (case decMeta C metaBytes of
             Inl err \<Rightarrow> (s\<lparr>ssFS := fs\<rparr>, Inl err)
           | Inr meta \<Rightarrow>
               (case os_ReadFile fs (dataPath s) of
                  (fs, Inl err) \<Rightarrow> (s\<lparr>ssFS := fs\<rparr>, Inl err)
                | (fs, Inr data) \<Rightarrow>
                    (case UnmarshalSnapshot C data of
                       Inl err \<Rightarrow> (s\<lparr>ssFS := fs\<rparr>, Inl err)
                     | Inr snap \<Rightarrow> (s\<lparr>ssFS := fs\<rparr>, Inr (Some (snap, meta)))))))"

section \<open>What a save leaves behind\<close>

definition fs_at :: "file_system \<Rightarrow> string \<Rightarrow> bytes option" where
  "fs_at fs path = map_of (fsFiles fs) path"

text \<open>Every failure is a crash: nothing succeeds after it.\<close>

definition stop_faults :: "file_system \<Rightarrow> bool" where
  "stop_faults fs = (\<forall>t. fsFaults fs t \<noteq> None \<longrightarrow> fsFaults fs (Suc t) \<noteq> None)"

text \<open>The machine after a restart: the files as they are, and no fault.\<close>

definition restart_store :: "snapshot_store \<Rightarrow> snapshot_store" where
  "restart_store s = s\<lparr>ssFS := (ssFS s)\<lparr>fsFaults := \<lambda>t. None\<rparr>\<rparr>"

text \<open>The two files that \<^const>\<open>LoadLatest\<close> reads.\<close>

definition store_files :: "snapshot_store \<Rightarrow> bytes option \<times> bytes option" where
  "store_files s = (fs_at (ssFS s) (metaPath s), fs_at (ssFS s) (dataPath s))"

lemma paths_distinct [simp]:
  "tmpDataPath s \<noteq> dataPath s" "tmpDataPath s \<noteq> metaPath s" "tmpMetaPath s \<noteq> dataPath s"
  "tmpMetaPath s \<noteq> metaPath s" "dataPath s \<noteq> metaPath s" "metaPath s \<noteq> dataPath s"
  "dataPath s \<noteq> tmpDataPath s" "metaPath s \<noteq> tmpDataPath s" "dataPath s \<noteq> tmpMetaPath s"
  "metaPath s \<noteq> tmpMetaPath s"
  by (simp_all add: tmpDataPath_def dataPath_def tmpMetaPath_def metaPath_def filepath_Join_def)

lemma paths_update [simp]:
  "metaPath (s\<lparr>ssFS := fs\<rparr>) = metaPath s" "dataPath (s\<lparr>ssFS := fs\<rparr>) = dataPath s"
  by (simp_all add: metaPath_def dataPath_def)

lemma fs_simps [simp]:
  "fsFaults (fs_tick fs) = fsFaults fs" "fsFiles (fs_tick fs) = fsFiles fs"
  "fsClock (fs_tick fs) = Suc (fsClock fs)"
  by (simp_all add: fs_tick_def)

lemma writeFileSync_spec:
  assumes "writeFileSync fs path data = (fs', r)"
  shows "fsFaults fs' = fsFaults fs" and "q \<noteq> path \<Longrightarrow> fs_at fs' q = fs_at fs q"
    and "r = None \<Longrightarrow> fs_at fs' path = Some data"
  using assms
  by (auto simp: writeFileSync_def os_OpenFile_def os_Write_def os_SyncClose_def fs_at_def Let_def
      update_conv' split: option.splits prod.splits)

lemma replaceFile_spec:
  assumes "replaceFile fs src dst = (fs', r)" and "stop_faults fs" and "fs_at fs src = Some b"
    and "src \<noteq> dst"
  shows "fsFaults fs' = fsFaults fs" and "q \<noteq> src \<Longrightarrow> q \<noteq> dst \<Longrightarrow> fs_at fs' q = fs_at fs q"
    and "r = None \<Longrightarrow> fs_at fs' dst = Some b" and "r \<noteq> None \<Longrightarrow> fs_at fs' dst = fs_at fs dst"
proof -
  have crash: "fsFaults fs (fsClock fs) \<noteq> None \<Longrightarrow> fsFaults fs (Suc (fsClock fs)) \<noteq> None"
    using assms(2) by (simp add: stop_faults_def)
  show "fsFaults fs' = fsFaults fs" "q \<noteq> src \<Longrightarrow> q \<noteq> dst \<Longrightarrow> fs_at fs' q = fs_at fs q"
    "r = None \<Longrightarrow> fs_at fs' dst = Some b" "r \<noteq> None \<Longrightarrow> fs_at fs' dst = fs_at fs dst"
    using assms(1,3,4) crash
    by (auto simp: replaceFile_def os_Rename_def os_Remove_def fs_fault_def fs_at_def fs_error_def
        update_conv' delete_conv' split: option.splits)
qed

lemma stop_faults_cong: "fsFaults fs' = fsFaults fs \<Longrightarrow> stop_faults fs' = stop_faults fs"
  by (simp add: stop_faults_def)

lemma Save_files:
  assumes save: "Save C s snap meta = (s', r)" and stop: "stop_faults (ssFS s)"
    and data: "Marshal C snap = Inr data" and meta: "encMeta C meta = Inr mb"
  shows "ssDir s' = ssDir s"
    and "store_files s' \<in> {store_files s, (fst (store_files s), Some data), (Some mb, Some data)}"
    and "r = None \<Longrightarrow> store_files s' = (Some mb, Some data)"
proof -
  obtain fs1 r1 where w1: "writeFileSync (ssFS s) (tmpDataPath s) data = (fs1, r1)" by force
  obtain fs2 r2 where p1: "replaceFile fs1 (tmpDataPath s) (dataPath s) = (fs2, r2)" by force
  obtain fs3 r3 where w2: "writeFileSync fs2 (tmpMetaPath s) mb = (fs3, r3)" by force
  obtain fs4 r4 where p2: "replaceFile fs3 (tmpMetaPath s) (metaPath s) = (fs4, r4)" by force
  note u1 = writeFileSync_spec[OF w1]
  have "stop_faults fs1" using stop u1(1) by (simp add: stop_faults_def)
  note u2 = replaceFile_spec[OF p1 this]
  note u3 = writeFileSync_spec[OF w2]
  have "r1 = None \<Longrightarrow> stop_faults fs3" using stop u1 u2 u3(1) by (simp add: stop_faults_def)
  note u4 = replaceFile_spec[OF p2 this]
  note ret = save[unfolded Save_def data meta sum.case w1 prod.case p1 w2 p2]
  show "ssDir s' = ssDir s" using ret by (auto split: option.splits)
  show "store_files s' \<in> {store_files s, (fst (store_files s), Some data), (Some mb, Some data)}"
    "r = None \<Longrightarrow> store_files s' = (Some mb, Some data)"
    using ret u1(2,3) u2(2-4) u3(2,3) u4(2-4)
    by (auto simp: store_files_def split: option.splits)
qed

lemma Save_files_no_meta:
  assumes save: "Save C s snap meta = (s', r)" and stop: "stop_faults (ssFS s)"
    and data: "Marshal C snap = Inr data" and meta: "encMeta C meta = Inl err"
  shows "store_files s' \<in> {store_files s, (fst (store_files s), Some data)}"
proof -
  obtain fs1 r1 where w1: "writeFileSync (ssFS s) (tmpDataPath s) data = (fs1, r1)" by force
  obtain fs2 r2 where p1: "replaceFile fs1 (tmpDataPath s) (dataPath s) = (fs2, r2)" by force
  note u1 = writeFileSync_spec[OF w1]
  have "stop_faults fs1" using stop u1(1) by (simp add: stop_faults_def)
  note u2 = replaceFile_spec[OF p1 this]
  note ret = save[unfolded Save_def data meta sum.case w1 prod.case p1]
  show ?thesis
    using ret u1(2,3) u2(2-4) by (auto simp: store_files_def split: option.splits)
qed

lemma LoadLatest_restart:
  "snd (LoadLatest C (restart_store s)) =
     (case store_files s of
        (None, d) \<Rightarrow> Inr None
      | (Some mb, d) \<Rightarrow>
          (case decMeta C mb of Inl err \<Rightarrow> Inl err
           | Inr meta \<Rightarrow> (case d of None \<Rightarrow> Inl ErrNotExist
               | Some data \<Rightarrow> (case UnmarshalSnapshot C data of Inl err \<Rightarrow> Inl err
                   | Inr snap \<Rightarrow> Inr (Some (snap, meta))))))"
  by (auto simp: LoadLatest_def restart_store_def store_files_def os_ReadFile_def fs_fault_def fs_at_def
      split: option.splits sum.splits)

end
