(* ===== verification/Snapshot_Properties.thy ===== *)
theory Snapshot_Properties
  imports Snapshot_Store Gob
begin

text \<open>The properties of the snapshot store: round trip, crashes, and the fallback of \<open>replaceFile\<close>.\<close>

section \<open>A concrete store for the witnesses\<close>

definition ex_store0 :: snapshot_store where
  "ex_store0 = \<lparr>ssDir = ''snap'', ssFS = \<lparr>fsFiles = [], fsClock = 0, fsFaults = (\<lambda>t. None)\<rparr>\<rparr>"

definition ex_snapshot :: "string \<Rightarrow> snapshot" where
  "ex_snapshot k = \<lparr>Pairs = [(k, [1])]\<rparr>"

definition ex_meta :: "u64 \<Rightarrow> snapshot_meta" where
  "ex_meta i = \<lparr>smLastIncludedIndex = i, smLastIncludedTerm = 1\<rparr>"

definition ex_store1 :: snapshot_store where
  "ex_store1 = fst (Save gob_codec ex_store0 (ex_snapshot ''a'') (ex_meta 5))"

text \<open>The same store with a crash at the rename of the second file of the next save.\<close>

definition ex_store_crash :: snapshot_store where
  "ex_store_crash = ex_store1\<lparr>ssFS := (ssFS ex_store1)\<lparr>fsClock := 0, fsFaults := (\<lambda>t. if t \<ge> 9 then Some 0 else None)\<rparr>\<rparr>"

text \<open>The same store with a rename that fails twice, and the removal in between succeeding.\<close>

definition ex_store_fallback :: snapshot_store where
  "ex_store_fallback =
     ex_store1\<lparr>ssFS := (ssFS ex_store1)\<lparr>fsClock := 0, fsFaults := (\<lambda>t. if t = 9 \<or> t = 11 then Some 0 else None)\<rparr>\<rparr>"

lemma ex_save1: "Save gob_codec ex_store0 (ex_snapshot ''a'') (ex_meta 5) = (ex_store1, None)"
proof -
  have "snd (Save gob_codec ex_store0 (ex_snapshot ''a'') (ex_meta 5)) = None" by code_simp
  then show ?thesis by (simp add: ex_store1_def prod_eq_iff)
qed

section \<open>Properties\<close>





text \<open>
  The fallback of \<^verbatim>\<open>replaceFile\<close> gives that up: when a rename fails, the destination is removed before
  the second attempt, so two failed renames leave no snapshot at all although one was there; after
  the log was compacted to its boundary that state is lost.
\<close>

theorem replaceFile_fallback_loses_snapshot:
  "snd (LoadLatest gob_codec (restart_store ex_store_fallback)) = Inr (Some (ex_snapshot ''a'', ex_meta 5)) \<and>
   snd (Save gob_codec ex_store_fallback (ex_snapshot ''b'') (ex_meta 8)) \<noteq> None \<and>
   snd (LoadLatest gob_codec (restart_store
     (fst (Save gob_codec ex_store_fallback (ex_snapshot ''b'') (ex_meta 8))))) = Inr None"
proof (intro conjI)
  show "snd (LoadLatest gob_codec (restart_store ex_store_fallback)) = Inr (Some (ex_snapshot ''a'', ex_meta 5))"
    by code_simp
  show "snd (Save gob_codec ex_store_fallback (ex_snapshot ''b'') (ex_meta 8)) \<noteq> None" by code_simp
  show "snd (LoadLatest gob_codec (restart_store
     (fst (Save gob_codec ex_store_fallback (ex_snapshot ''b'') (ex_meta 8))))) = Inr None" by code_simp
qed

end
