(* ===== verification/Raft_Node.thy ===== *)
theory Raft_Node
  imports Snapshot_Store Persistent_Log_Proofs
begin

text \<open>
  The node of \<^verbatim>\<open>internal/raft/state.go\<close>, its construction, the role changes of
  \<^verbatim>\<open>node_lifecycle.go\<close> and the bookkeeping of blocked callers (\<^verbatim>\<open>propose.go\<close>, \<^verbatim>\<open>readindex.go\<close>). A
  definition takes the node and returns the changed node; what runs while the node's mutex is held
  is one definition, and a function of the source that releases the mutex is composed of such
  sections.
\<close>

section \<open>state.go\<close>

record peer_info =
  piID :: string

text \<open>A \<^verbatim>\<open>time.Duration\<close> is an \<^verbatim>\<open>int64\<close> of nanoseconds; \<^const>\<open>sint\<close> reads it.\<close>

type_synonym duration = "64 word"

record options =
  ElectionTimeoutMin :: duration
  ElectionTimeoutMax :: duration
  HeartbeatInterval :: duration
  SnapshotThreshold :: u64
  ReplicationBatchMaxEntries :: int
  FsyncOnAppend :: bool

record pending_read =
  readIndex :: u64
  doneChan :: nat

text \<open>
  Channels are numbered as they are made. \<open>nBuffers\<close> holds what was sent on a channel of
  \<^verbatim>\<open>writeWaiters\<close> (\<open>None\<close> is \<^verbatim>\<open>nil\<close>); \<open>nClosed\<close> the channels of \<^verbatim>\<open>pendingReads\<close> that were closed. The
  two signalling channels of capacity 1 are flags, and so is \<^verbatim>\<open>stopCh\<close>.
\<close>

record 'd node =
  nID :: string
  nPeers :: "peer_info list"
  nOpts :: options
  nLog :: "'d plog"
  nSM :: "'d state_machine"
  nSnapStore :: snapshot_store
  nRole :: role
  nCommitIndex :: u64
  nLastApplied :: u64
  nNextIndex :: "(string, u64) gomap"
  nMatchIndex :: "(string, u64) gomap"
  nLeaderID :: string
  nLeaderClientAddr :: string
  nSelfClientAddr :: string
  nElectionReset :: bool
  nCommitAdvanced :: bool
  nPendingReads :: "pending_read list"
  nWriteWaiters :: "(u64, nat) gomap"
  nStopped :: bool
  nNextChan :: nat
  nBuffers :: "(nat, goerror option list) gomap"
  nClosed :: "nat list"

text \<open>
  The node is built on the engine state \<open>d\<close> of the log; \<^const>\<open>None\<close> is a panic of
  \<^const>\<open>OpenPersistentLog\<close> on a corrupt store.
\<close>

definition NewNode ::
    "'d engine \<Rightarrow> codec \<Rightarrow> string \<Rightarrow> peer_info list \<Rightarrow> options \<Rightarrow> 'd \<Rightarrow> 'd state_machine \<Rightarrow> snapshot_store \<Rightarrow>
     string \<Rightarrow> (goerror + 'd node) option" where
  "NewNode E C nid peers opts d sm snapStore selfClientAddr =
     (case OpenPersistentLog E d of
        None \<Rightarrow> None
      | Some (Inl err) \<Rightarrow> Some (Inl err)
      | Some (Inr pl) \<Rightarrow>
          let n = \<lparr>nID = nid, nPeers = peers, nOpts = opts, nLog = pl, nSM = sm,
                   nSnapStore = snapStore, nRole = Follower, nCommitIndex = 0, nLastApplied = 0,
                   nNextIndex = [], nMatchIndex = [], nLeaderID = [], nLeaderClientAddr = [],
                   nSelfClientAddr = selfClientAddr, nElectionReset = False, nCommitAdvanced = False,
                   nPendingReads = [], nWriteWaiters = [], nStopped = False, nNextChan = 0,
                   nBuffers = [], nClosed = []\<rparr>
          in (case LoadLatest C snapStore of
                (st, Inl err) \<Rightarrow> Some (Inl err)
              | (st, Inr None) \<Rightarrow> Some (Inr (n\<lparr>nSnapStore := st\<rparr>))
              | (st, Inr (Some (snap, meta))) \<Rightarrow>
                  (case Restore E sm snap (smLastIncludedIndex meta) of
                     (sm', Some err) \<Rightarrow> Some (Inl err)
                   | (sm', None) \<Rightarrow>
                       Some (Inr (n\<lparr>nSnapStore := st, nSM := sm',
                         nLastApplied := smLastIncludedIndex meta,
                         nCommitIndex := smLastIncludedIndex meta\<rparr>)))))"

definition Node_CurrentTerm :: "'d node \<Rightarrow> u64" where
  "Node_CurrentTerm n = currentTerm (nLog n)"

definition IsLeader :: "'d node \<Rightarrow> bool" where
  "IsLeader n = (nRole n = Leader)"

definition LeaderHint :: "'d node \<Rightarrow> string" where
  "LeaderHint n = nLeaderClientAddr n"

section \<open>Blocked callers\<close>

text \<open>Making a channel for a waiter, and sending on it.\<close>

definition make_chan :: "'d node \<Rightarrow> nat \<times> 'd node" where
  "make_chan n = (nNextChan n, n\<lparr>nNextChan := Suc (nNextChan n)\<rparr>)"

definition chan_buffer :: "'d node \<Rightarrow> nat \<Rightarrow> goerror option list" where
  "chan_buffer n ch = (case map_of (nBuffers n) ch of None \<Rightarrow> [] | Some b \<Rightarrow> b)"

definition chan_send :: "nat \<Rightarrow> goerror option \<Rightarrow> 'd node \<Rightarrow> 'd node" where
  "chan_send ch v n = n\<lparr>nBuffers := AList.update ch (chan_buffer n ch @ [v]) (nBuffers n)\<rparr>"

definition notifyWritersLocked :: "'d node \<Rightarrow> u64 \<Rightarrow> 'd node" where
  "notifyWritersLocked n appliedIndex =
     (case map_of (nWriteWaiters n) appliedIndex of
        Some ch \<Rightarrow>
          (chan_send ch None n)\<lparr>nWriteWaiters := AList.delete appliedIndex (nWriteWaiters n)\<rparr>
      | None \<Rightarrow> n)"

definition failStaleWritersLocked :: "'d node \<Rightarrow> 'd node" where
  "failStaleWritersLocked n =
     fold (\<lambda>(idx, ch) n. (chan_send ch (Some ErrProposalDropped) n)\<lparr>nWriteWaiters :=
         AList.delete idx (nWriteWaiters n)\<rparr>) (nWriteWaiters n) n"

definition satisfyPendingReadsLocked :: "'d node \<Rightarrow> 'd node" where
  "satisfyPendingReadsLocked n =
     (if nPendingReads n = [] then n
      else n\<lparr>nClosed := nClosed n @ map doneChan
               (filter (\<lambda>pr. nLastApplied n \<ge> readIndex pr) (nPendingReads n)),
             nPendingReads := filter (\<lambda>pr. \<not> nLastApplied n \<ge> readIndex pr) (nPendingReads n)\<rparr>)"

section \<open>node\_lifecycle.go: signals and role changes\<close>

definition resetElectionTimer :: "'d node \<Rightarrow> 'd node" where
  "resetElectionTimer n = n\<lparr>nElectionReset := True\<rparr>"

definition unlockedResetElectionTimer :: "'d node \<Rightarrow> 'd node" where
  "unlockedResetElectionTimer n = n\<lparr>nElectionReset := True\<rparr>"

definition signalCommitAdvanced :: "'d node \<Rightarrow> 'd node" where
  "signalCommitAdvanced n = n\<lparr>nCommitAdvanced := True\<rparr>"

text \<open>A call \<^verbatim>\<open>_ = n.log.SetTermAndVote(...)\<close>: the error is dropped.\<close>

definition set_term_and_vote :: "'d engine \<Rightarrow> u64 \<Rightarrow> string \<Rightarrow> 'd node \<Rightarrow> 'd node" where
  "set_term_and_vote E term vote n = n\<lparr>nLog := fst (SetTermAndVote E (nLog n) term vote)\<rparr>"

definition becomeFollower :: "'d engine \<Rightarrow> 'd node \<Rightarrow> u64 \<Rightarrow> string \<Rightarrow> string \<Rightarrow> 'd node" where
  "becomeFollower E n term leader addr =
     (let wasLeader = (nRole n = Leader);
          n = n\<lparr>nRole := Follower, nLeaderID := leader, nLeaderClientAddr := addr\<rparr>;
          n = (if wasLeader then failStaleWritersLocked n else n)
      in if term > currentTerm (nLog n) then set_term_and_vote E term [] n else n)"

text \<open>
  \<^verbatim>\<open>becomeCandidate\<close> reads the term, and then sets the term, the vote and the role. Nothing is locked
  between the read and the write, so the second part is a definition of its own.
\<close>

definition becomeCandidate_set :: "'d engine \<Rightarrow> u64 \<Rightarrow> 'd node \<Rightarrow> 'd node" where
  "becomeCandidate_set E newTerm n =
     (let n = set_term_and_vote E newTerm (nID n) n
      in n\<lparr>nRole := Candidate, nLeaderID := [], nLeaderClientAddr := []\<rparr>)"

definition becomeCandidate :: "'d engine \<Rightarrow> 'd node \<Rightarrow> 'd node \<times> u64" where
  "becomeCandidate E n =
     (let newTerm = currentTerm (nLog n) + 1
      in (becomeCandidate_set E newTerm n, newTerm))"

text \<open>
  The part of \<^verbatim>\<open>becomeLeader\<close> under the mutex; the flag says whether the node became leader.
\<close>

definition becomeLeader_locked :: "'d node \<Rightarrow> 'd node \<times> bool" where
  "becomeLeader_locked n =
     (if nRole n \<noteq> Candidate then (n, False)
      else
        let lastIdx = lastIndex (nLog n)
        in (foldl (\<lambda>n p. n\<lparr>nNextIndex := AList.update (piID p) (lastIdx + 1) (nNextIndex n),
                          nMatchIndex := AList.update (piID p) 0 (nMatchIndex n)\<rparr>)
             (n\<lparr>nRole := Leader, nLeaderID := nID n, nLeaderClientAddr := nSelfClientAddr n\<rparr>)
             (nPeers n), True))"

text \<open>\<^verbatim>\<open>Stop\<close> closes \<^verbatim>\<open>stopCh\<close> the first time it is called.\<close>

definition Stop :: "'d node \<Rightarrow> 'd node" where
  "Stop n = (if nStopped n then n else n\<lparr>nStopped := True\<rparr>)"

section \<open>The transport\<close>

text \<open>
  \<^verbatim>\<open>Transport\<close> is an interface whose implementation calls gRPC. A call blocks without the mutex, so
  other goroutines may change the node meanwhile: a call gets the node and returns the node as they
  left it, with the error or the response.
\<close>

record 'd transport =
  tRequestVote :: "string \<Rightarrow> request_vote_request \<Rightarrow> 'd node \<Rightarrow> 'd node \<times> (goerror + request_vote_response)"
  tAppendEntries ::
    "string \<Rightarrow> append_entries_request \<Rightarrow> 'd node \<Rightarrow> 'd node \<times> (goerror + append_entries_response)"
  tInstallSnapshot ::
    "string \<Rightarrow> install_snapshot_request \<Rightarrow> 'd node \<Rightarrow> 'd node \<times> (goerror + install_snapshot_response)"

end
