(* ===== verification/Snapshotting.thy ===== *)
theory Snapshotting
  imports Raft_Node
begin

text \<open>
  The node's part of \<^verbatim>\<open>internal/raft/snapshot.go\<close>: taking a snapshot and compacting the log, pushing a
  snapshot to a follower, installing a pushed one. A result \<^const>\<open>None\<close> is a call that does not
  return.
\<close>

definition maybeSnapshot :: "'d engine \<Rightarrow> codec \<Rightarrow> 'd node \<Rightarrow> u64 \<Rightarrow> 'd node option" where
  "maybeSnapshot E C n appliedIndex =
     (let (st, r) = LoadLatest C (nSnapStore n); n = n\<lparr>nSnapStore := st\<rparr>
      in if (case r of Inr (Some (snap, meta)) \<Rightarrow> smLastIncludedIndex meta \<ge> appliedIndex | _ \<Rightarrow> False)
         then Some n
         else
           (case TermAt E C (nLog n) appliedIndex of
              None \<Rightarrow> Some n
            | Some term \<Rightarrow>
                (case Dump E (nSM n) of
                   None \<Rightarrow> None
                 | Some (Inl err) \<Rightarrow> Some n
                 | Some (Inr dump) \<Rightarrow>
                     (case Save C (nSnapStore n) dump
                             \<lparr>smLastIncludedIndex = appliedIndex, smLastIncludedTerm = term\<rparr> of
                        (st, Some err) \<Rightarrow> Some (n\<lparr>nSnapStore := st\<rparr>)
                      | (st, None) \<Rightarrow>
                          map_option (\<lambda>(pl, err). n\<lparr>nSnapStore := st, nLog := pl\<rparr>)
                            (CompactPrefix E (nLog n) appliedIndex term)))))"

text \<open>The request of \<^verbatim>\<open>sendInstallSnapshot\<close>, if there is a snapshot to send.\<close>

definition sendInstallSnapshot_request ::
    "codec \<Rightarrow> 'd node \<Rightarrow> u64 \<Rightarrow> 'd node \<times> install_snapshot_request option" where
  "sendInstallSnapshot_request C n term =
     (case LoadLatest C (nSnapStore n) of
        (st, Inr (Some (snap, meta))) \<Rightarrow>
          (n\<lparr>nSnapStore := st\<rparr>,
           case Marshal C snap of
             Inl err \<Rightarrow> None
           | Inr data \<Rightarrow>
               Some \<lparr>isTerm = term, isLeaderID = nID n,
                     isLastIncludedIndex = smLastIncludedIndex meta,
                     isLastIncludedTerm = smLastIncludedTerm meta, isData = data\<rparr>)
      | (st, r) \<Rightarrow> (n\<lparr>nSnapStore := st\<rparr>, None))"

text \<open>What it does with the response.\<close>

definition sendInstallSnapshot_response ::
    "'d engine \<Rightarrow> 'd node \<Rightarrow> string \<Rightarrow> u64 \<Rightarrow> u64 \<Rightarrow> install_snapshot_response \<Rightarrow> 'd node" where
  "sendInstallSnapshot_response E n peerID term li resp =
     (if isrTerm resp > term then becomeFollower E n (isrTerm resp) [] []
      else if nRole n = Leader \<and> currentTerm (nLog n) = term
      then n\<lparr>nNextIndex := AList.update peerID (li + 1) (nNextIndex n),
             nMatchIndex := AList.update peerID li (nMatchIndex n)\<rparr>
      else n)"

definition sendInstallSnapshot ::
    "'d engine \<Rightarrow> codec \<Rightarrow> 'd transport \<Rightarrow> 'd node \<Rightarrow> string \<Rightarrow> u64 \<Rightarrow> 'd node" where
  "sendInstallSnapshot E C T n peerID term =
     (case sendInstallSnapshot_request C n term of
        (n, None) \<Rightarrow> n
      | (n, Some req) \<Rightarrow>
          (case tInstallSnapshot T peerID req n of
             (n, Inl err) \<Rightarrow> n
           | (n, Inr resp) \<Rightarrow>
               sendInstallSnapshot_response E n peerID term (isLastIncludedIndex req) resp))"

text \<open>
  The handler after its term check. Every path answers with the same term, so this part returns the
  node alone: a stale or duplicate snapshot, one that does not decode and one that cannot be saved
  leave the state machine and the log as they are.
\<close>

definition install_snapshot ::
    "'d engine \<Rightarrow> codec \<Rightarrow> 'd node \<Rightarrow> install_snapshot_request \<Rightarrow> 'd node option" where
  "install_snapshot E C n req =
     (let (st, r) = LoadLatest C (nSnapStore n); n = n\<lparr>nSnapStore := st\<rparr>
      in if (case r of Inr (Some (snap, meta)) \<Rightarrow> smLastIncludedIndex meta \<ge> isLastIncludedIndex req
             | _ \<Rightarrow> False)
         then Some n
         else
           (case UnmarshalSnapshot C (isData req) of
              Inl err \<Rightarrow> Some n
            | Inr snap \<Rightarrow>
                (case Save C (nSnapStore n) snap
                        \<lparr>smLastIncludedIndex = isLastIncludedIndex req,
                         smLastIncludedTerm = isLastIncludedTerm req\<rparr> of
                   (st, Some err) \<Rightarrow> Some (n\<lparr>nSnapStore := st\<rparr>)
                 | (st, None) \<Rightarrow>
                     (case Restore E (nSM n) snap (isLastIncludedIndex req) of
                        (sm, Some err) \<Rightarrow> Some (n\<lparr>nSnapStore := st, nSM := sm\<rparr>)
                      | (sm, None) \<Rightarrow>
                          map_option (\<lambda>(pl, err).
                              let n = n\<lparr>nSnapStore := st, nSM := sm, nLog := pl\<rparr>
                              in if err \<noteq> None then n
                                 else n\<lparr>nLastApplied := isLastIncludedIndex req,
                                        nCommitIndex := isLastIncludedIndex req\<rparr>)
                            (RestoreSnapshotBoundary E (nLog n) (isLastIncludedIndex req)
                               (isLastIncludedTerm req))))))"

definition HandleInstallSnapshot ::
    "'d engine \<Rightarrow> codec \<Rightarrow> 'd node \<Rightarrow> install_snapshot_request \<Rightarrow>
     ('d node \<times> install_snapshot_response) option" where
  "HandleInstallSnapshot E C n req =
     (let curTerm = currentTerm (nLog n)
      in if isTerm req < curTerm then Some (n, \<lparr>isrTerm = curTerm\<rparr>)
         else
           let n = (if isTerm req > curTerm then set_term_and_vote E (isTerm req) [] n else n);
               curTerm = (if isTerm req > curTerm then isTerm req else curTerm);
               n = n\<lparr>nRole := Follower, nLeaderID := isLeaderID req\<rparr>;
               n = resetElectionTimer n
           in map_option (\<lambda>n. (n, \<lparr>isrTerm = curTerm\<rparr>)) (install_snapshot E C n req))"

end
