(* ===== verification/Replication.thy ===== *)
theory Replication
  imports Snapshotting
begin

text \<open>
  \<^verbatim>\<open>internal/raft/replication.go\<close>: the leader's appends and broadcasts, its commitment rule, and the
  follower's handler of \<^verbatim>\<open>AppendEntries\<close>.
\<close>

section \<open>The leader\<close>

definition appendLocal :: "'d engine \<Rightarrow> codec \<Rightarrow> 'd node \<Rightarrow> entry \<Rightarrow> ('d node \<times> entry) option" where
  "appendLocal E C n e =
     (let e = e\<lparr>eTerm := currentTerm (nLog n)\<rparr>;
          e = e\<lparr>eIndex := lastIndex (nLog n) + 1\<rparr>
      in map_option (\<lambda>(pl, err). (n\<lparr>nLog := pl\<rparr>, e))
           (AppendEntries E C (nLog n) [e] (FsyncOnAppend (nOpts n))))"

text \<open>
  What \<^verbatim>\<open>replicateToPeer\<close> decides to do before its RPC: nothing (no longer leader), a snapshot, or an
  \<^verbatim>\<open>AppendEntries\<close> request.
\<close>

datatype outgoing = SendNothing | SendSnapshot | SendAppend append_entries_request

text \<open>The entries of the request: those the follower lacks, at most one batch of them.\<close>

definition replicate_entries ::
    "'d engine \<Rightarrow> codec \<Rightarrow> 'd node \<Rightarrow> u64 \<Rightarrow> (goerror + entry list) option" where
  "replicate_entries E C n nextIdx =
     (let lastIdx = lastIndex (nLog n)
      in if lastIdx \<ge> nextIdx
         then let maxBatch = of_int (ReplicationBatchMaxEntries (nOpts n));
                  end' = (if maxBatch > 0 \<and> lastIdx - nextIdx + 1 > maxBatch
                          then nextIdx + maxBatch - 1 else lastIdx)
              in Log_Range E C (nLog n) nextIdx end'
         else Some (Inr []))"

definition replicateToPeer_request ::
    "'d engine \<Rightarrow> codec \<Rightarrow> 'd node \<Rightarrow> string \<Rightarrow> u64 \<Rightarrow> outgoing option" where
  "replicateToPeer_request E C n peerID term =
     (if nRole n \<noteq> Leader \<or> currentTerm (nLog n) \<noteq> term then Some SendNothing
      else
        let nextIdx = lookup0 (nNextIndex n) peerID
        in if nextIdx < firstIndex (nLog n) then Some SendSnapshot
           else
             let prevLogIndex = nextIdx - 1; prevLogTerm = TermAt E C (nLog n) prevLogIndex
             in if prevLogTerm = None \<and> prevLogIndex \<noteq> 0 then Some SendSnapshot
                else
                  map_option (\<lambda>r. case r of
                      Inl err \<Rightarrow> SendSnapshot
                    | Inr es \<Rightarrow>
                        SendAppend \<lparr>aeTerm = term, aeLeaderID = nID n, aePrevLogIndex = prevLogIndex,
                          aePrevLogTerm = (case prevLogTerm of None \<Rightarrow> 0 | Some t \<Rightarrow> t), aeEntries = es,
                          aeLeaderCommit = nCommitIndex n, aeLeaderClientAddr = nSelfClientAddr n\<rparr>)
                    (replicate_entries E C n nextIdx))"

text \<open>
  The search of \<^verbatim>\<open>replicateToPeer\<close> for the leader's last entry in the follower's conflicting term:
  \<open>idx\<close> counts down from the last index while it is not below the first.
\<close>

function conflict_search :: "'d engine \<Rightarrow> codec \<Rightarrow> 'd plog \<Rightarrow> u64 \<Rightarrow> u64 \<Rightarrow> u64 \<Rightarrow> u64" where
  "conflict_search E C pl conflictTerm idx newNext =
     (if idx \<ge> firstIndex pl \<and> idx > 0
      then (case TermAt E C pl idx of
              None \<Rightarrow> newNext
            | Some t \<Rightarrow>
                if t = conflictTerm then idx + 1
                else if t < conflictTerm then newNext
                else conflict_search E C pl conflictTerm (idx - 1) newNext)
      else newNext)"
  by pat_completeness auto
termination
  by (relation "measure (\<lambda>(E, C, pl, ct, idx, nn). unat idx)")
    (auto dest: unat_pred_less)

declare conflict_search.simps [simp del]

definition replicateToPeer_response ::
    "'d engine \<Rightarrow> codec \<Rightarrow> 'd node \<Rightarrow> string \<Rightarrow> u64 \<Rightarrow> entry list \<Rightarrow> append_entries_response \<Rightarrow> 'd node" where
  "replicateToPeer_response E C n peerID term entries resp =
     (if aerTerm resp > term then becomeFollower E n (aerTerm resp) [] []
      else if nRole n \<noteq> Leader \<or> currentTerm (nLog n) \<noteq> term then n
      else if aerSuccess resp
      then (if length entries > 0
            then n\<lparr>nMatchIndex := AList.update peerID (eIndex (last entries)) (nMatchIndex n),
                   nNextIndex := AList.update peerID (eIndex (last entries) + 1) (nNextIndex n)\<rparr>
            else n)
      else if aerConflictTerm resp \<noteq> 0
      then let newNext = conflict_search E C (nLog n) (aerConflictTerm resp) (lastIndex (nLog n))
                 (aerConflictIndex resp);
               newNext = (if newNext < 1 then 1 else newNext)
           in n\<lparr>nNextIndex := AList.update peerID newNext (nNextIndex n)\<rparr>
      else if aerConflictIndex resp > 0
      then n\<lparr>nNextIndex := AList.update peerID (aerConflictIndex resp) (nNextIndex n)\<rparr>
      else if lookup0 (nNextIndex n) peerID > 1
      then n\<lparr>nNextIndex := AList.update peerID (lookup0 (nNextIndex n) peerID - 1) (nNextIndex n)\<rparr>
      else n)"

definition replicateToPeer ::
    "'d engine \<Rightarrow> codec \<Rightarrow> 'd transport \<Rightarrow> 'd node \<Rightarrow> string \<Rightarrow> u64 \<Rightarrow> 'd node option" where
  "replicateToPeer E C T n peerID term =
     map_option (\<lambda>out. case out of
         SendNothing \<Rightarrow> n
       | SendSnapshot \<Rightarrow> sendInstallSnapshot E C T n peerID term
       | SendAppend req \<Rightarrow>
           (case tAppendEntries T peerID req n of
              (n, Inl err) \<Rightarrow> n
            | (n, Inr resp) \<Rightarrow> replicateToPeer_response E C n peerID term (aeEntries req) resp))
       (replicateToPeer_request E C n peerID term)"

definition match_indexes :: "'d node \<Rightarrow> u64 list" where
  "match_indexes n = lastIndex (nLog n) # map (\<lambda>p. lookup0 (nMatchIndex n) (piID p)) (nPeers n)"

definition majority_index :: "'d node \<Rightarrow> u64" where
  "majority_index n = sort (match_indexes n) ! ((length (match_indexes n) - 1) div 2)"

definition tryAdvanceCommitIndex :: "'d engine \<Rightarrow> codec \<Rightarrow> 'd node \<Rightarrow> u64 \<Rightarrow> 'd node" where
  "tryAdvanceCommitIndex E C n term =
     (if nRole n \<noteq> Leader \<or> currentTerm (nLog n) \<noteq> term then n
      else if majority_index n \<le> nCommitIndex n then n
      else if TermAt E C (nLog n) (majority_index n) \<noteq> Some term then n
      else signalCommitAdvanced (n\<lparr>nCommitIndex := majority_index n\<rparr>))"

text \<open>The peers are served one after the other; what happens meanwhile is the transport's.\<close>

fun replicate_to_peers ::
    "'d engine \<Rightarrow> codec \<Rightarrow> 'd transport \<Rightarrow> peer_info list \<Rightarrow> u64 \<Rightarrow> 'd node \<Rightarrow> 'd node option" where
  "replicate_to_peers E C T [] term n = Some n"
| "replicate_to_peers E C T (p # ps) term n =
     Option.bind (replicateToPeer E C T n (piID p) term) (replicate_to_peers E C T ps term)"

definition broadcastAppendEntries ::
    "'d engine \<Rightarrow> codec \<Rightarrow> 'd transport \<Rightarrow> 'd node \<Rightarrow> 'd node option" where
  "broadcastAppendEntries E C T n =
     (if \<not> IsLeader n then Some n
      else
        let term = currentTerm (nLog n)
        in map_option (\<lambda>n. tryAdvanceCommitIndex E C n term)
             (replicate_to_peers E C T (nPeers n) term n))"

section \<open>The follower\<close>

text \<open>The section of \<^verbatim>\<open>HandleAppendEntries\<close> under the mutex, with the response to a stale term.\<close>

definition HandleAppendEntries_term ::
    "'d engine \<Rightarrow> 'd node \<Rightarrow> append_entries_request \<Rightarrow> 'd node + 'd node \<times> u64" where
  "HandleAppendEntries_term E n req =
     (let curTerm = currentTerm (nLog n)
      in if aeTerm req < curTerm then Inl n
         else
           let (n, curTerm) =
                 (if aeTerm req > curTerm
                  then (set_term_and_vote E (aeTerm req) []
                          ((if nRole n = Leader then failStaleWritersLocked n else n)\<lparr>nRole := Follower\<rparr>),
                        aeTerm req)
                  else if nRole n = Candidate then (n\<lparr>nRole := Follower\<rparr>, curTerm)
                  else (n, curTerm));
               n = n\<lparr>nLeaderID := aeLeaderID req, nLeaderClientAddr := aeLeaderClientAddr req\<rparr>
           in Inr (resetElectionTimer n, curTerm))"

text \<open>The first index of the run of the conflicting term that ends at the conflicting index.\<close>

function conflict_start :: "'d engine \<Rightarrow> codec \<Rightarrow> 'd plog \<Rightarrow> u64 \<Rightarrow> u64 \<Rightarrow> u64" where
  "conflict_start E C pl conflictTerm conflictIndex =
     (if conflictIndex > firstIndex pl \<and> TermAt E C pl (conflictIndex - 1) = Some conflictTerm
      then conflict_start E C pl conflictTerm (conflictIndex - 1)
      else conflictIndex)"
  by pat_completeness auto
termination
  by (relation "measure (\<lambda>(E, C, pl, ct, ci). unat ci)")
    (auto dest: unat_pred_less)

declare conflict_start.simps [simp del]

text \<open>The log consistency check: the refusing response, if it refuses.\<close>

definition consistency_check ::
    "'d engine \<Rightarrow> codec \<Rightarrow> 'd plog \<Rightarrow> append_entries_request \<Rightarrow> u64 \<Rightarrow> append_entries_response option" where
  "consistency_check E C pl req curTerm =
     (if aePrevLogIndex req > 0
      then (case TermAt E C pl (aePrevLogIndex req) of
              None \<Rightarrow> Some \<lparr>aerTerm = curTerm, aerSuccess = False, aerConflictTerm = 0,
                            aerConflictIndex = lastIndex pl + 1\<rparr>
            | Some myTerm \<Rightarrow>
                if myTerm \<noteq> aePrevLogTerm req
                then Some \<lparr>aerTerm = curTerm, aerSuccess = False, aerConflictTerm = myTerm,
                           aerConflictIndex = conflict_start E C pl myTerm (aePrevLogIndex req)\<rparr>
                else None)
      else None)"

definition advance_commit :: "'d node \<Rightarrow> u64 \<Rightarrow> 'd node" where
  "advance_commit n leaderCommit =
     (if leaderCommit > nCommitIndex n
      then let lastNew = lastIndex (nLog n);
               newCommit = (if leaderCommit > lastNew then lastNew else leaderCommit)
           in if newCommit > nCommitIndex n
              then signalCommitAdvanced (n\<lparr>nCommitIndex := newCommit\<rparr>) else n
      else n)"

definition ae_response :: "u64 \<Rightarrow> bool \<Rightarrow> append_entries_response" where
  "ae_response term ok =
     \<lparr>aerTerm = term, aerSuccess = ok, aerConflictTerm = 0, aerConflictIndex = 0\<rparr>"

definition HandleAppendEntries ::
    "'d engine \<Rightarrow> codec \<Rightarrow> 'd node \<Rightarrow> append_entries_request \<Rightarrow>
     ('d node \<times> append_entries_response) option" where
  "HandleAppendEntries E C n req =
     (case HandleAppendEntries_term E n req of
        Inl n \<Rightarrow> Some (n, ae_response (currentTerm (nLog n)) False)
      | Inr (n, curTerm) \<Rightarrow>
          (case consistency_check E C (nLog n) req curTerm of
             Some resp \<Rightarrow> Some (n, resp)
           | None \<Rightarrow>
               (if length (aeEntries req) > 0
                then Option.bind (AppendEntries E C (nLog n) (aeEntries req) (FsyncOnAppend (nOpts n)))
                  (\<lambda>(pl, err). Some
                     (let n = n\<lparr>nLog := pl\<rparr>
                      in if err \<noteq> None then (n, ae_response curTerm False)
                         else (advance_commit n (aeLeaderCommit req), ae_response curTerm True)))
                else Some (advance_commit n (aeLeaderCommit req), ae_response curTerm True))))"

end
