(* ===== verification/Election.thy ===== *)
theory Election
  imports Replication
begin

text \<open>
  \<^verbatim>\<open>internal/raft/election.go\<close> and \<^verbatim>\<open>becomeLeader\<close>: running an election and answering a vote request.
\<close>

section \<open>Answering a vote request\<close>

definition candidateLogUpToDateLocked :: "'d engine \<Rightarrow> codec \<Rightarrow> 'd node \<Rightarrow> u64 \<Rightarrow> u64 \<Rightarrow> bool" where
  "candidateLogUpToDateLocked E C n lastLogIndex lastLogTerm =
     (let myLastIndex = lastIndex (nLog n); myLastTerm = LastTerm E C (nLog n)
      in if lastLogTerm \<noteq> myLastTerm then lastLogTerm > myLastTerm else lastLogIndex \<ge> myLastIndex)"

definition HandleRequestVote ::
    "'d engine \<Rightarrow> codec \<Rightarrow> 'd node \<Rightarrow> request_vote_request \<Rightarrow> 'd node \<times> request_vote_response" where
  "HandleRequestVote E C n req =
     (let curTerm = currentTerm (nLog n)
      in if rvTerm req < curTerm then (n, \<lparr>rvrTerm = curTerm, rvrVoteGranted = False\<rparr>)
         else
           let (n, curTerm) =
                 (if rvTerm req > curTerm
                  then let n = (if nRole n = Leader then failStaleWritersLocked n else n);
                           n = n\<lparr>nRole := Follower, nLeaderID := [], nLeaderClientAddr := []\<rparr>
                       in (set_term_and_vote E (rvTerm req) [] n, rvTerm req)
                  else (n, curTerm));
               vote = votedFor (nLog n);
               logOK = candidateLogUpToDateLocked E C n (rvLastLogIndex req) (rvLastLogTerm req)
           in if (vote = [] \<or> vote = rvCandidateID req) \<and> logOK
              then (unlockedResetElectionTimer (set_term_and_vote E curTerm (rvCandidateID req) n),
                    \<lparr>rvrTerm = curTerm, rvrVoteGranted = True\<rparr>)
              else (n, \<lparr>rvrTerm = curTerm, rvrVoteGranted = False\<rparr>))"

section \<open>Running an election\<close>

definition becomeLeader ::
    "'d engine \<Rightarrow> codec \<Rightarrow> 'd transport \<Rightarrow> 'd node \<Rightarrow> 'd node option" where
  "becomeLeader E C T n =
     (case becomeLeader_locked n of
        (n, False) \<Rightarrow> Some n
      | (n, True) \<Rightarrow>
          Option.bind (appendLocal E C n \<lparr>eIndex = 0, eTerm = 0, eType = EntryNoop, eKey = [], eValue = [],
              eClientRequestID = []\<rparr>)
            (\<lambda>(n, e). broadcastAppendEntries E C T n))"

record vote_result =
  vrGranted :: bool
  vrHigherTerm :: u64

text \<open>The goroutine of one peer: its RPC and the result it sends.\<close>

definition vote_result_of :: "u64 \<Rightarrow> goerror + request_vote_response \<Rightarrow> vote_result" where
  "vote_result_of term r =
     (case r of
        Inl err \<Rightarrow> \<lparr>vrGranted = False, vrHigherTerm = 0\<rparr>
      | Inr resp \<Rightarrow>
          if rvrTerm resp > term then \<lparr>vrGranted = False, vrHigherTerm = rvrTerm resp\<rparr>
          else \<lparr>vrGranted = rvrVoteGranted resp, vrHigherTerm = 0\<rparr>)"

definition vote_request :: "'d engine \<Rightarrow> codec \<Rightarrow> 'd node \<Rightarrow> u64 \<Rightarrow> request_vote_request" where
  "vote_request E C n term =
     \<lparr>rvTerm = term, rvCandidateID = nID n, rvLastLogIndex = lastIndex (nLog n),
      rvLastLogTerm = LastTerm E C (nLog n)\<rparr>"

fun request_votes ::
    "'d transport \<Rightarrow> request_vote_request \<Rightarrow> peer_info list \<Rightarrow> 'd node \<Rightarrow> 'd node \<times> vote_result list" where
  "request_votes T req [] n = (n, [])"
| "request_votes T req (p # ps) n =
     (let (n, r) = tRequestVote T (piID p) req n; (n, rs) = request_votes T req ps n
      in (n, vote_result_of (rvTerm req) r # rs))"

text \<open>
  The counting loop. An event is a result taken from the channel, or the end of the context or of
  the node, or a step of another goroutine.
\<close>

datatype 'd election_event = VoteArrives vote_result | ElectionOver | OtherStep "'d node \<Rightarrow> 'd node"

record election =
  elVotes :: nat
  elResponses :: nat
  elWon :: bool

definition election_step ::
    "'d engine \<Rightarrow> u64 \<Rightarrow> 'd election_event \<Rightarrow> 'd node \<times> election \<Rightarrow> 'd node \<times> election" where
  "election_step E term ev = (\<lambda>(n, el).
     case ev of
       VoteArrives r \<Rightarrow>
         if vrHigherTerm r > term
         then (becomeFollower E n (vrHigherTerm r) [] [], el\<lparr>elResponses := length (nPeers n)\<rparr>)
         else if vrGranted r
         then let el = el\<lparr>elResponses := Suc (elResponses el), elVotes := Suc (elVotes el)\<rparr>
              in if elVotes el \<ge> (length (nPeers n) + 1) div 2 + 1 \<and> nRole n = Candidate \<and>
                    currentTerm (nLog n) = term
                 then (n, el\<lparr>elWon := True\<rparr>) else (n, el)
         else (n, el\<lparr>elResponses := Suc (elResponses el)\<rparr>)
     | ElectionOver \<Rightarrow> (n, el\<lparr>elResponses := length (nPeers n)\<rparr>)
     | OtherStep f \<Rightarrow> (f n, el))"

fun election_loop ::
    "'d engine \<Rightarrow> u64 \<Rightarrow> 'd election_event list \<Rightarrow> 'd node \<times> election \<Rightarrow> 'd node \<times> election" where
  "election_loop E term [] s = s"
| "election_loop E term (ev # evs) s =
     (if elResponses (snd s) < length (nPeers (fst s)) \<and> \<not> elWon (snd s)
      then election_loop E term evs (election_step E term ev s) else s)"

text \<open>
  \<open>sched\<close> is the order in which the results and the other events arrive, given the results.
\<close>

definition startElection ::
    "'d engine \<Rightarrow> codec \<Rightarrow> 'd transport \<Rightarrow> (vote_result list \<Rightarrow> 'd election_event list) \<Rightarrow> 'd node \<Rightarrow>
     'd node option" where
  "startElection E C T sched n =
     (let (n, term) = becomeCandidate E n;
          n = resetElectionTimer n;
          req = vote_request E C n term
      in if (length (nPeers n) + 1) div 2 + 1 = 1 then becomeLeader E C T n
         else
           let (n, rs) = request_votes T req (nPeers n) n;
               (n, el) = election_loop E term (sched rs) (n, \<lparr>elVotes = 1, elResponses = 0, elWon = False\<rparr>)
           in if elWon el \<and> nRole n = Candidate \<and> currentTerm (nLog n) = term
              then becomeLeader E C T n else Some n)"

end
