(* ===== verification/Client_Ops.thy ===== *)
theory Client_Ops
  imports Election
begin

text \<open>
  What a client's request meets: \<^verbatim>\<open>Propose\<close> of \<^verbatim>\<open>propose.go\<close>, the apply loop of
  \<^verbatim>\<open>node_lifecycle.go\<close>, and the reads of \<^verbatim>\<open>readindex.go\<close>.
\<close>

section \<open>Propose\<close>

text \<open>
  The section under the mutex: the error, or the index and the channel that the caller waits on.
\<close>

definition Propose_locked ::
    "'d engine \<Rightarrow> codec \<Rightarrow> 'd node \<Rightarrow> entry_type \<Rightarrow> string \<Rightarrow> bytes \<Rightarrow> string \<Rightarrow>
     ('d node \<times> (goerror + u64 \<times> nat)) option" where
  "Propose_locked E C n typ key v req =
     (if nRole n \<noteq> Leader then Some (n, Inl ErrNotLeader)
      else
        let e = \<lparr>eIndex = lastIndex (nLog n) + 1, eTerm = currentTerm (nLog n), eType = typ,
                 eKey = key, eValue = v, eClientRequestID = req\<rparr>;
            (ch, n) = make_chan n;
            n = n\<lparr>nWriteWaiters := AList.update (eIndex e) ch (nWriteWaiters n)\<rparr>
        in map_option (\<lambda>(pl, r).
             let n = n\<lparr>nLog := pl\<rparr>
             in case r of
                  Some err \<Rightarrow> (n\<lparr>nWriteWaiters := AList.delete (eIndex e) (nWriteWaiters n)\<rparr>, Inl err)
                | None \<Rightarrow> (n, Inr (eIndex e, ch)))
           (AppendEntries E C (nLog n) [e] (FsyncOnAppend (nOpts n))))"

text \<open>The three ways the final \<^verbatim>\<open>select\<close> of \<^verbatim>\<open>Propose\<close> is left.\<close>

datatype select_case = FromWaitCh | CtxDone goerror | FromStopCh

definition Propose_select ::
    "'d node \<Rightarrow> u64 \<Rightarrow> nat \<Rightarrow> select_case \<Rightarrow> 'd node \<times> goerror option" where
  "Propose_select n index ch sc =
     (case sc of
        FromWaitCh \<Rightarrow>
          (n\<lparr>nBuffers := AList.update ch (tl (chan_buffer n ch)) (nBuffers n)\<rparr>, hd (chan_buffer n ch))
      | CtxDone err \<Rightarrow> (n\<lparr>nWriteWaiters := AList.delete index (nWriteWaiters n)\<rparr>, Some err)
      | FromStopCh \<Rightarrow>
          (n\<lparr>nWriteWaiters := AList.delete index (nWriteWaiters n)\<rparr>,
           Some (ErrOther ''raft: node stopping'')))"

text \<open>
  The whole call: \<open>wait\<close> is what other goroutines do to the node while the call is blocked, and the
  case of the \<^verbatim>\<open>select\<close> that then fires.
\<close>

definition Propose ::
    "'d engine \<Rightarrow> codec \<Rightarrow> 'd transport \<Rightarrow> ('d node \<Rightarrow> 'd node \<times> select_case) \<Rightarrow> 'd node \<Rightarrow> entry_type \<Rightarrow> string \<Rightarrow>
     bytes \<Rightarrow> string \<Rightarrow> ('d node \<times> goerror option) option" where
  "Propose E C T wait n typ key v req =
     Option.bind (Propose_locked E C n typ key v req) (\<lambda>(n, r).
       case r of
         Inl err \<Rightarrow> Some (n, Some err)
       | Inr (index, ch) \<Rightarrow>
           map_option (\<lambda>n. let (n, sc) = wait n in Propose_select n index ch sc)
             (broadcastAppendEntries E C T n))"

section \<open>Applying committed entries\<close>

text \<open>The \<^verbatim>\<open>switch\<close> on the type of the entry.\<close>

definition apply_entry ::
    "'d engine \<Rightarrow> 'd state_machine \<Rightarrow> entry \<Rightarrow> 'd state_machine \<times> goerror option" where
  "apply_entry E s e =
     (if eType e = EntryPut then ApplyPut E s (eIndex e) (eKey e) (eValue e)
      else if eType e = EntryDelete then ApplyDelete E s (eIndex e) (eKey e)
      else if eType e = EntryNoop then (ApplyNoop s (eIndex e), None)
      else (s, None))"

text \<open>
  One iteration of the loop of \<^verbatim>\<open>applyCommitted\<close> at index \<open>applied\<close>; the flag says whether the loop
  goes on.
\<close>

definition apply_step :: "'d engine \<Rightarrow> codec \<Rightarrow> 'd node \<Rightarrow> u64 \<Rightarrow> ('d node \<times> bool) option" where
  "apply_step E C n applied =
     (case Log_Get E C (nLog n) applied of
        Inl err \<Rightarrow> Some (n, False)
      | Inr e \<Rightarrow>
          (case apply_entry E (nSM n) e of
             (sm, Some err) \<Rightarrow> Some (n\<lparr>nSM := sm\<rparr>, False)
           | (sm, None) \<Rightarrow>
               let n = n\<lparr>nSM := sm, nLastApplied := applied\<rparr>;
                   n = satisfyPendingReadsLocked (notifyWritersLocked n applied);
                   threshold = SnapshotThreshold (nOpts n)
               in if threshold > 0 \<and> applied mod threshold = 0
                  then map_option (\<lambda>n. (n, True)) (maybeSnapshot E C n applied)
                  else Some (n, True)))"

function apply_loop :: "'d engine \<Rightarrow> codec \<Rightarrow> u64 \<Rightarrow> u64 \<Rightarrow> 'd node \<Rightarrow> 'd node option" where
  "apply_loop E C applied commit n =
     (if applied < commit
      then (case apply_step E C n (applied + 1) of
              None \<Rightarrow> None
            | Some (n, False) \<Rightarrow> Some n
            | Some (n, True) \<Rightarrow> apply_loop E C (applied + 1) commit n)
      else Some n)"
  by pat_completeness auto
termination
  by (relation "measure (\<lambda>(E, C, applied, commit, n). unat commit - unat applied)")
    (auto dest: unat_gap_less)

declare apply_loop.simps [simp del]

definition applyCommitted :: "'d engine \<Rightarrow> codec \<Rightarrow> 'd node \<Rightarrow> 'd node option" where
  "applyCommitted E C n = apply_loop E C (nLastApplied n) (nCommitIndex n) n"

section \<open>Linearizable reads\<close>

text \<open>The heartbeat that \<^verbatim>\<open>confirmLeadership\<close> sends to a peer.\<close>

definition confirm_request ::
    "'d engine \<Rightarrow> codec \<Rightarrow> 'd node \<Rightarrow> string \<Rightarrow> u64 \<Rightarrow> append_entries_request" where
  "confirm_request E C n peerID term =
     (let nextIdx = lookup0 (nNextIndex n) peerID;
          prevLogIndex = (if nextIdx > 0 then nextIdx - 1 else 0)
      in \<lparr>aeTerm = term, aeLeaderID = nID n, aePrevLogIndex = prevLogIndex,
          aePrevLogTerm = (case TermAt E C (nLog n) prevLogIndex of None \<Rightarrow> 0 | Some t \<Rightarrow> t),
          aeEntries = [], aeLeaderCommit = nCommitIndex n, aeLeaderClientAddr = []\<rparr>)"

text \<open>One peer's goroutine: whether the peer confirmed.\<close>

definition confirm_peer ::
    "'d engine \<Rightarrow> codec \<Rightarrow> 'd transport \<Rightarrow> 'd node \<Rightarrow> string \<Rightarrow> u64 \<Rightarrow> 'd node \<times> bool" where
  "confirm_peer E C T n peerID term =
     (case tAppendEntries T peerID (confirm_request E C n peerID term) n of
        (n, Inl err) \<Rightarrow> (n, False)
      | (n, Inr resp) \<Rightarrow>
          if aerTerm resp > term then (becomeFollower E n (aerTerm resp) [] [], False) else (n, True))"

fun confirm_peers ::
    "'d engine \<Rightarrow> codec \<Rightarrow> 'd transport \<Rightarrow> peer_info list \<Rightarrow> u64 \<Rightarrow> 'd node \<Rightarrow> 'd node \<times> bool list" where
  "confirm_peers E C T [] term n = (n, [])"
| "confirm_peers E C T (p # ps) term n =
     (let (n, ok) = confirm_peer E C T n (piID p) term; (n, oks) = confirm_peers E C T ps term n
      in (n, ok # oks))"

datatype confirm_event = Confirmed bool | ConfirmDone goerror

text \<open>The counting loop over the events that arrive: the count, and the error that ended it.\<close>

fun confirm_loop :: "nat \<Rightarrow> confirm_event list \<Rightarrow> nat \<Rightarrow> nat \<Rightarrow> nat \<times> goerror option" where
  "confirm_loop peers [] responded confirmed = (confirmed, None)"
| "confirm_loop peers (ev # evs) responded confirmed =
     (if responded < peers \<and> confirmed < (peers + 1) div 2 + 1
      then (case ev of
              Confirmed ok \<Rightarrow> confirm_loop peers evs (Suc responded) (if ok then Suc confirmed else confirmed)
            | ConfirmDone err \<Rightarrow> (confirmed, Some err))
      else (confirmed, None))"

definition confirmLeadership ::
    "'d engine \<Rightarrow> codec \<Rightarrow> 'd transport \<Rightarrow> (bool list \<Rightarrow> confirm_event list) \<Rightarrow> 'd node \<Rightarrow> u64 \<Rightarrow>
     'd node \<times> goerror option" where
  "confirmLeadership E C T sched n term =
     (let peers = length (nPeers n);
          (n, oks) = confirm_peers E C T (nPeers n) term n;
          (confirmed, retErr) = confirm_loop peers (sched oks) 0 1
      in (n, case retErr of
               Some err \<Rightarrow> Some err
             | None \<Rightarrow> if confirmed \<ge> (peers + 1) div 2 + 1 then None else Some ErrReadIndexTimeout))"

text \<open>
  \<^verbatim>\<open>waitForApplied\<close>: the section that registers the read, and the end of the wait.
\<close>

definition waitForApplied_locked :: "'d node \<Rightarrow> u64 \<Rightarrow> 'd node \<times> nat option" where
  "waitForApplied_locked n index =
     (if nLastApplied n \<ge> index then (n, None)
      else let (ch, n) = make_chan n
           in (n\<lparr>nPendingReads := nPendingReads n @ [\<lparr>readIndex = index, doneChan = ch\<rparr>]\<rparr>, Some ch))"

fun removePending :: "nat \<Rightarrow> pending_read list \<Rightarrow> pending_read list" where
  "removePending ch [] = []"
| "removePending ch (pr # prs) = (if doneChan pr = ch then prs else pr # removePending ch prs)"

datatype wait_case = ReadDone | WaitError goerror

definition waitForApplied ::
    "('d node \<Rightarrow> 'd node \<times> wait_case) \<Rightarrow> 'd node \<Rightarrow> u64 \<Rightarrow> 'd node \<times> goerror option" where
  "waitForApplied wait n index =
     (case waitForApplied_locked n index of
        (n, None) \<Rightarrow> (n, None)
      | (n, Some ch) \<Rightarrow>
          (case wait n of
             (n, ReadDone) \<Rightarrow> (n, None)
           | (n, WaitError err) \<Rightarrow>
               (n\<lparr>nPendingReads := removePending ch (nPendingReads n)\<rparr>, Some err)))"

definition LinearizableRead ::
    "'d engine \<Rightarrow> codec \<Rightarrow> 'd transport \<Rightarrow> (bool list \<Rightarrow> confirm_event list) \<Rightarrow>
     ('d node \<Rightarrow> 'd node \<times> wait_case) \<Rightarrow> 'd node \<Rightarrow> 'd node \<times> goerror option" where
  "LinearizableRead E C T sched wait n =
     (if nRole n \<noteq> Leader then (n, Some ErrNotLeader)
      else
        let idx = nCommitIndex n; term = currentTerm (nLog n)
        in (case confirmLeadership E C T sched n term of
              (n, Some err) \<Rightarrow> (n, Some err)
            | (n, None) \<Rightarrow> waitForApplied wait n idx))"

end
