(* ===== verification/Node_Proofs.thy ===== *)
theory Node_Proofs
  imports Client_Ops Log_Properties
begin

text \<open>
  What the handlers and sections of the node do, in terms of the node's abstract log. The lemmas
  hold for every engine and encoding that keep their contracts (the locales \<open>raft_storage\<close> and
  \<open>raft_storage_reads\<close>); \<open>raft_storage_sure\<close> adds that writes do not fail, which the voting code
  relies on because it drops the errors of \<^verbatim>\<open>SetTermAndVote\<close>.
\<close>

locale raft_storage_sure = raft_storage_reads E content C
  for E :: "'d engine" and content :: "'d \<Rightarrow> bytes \<rightharpoonup> bytes" and C :: codec +
  assumes commit_succeeds: "snd (Engine_Commit E d b w) = None"
    and set_succeeds: "snd (Engine_Set E d k v w) = None"
    and delete_succeeds: "snd (Engine_Delete E d k w) = None"

interpretation sstore: raft_storage_sure "PebbleEngine sure_pebble" mem_content gob_codec
  by unfold_locales (rule sure_engine_succeeds)+

text \<open>The invariant of a node's log, and the abstract log it stands for.\<close>

abbreviation stored_inv :: "('d \<Rightarrow> bytes \<rightharpoonup> bytes) \<Rightarrow> codec \<Rightarrow> 'd node \<Rightarrow> bool" where
  "stored_inv content C n \<equiv> plog_inv C (content (plEngine (nLog n))) (nLog n)"

abbreviation stored_log :: "('d \<Rightarrow> bytes \<rightharpoonup> bytes) \<Rightarrow> codec \<Rightarrow> 'd node \<Rightarrow> alog" where
  "stored_log content C n \<equiv> plog_abs C (content (plEngine (nLog n))) (nLog n)"

section \<open>A concrete node for the witnesses\<close>

abbreviation sureE :: "memdb engine" where
  "sureE \<equiv> PebbleEngine sure_pebble"

definition ex_opts :: options where
  "ex_opts = \<lparr>ElectionTimeoutMin = 150, ElectionTimeoutMax = 300, HeartbeatInterval = 50,
     SnapshotThreshold = 0, ReplicationBatchMaxEntries = 64, FsyncOnAppend = True\<rparr>"

definition ex_node :: "string \<Rightarrow> string list \<Rightarrow> memdb plog \<Rightarrow> memdb node" where
  "ex_node i ps pl =
     \<lparr>nID = i, nPeers = map (\<lambda>p. \<lparr>piID = p\<rparr>) ps, nOpts = ex_opts, nLog = pl,
      nSM = NewStateMachine mem_empty,
      nSnapStore = \<lparr>ssDir = ''snap'', ssFS = \<lparr>fsFiles = [], fsClock = 0, fsFaults = (\<lambda>t. None)\<rparr>\<rparr>,
      nRole = Follower, nCommitIndex = 0, nLastApplied = 0,
      nNextIndex = [], nMatchIndex = [], nLeaderID = [], nLeaderClientAddr = [],
      nSelfClientAddr = ''addr'', nElectionReset = False, nCommitAdvanced = False,
      nPendingReads = [], nWriteWaiters = [], nStopped = False, nNextChan = 0,
      nBuffers = [], nClosed = []\<rparr>"

lemma ex_node_fields [simp]:
  "nID (ex_node i ps pl) = i" "nPeers (ex_node i ps pl) = map (\<lambda>p. \<lparr>piID = p\<rparr>) ps" "nOpts (ex_node i ps pl) = ex_opts"
  "nLog (ex_node i ps pl) = pl" "nRole (ex_node i ps pl) = Follower" "nCommitIndex (ex_node i ps pl) = 0"
  "nLastApplied (ex_node i ps pl) = 0" "nWriteWaiters (ex_node i ps pl) = []" "nPendingReads (ex_node i ps pl) = []"
  "nSM (ex_node i ps pl) = NewStateMachine mem_empty"
  by (simp_all add: ex_node_def)

section \<open>The term and the vote\<close>

lemma SetTermAndVote_fields:
  assumes "SetTermAndVote E pl t v = (pl', r)"
  shows "lastIndex pl' = lastIndex pl" "firstIndex pl' = firstIndex pl"
    "lastIncludedIndex pl' = lastIncludedIndex pl" "lastIncludedTerm pl' = lastIncludedTerm pl"
    "tailCache pl' = tailCache pl"
    "r = None \<Longrightarrow> currentTerm pl' = t \<and> votedFor pl' = v"
    "r \<noteq> None \<Longrightarrow> currentTerm pl' = currentTerm pl \<and> votedFor pl' = votedFor pl"
  using assms by (auto simp: SetTermAndVote_def Let_def split: prod.splits option.splits)

lemma set_term_and_vote_fields [simp]:
  "nID (set_term_and_vote E t v n) = nID n" "nPeers (set_term_and_vote E t v n) = nPeers n"
  "nOpts (set_term_and_vote E t v n) = nOpts n" "nSM (set_term_and_vote E t v n) = nSM n"
  "nSnapStore (set_term_and_vote E t v n) = nSnapStore n" "nRole (set_term_and_vote E t v n) = nRole n"
  "nCommitIndex (set_term_and_vote E t v n) = nCommitIndex n"
  "nLastApplied (set_term_and_vote E t v n) = nLastApplied n"
  "lastIndex (nLog (set_term_and_vote E t v n)) = lastIndex (nLog n)"
  "firstIndex (nLog (set_term_and_vote E t v n)) = firstIndex (nLog n)"
  "lastIncludedIndex (nLog (set_term_and_vote E t v n)) = lastIncludedIndex (nLog n)"
  "lastIncludedTerm (nLog (set_term_and_vote E t v n)) = lastIncludedTerm (nLog n)"
  by (auto simp: set_term_and_vote_def SetTermAndVote_def Let_def split: prod.splits option.splits)

text \<open>One iteration of the loop of \<^const>\<open>failStaleWritersLocked\<close>.\<close>

abbreviation fail_writer :: "u64 \<times> nat \<Rightarrow> 'd node \<Rightarrow> 'd node" where
  "fail_writer \<equiv> \<lambda>(idx, ch) n. (chan_send ch (Some ErrProposalDropped) n)\<lparr>nWriteWaiters :=
     AList.delete idx (nWriteWaiters n)\<rparr>"

lemma fail_writers_frame: "\<exists>w b. fold fail_writer ws n = n\<lparr>nWriteWaiters := w, nBuffers := b\<rparr>"
proof (induction ws arbitrary: n)
  case Nil
  have "fold fail_writer [] n = n\<lparr>nWriteWaiters := nWriteWaiters n, nBuffers := nBuffers n\<rparr>" by simp
  then show ?case by blast
next
  case (Cons w ws)
  obtain v b where "fold fail_writer ws (fail_writer w n) = (fail_writer w n)\<lparr>nWriteWaiters := v, nBuffers := b\<rparr>"
    using Cons by blast
  then show ?case by (cases w) (auto simp: chan_send_def intro!: exI[of _ v] exI[of _ b])
qed

lemma fail_writers_waiters:
  "nWriteWaiters (fold fail_writer ws n) = fold AList.delete (map fst ws) (nWriteWaiters n)"
  by (induction ws arbitrary: n) (auto simp: chan_send_def)

lemma fail_writers_buffer:
  "chan_buffer (fold fail_writer ws n) ch
     = chan_buffer n ch @ map (\<lambda>_. Some ErrProposalDropped) (filter (\<lambda>w. snd w = ch) ws)"
proof (induction ws arbitrary: n)
  case (Cons w ws)
  have "chan_buffer (fail_writer w n) ch = chan_buffer n ch @ (if snd w = ch then [Some ErrProposalDropped] else [])"
    by (cases w) (auto simp: chan_send_def chan_buffer_def update_conv')
  then show ?case using Cons by simp
qed simp

lemma fold_delete_all: "set (map fst m) \<subseteq> set ks \<Longrightarrow> fold AList.delete ks m = []"
proof (induction ks arbitrary: m)
  case (Cons k ks)
  have "set (map fst (AList.delete k m)) \<subseteq> set ks" using Cons.prems by (auto simp: delete_keys)
  then show ?case using Cons.IH by simp
qed simp

lemma failStaleWriters_waiters [simp]: "nWriteWaiters (failStaleWritersLocked n) = []"
  by (simp add: failStaleWritersLocked_def fail_writers_waiters fold_delete_all)

lemma failStaleWriters_fields [simp]:
  "nID (failStaleWritersLocked n) = nID n" "nPeers (failStaleWritersLocked n) = nPeers n"
  "nOpts (failStaleWritersLocked n) = nOpts n" "nLog (failStaleWritersLocked n) = nLog n"
  "nSM (failStaleWritersLocked n) = nSM n" "nSnapStore (failStaleWritersLocked n) = nSnapStore n"
  "nRole (failStaleWritersLocked n) = nRole n" "nCommitIndex (failStaleWritersLocked n) = nCommitIndex n"
  "nLastApplied (failStaleWritersLocked n) = nLastApplied n"
  using fail_writers_frame[of "nWriteWaiters n" n] by (auto simp: failStaleWritersLocked_def)

text \<open>What a role change leaves of the rest of the node.\<close>

definition same_frame :: "'d node \<Rightarrow> 'd node \<Rightarrow> bool" where
  "same_frame n n' = (nID n' = nID n \<and> nPeers n' = nPeers n \<and> nOpts n' = nOpts n)"

lemma same_frame_refl [simp]: "same_frame n n"
  by (simp add: same_frame_def)

context raft_storage
begin

abbreviation node_inv :: "'d node \<Rightarrow> bool" where
  "node_inv n \<equiv> inv (nLog n)"

abbreviation node_log :: "'d node \<Rightarrow> alog" where
  "node_log n \<equiv> absl (nLog n)"

lemma set_term_and_vote_inv: "node_inv n \<Longrightarrow> node_inv (set_term_and_vote E t v n)"
  using SetTermAndVote_spec(1)[of "nLog n" t v]
  by (cases "SetTermAndVote E (nLog n) t v") (auto simp: set_term_and_vote_def)

lemma set_term_and_vote_log:
  assumes "node_inv n"
  shows "\<exists>t' v'. node_log (set_term_and_vote E t v n) = (node_log n)\<lparr>logTerm := t', logVote := v'\<rparr>"
proof -
  obtain pl' r where s: "SetTermAndVote E (nLog n) t v = (pl', r)" by force
  show ?thesis
  proof (cases r)
    case None
    then show ?thesis using SetTermAndVote_spec(2)[OF assms s] s by (auto simp: set_term_and_vote_def)
  next
    case (Some err)
    then have "node_log (set_term_and_vote E t v n)
        = (node_log n)\<lparr>logTerm := logTerm (node_log n), logVote := logVote (node_log n)\<rparr>"
      using SetTermAndVote_spec(3)[OF assms s] s by (simp add: set_term_and_vote_def)
    then show ?thesis by blast
  qed
qed

end

context raft_storage_sure
begin

lemma SetTermAndVote_sure: "\<exists>pl'. SetTermAndVote E pl t v = (pl', None)"
  using commit_succeeds[of "plEngine pl"]
  by (auto simp: SetTermAndVote_def Let_def split: prod.splits option.splits)
    (metis option.distinct(1) snd_conv)

lemma set_term_and_vote_sure [simp]:
  "currentTerm (nLog (set_term_and_vote E t v n)) = t" "votedFor (nLog (set_term_and_vote E t v n)) = v"
  using SetTermAndVote_sure[of "nLog n" t v] SetTermAndVote_fields(6)[of E "nLog n" t v]
  by (auto simp: set_term_and_vote_def)

end

section \<open>Answering a vote request\<close>

text \<open>The comparison of the paper: the candidate's last term and index are not behind.\<close>

definition up_to_date :: "alog \<Rightarrow> u64 \<Rightarrow> u64 \<Rightarrow> bool" where
  "up_to_date a lastLogIndex lastLogTerm =
     (alog_last_term a < lastLogTerm \<or>
      alog_last_term a = lastLogTerm \<and> alog_last a \<le> lastLogIndex)"

text \<open>The step-down at the start of \<^const>\<open>HandleRequestVote\<close>.\<close>

definition vote_prepare :: "'d engine \<Rightarrow> 'd node \<Rightarrow> u64 \<Rightarrow> 'd node" where
  "vote_prepare E n t =
     (if t > currentTerm (nLog n)
      then set_term_and_vote E t [] ((if nRole n = Leader then failStaleWritersLocked n else n)
             \<lparr>nRole := Follower, nLeaderID := [], nLeaderClientAddr := []\<rparr>)
      else n)"

lemma HandleRequestVote_alt:
  "HandleRequestVote E C n req =
     (if rvTerm req < currentTerm (nLog n)
      then (n, \<lparr>rvrTerm = currentTerm (nLog n), rvrVoteGranted = False\<rparr>)
      else let m = vote_prepare E n (rvTerm req)
           in if (votedFor (nLog m) = [] \<or> votedFor (nLog m) = rvCandidateID req) \<and>
                 candidateLogUpToDateLocked E C m (rvLastLogIndex req) (rvLastLogTerm req)
              then (unlockedResetElectionTimer (set_term_and_vote E (rvTerm req) (rvCandidateID req) m),
                    \<lparr>rvrTerm = rvTerm req, rvrVoteGranted = True\<rparr>)
              else (m, \<lparr>rvrTerm = rvTerm req, rvrVoteGranted = False\<rparr>))"
  by (auto simp: HandleRequestVote_def vote_prepare_def Let_def)

lemma vote_prepare_frame [simp]:
  "nID (vote_prepare E n t) = nID n" "nPeers (vote_prepare E n t) = nPeers n"
  "nCommitIndex (vote_prepare E n t) = nCommitIndex n" "nLastApplied (vote_prepare E n t) = nLastApplied n"
  "lastIndex (nLog (vote_prepare E n t)) = lastIndex (nLog n)"
  by (auto simp: vote_prepare_def)

lemma unlockedResetElectionTimer_frame [simp]:
  "nLog (unlockedResetElectionTimer n) = nLog n" "nID (unlockedResetElectionTimer n) = nID n"
  "nRole (unlockedResetElectionTimer n) = nRole n" "nPeers (unlockedResetElectionTimer n) = nPeers n"
  by (simp_all add: unlockedResetElectionTimer_def)

context raft_storage
begin

lemma vote_prepare_inv: "node_inv n \<Longrightarrow> node_inv (vote_prepare E n t)"
  by (simp add: vote_prepare_def set_term_and_vote_inv)

lemma set_term_and_vote_entries:
  assumes "node_inv n"
  shows "logBase (node_log (set_term_and_vote E t v n)) = logBase (node_log n)"
    "logBaseTerm (node_log (set_term_and_vote E t v n)) = logBaseTerm (node_log n)"
    "logEntries (node_log (set_term_and_vote E t v n)) = logEntries (node_log n)"
  using set_term_and_vote_log[OF assms, of t v] by auto

lemma vote_prepare_entries:
  assumes "node_inv n"
  shows "logBase (node_log (vote_prepare E n t)) = logBase (node_log n)"
    "logBaseTerm (node_log (vote_prepare E n t)) = logBaseTerm (node_log n)"
    "logEntries (node_log (vote_prepare E n t)) = logEntries (node_log n)"
  using assms set_term_and_vote_entries by (auto simp: vote_prepare_def)

lemma HandleRequestVote_keeps:
  assumes "node_inv n" and "HandleRequestVote E C n req = (n', resp)"
  shows "node_inv n'" "logBase (node_log n') = logBase (node_log n)"
    "logBaseTerm (node_log n') = logBaseTerm (node_log n)" "logEntries (node_log n') = logEntries (node_log n)"
    "nCommitIndex n' = nCommitIndex n" "nLastApplied n' = nLastApplied n" "nID n' = nID n" "nPeers n' = nPeers n"
proof -
  note p = vote_prepare_inv[OF assms(1), of "rvTerm req"] vote_prepare_entries[OF assms(1), of "rvTerm req"]
  show "node_inv n'" "logBase (node_log n') = logBase (node_log n)"
    "logBaseTerm (node_log n') = logBaseTerm (node_log n)" "logEntries (node_log n') = logEntries (node_log n)"
    "nCommitIndex n' = nCommitIndex n" "nLastApplied n' = nLastApplied n" "nID n' = nID n" "nPeers n' = nPeers n"
    using assms p set_term_and_vote_inv[OF p(1)] set_term_and_vote_entries[OF p(1)]
    by (auto simp: HandleRequestVote_alt Let_def unlockedResetElectionTimer_def split: if_splits)
qed

end

context raft_storage_reads
begin

lemma candidateLogUpToDate_abs:
  "node_inv n \<Longrightarrow> candidateLogUpToDateLocked E C n i t = up_to_date (node_log n) i t"
  using LastTerm_abs[of "nLog n"] plog_invD(1)[of C "disk (nLog n)" "nLog n"]
  by (auto simp: candidateLogUpToDateLocked_def up_to_date_def Let_def)

end

lemma up_to_date_cong:
  "logBase a = logBase b \<Longrightarrow> logBaseTerm a = logBaseTerm b \<Longrightarrow> logEntries a = logEntries b \<Longrightarrow>
   up_to_date a i t = up_to_date b i t"
  by (simp add: up_to_date_def alog_last_term_def alog_last_def)

context raft_storage_sure
begin

lemma vote_prepare_vote:
  "currentTerm (nLog (vote_prepare E n t)) = max t (currentTerm (nLog n))"
  "votedFor (nLog (vote_prepare E n t)) = (if t > currentTerm (nLog n) then [] else votedFor (nLog n))"
  by (auto simp: vote_prepare_def max_def)

lemma HandleRequestVote_records:
  "HandleRequestVote E C n req = (n', resp) \<Longrightarrow> rvrVoteGranted resp \<Longrightarrow>
   currentTerm (nLog n') = rvTerm req \<and> votedFor (nLog n') = rvCandidateID req"
  by (auto simp: HandleRequestVote_alt Let_def split: if_splits)

lemma HandleRequestVote_granted:
  assumes inv: "node_inv n" and h: "HandleRequestVote E C n req = (n', resp)" and g: "rvrVoteGranted resp"
  shows "currentTerm (nLog n) \<le> rvTerm req"
    "currentTerm (nLog n) = rvTerm req \<Longrightarrow> votedFor (nLog n) \<in> {[], rvCandidateID req}"
    "up_to_date (node_log n) (rvLastLogIndex req) (rvLastLogTerm req)"
    "currentTerm (nLog n') = rvTerm req" "votedFor (nLog n') = rvCandidateID req" "rvrTerm resp = rvTerm req"
proof -
  let ?m = "vote_prepare E n (rvTerm req)"
  have le: "\<not> rvTerm req < currentTerm (nLog n)"
    and v: "votedFor (nLog ?m) = [] \<or> votedFor (nLog ?m) = rvCandidateID req"
    and up: "candidateLogUpToDateLocked E C ?m (rvLastLogIndex req) (rvLastLogTerm req)"
    and n': "n' = unlockedResetElectionTimer (set_term_and_vote E (rvTerm req) (rvCandidateID req) ?m)"
    and r: "rvrTerm resp = rvTerm req"
    using h g by (auto simp: HandleRequestVote_alt Let_def split: if_splits)
  show "currentTerm (nLog n) \<le> rvTerm req" using le by simp
  show "votedFor (nLog n) \<in> {[], rvCandidateID req}" if "currentTerm (nLog n) = rvTerm req"
    using v that by (simp add: vote_prepare_vote)
  show "up_to_date (node_log n) (rvLastLogIndex req) (rvLastLogTerm req)"
    using up candidateLogUpToDate_abs[OF vote_prepare_inv[OF inv]]
      up_to_date_cong[OF vote_prepare_entries[OF inv, of "rvTerm req"]] by simp
  show "currentTerm (nLog n') = rvTerm req" "votedFor (nLog n') = rvCandidateID req" "rvrTerm resp = rvTerm req"
    using n' r by simp_all
qed

end

end
