(* ===== verification/Vote_Proofs.thy ===== *)
theory Vote_Proofs
  imports Node_Proofs
begin

text \<open>
  The term and the vote through every operation of the node, for arbitrary arguments: no request,
  however malformed, makes a node forget its vote in a term or go back to an earlier term, also
  across a restart. Only the metadata keys matter, so nothing is assumed of the log's entries.
\<close>

section \<open>Batches and loops that leave some keys alone\<close>

fun batch_key :: "batch_op \<Rightarrow> bytes" where
  "batch_key (BatchSet k v) = k"
| "batch_key (BatchDelete k) = k"

lemma apply_batch_other: "(\<And>w. w \<in> set b \<Longrightarrow> batch_key w \<noteq> k) \<Longrightarrow> apply_batch m b k = m k"
proof (induction b arbitrary: m)
  case (Cons w b)
  have "batch_key w \<noteq> k" using Cons.prems by simp
  then have "apply_op m w k = m k" by (cases w) auto
  then show ?case using Cons by simp
qed simp

lemma for_upto_invariant:
  assumes "for_upto i hi f s = Some s'" and "P s" and "\<And>i s. P s \<Longrightarrow> P (f i s)"
  shows "P s'"
proof -
  have "f = f \<longrightarrow> P s \<longrightarrow> P s'"
  proof (rule for_upto.raw_induct[where P = "\<lambda>i hi f' s s'. f' = f \<longrightarrow> P s \<longrightarrow> P s'", OF _ assms(1)])
    fix rec :: "u64 \<Rightarrow> u64 \<Rightarrow> (u64 \<Rightarrow> 'a \<Rightarrow> 'a) \<Rightarrow> 'a \<Rightarrow> 'a option" and i hi f' s y
    assume IH: "\<And>i hi f' s y. rec i hi f' s = Some y \<Longrightarrow> f' = f \<longrightarrow> P s \<longrightarrow> P y"
      and eq: "(if i \<le> hi then rec (i + 1) hi f' (f' i s) else Some s) = Some y"
    show "f' = f \<longrightarrow> P s \<longrightarrow> P y"
      using eq IH[of "i + 1" hi f' "f' i s" y] assms(3)[of s i] by (auto split: if_splits)
  qed
  then show ?thesis using assms(2) by simp
qed

section \<open>The log's operations keep the term and the vote\<close>

definition log_writes :: "batch \<Rightarrow> bool" where
  "log_writes b = (\<forall>w \<in> set b. batch_key w \<noteq> keyTerm \<and> batch_key w \<noteq> keyVotedFor)"

lemma log_writes_simps [simp]:
  "log_writes NewBatch"
  "log_writes (Batch_Set b k v) \<longleftrightarrow> log_writes b \<and> k \<noteq> keyTerm \<and> k \<noteq> keyVotedFor"
  "log_writes (Batch_Delete b k) \<longleftrightarrow> log_writes b \<and> k \<noteq> keyTerm \<and> k \<noteq> keyVotedFor"
  by (auto simp: log_writes_def NewBatch_def Batch_Set_def Batch_Delete_def)

lemma set_entries_log_writes: "set_entries C es b = Inr b' \<Longrightarrow> log_writes b \<Longrightarrow> log_writes b'"
  by (induction C es b rule: set_entries.induct) (auto split: sum.splits)

lemma for_upto_delete_entry:
  "for_upto i hi delete_entry (b, c) = Some (b', c') \<Longrightarrow> log_writes b \<Longrightarrow> log_writes b'"
  using for_upto_invariant[of i hi delete_entry "(b, c)" "(b', c')" "\<lambda>(b, c). log_writes b"]
  by (auto simp: delete_entry_def)

lemma for_upto_Batch_Delete:
  "for_upto i hi (\<lambda>i b. Batch_Delete b (logKey i)) b = Some b' \<Longrightarrow> log_writes b \<Longrightarrow> log_writes b'"
  using for_upto_invariant[of i hi "\<lambda>i b. Batch_Delete b (logKey i)" b b' log_writes] by simp

text \<open>The fields of the vote and their keys on disk are the same.\<close>

definition same_vote :: "('d \<Rightarrow> bytes \<rightharpoonup> bytes) \<Rightarrow> 'd plog \<Rightarrow> 'd plog \<Rightarrow> bool" where
  "same_vote content pl pl' =
     (currentTerm pl' = currentTerm pl \<and> votedFor pl' = votedFor pl \<and>
      content (plEngine pl') keyTerm = content (plEngine pl) keyTerm \<and>
      content (plEngine pl') keyVotedFor = content (plEngine pl) keyVotedFor)"

text \<open>The fields of the vote are what is on disk.\<close>

definition vote_meta :: "('d \<Rightarrow> bytes \<rightharpoonup> bytes) \<Rightarrow> 'd plog \<Rightarrow> bool" where
  "vote_meta content pl =
     (meta_u64 (content (plEngine pl)) keyTerm (currentTerm pl) \<and>
      meta_string (content (plEngine pl)) keyVotedFor (votedFor pl))"

lemma same_vote_refl [simp]: "same_vote content pl pl"
  by (simp add: same_vote_def)

lemma same_vote_meta: "same_vote content pl pl' \<Longrightarrow> vote_meta content pl \<Longrightarrow> vote_meta content pl'"
  by (simp add: same_vote_def vote_meta_def meta_u64_def meta_string_def)

context engine_contract
begin

lemma commit_log_writes:
  assumes "Engine_Commit E d b w = (d', r)" and "log_writes b"
  shows "content d' keyTerm = content d keyTerm" "content d' keyVotedFor = content d keyVotedFor"
  using assms commit_done[of d b w d'] commit_failed[of d b w d']
    apply_batch_other[of b keyTerm "content d"] apply_batch_other[of b keyVotedFor "content d"]
  by (cases r; auto simp: log_writes_def)+

lemma AppendEntries_vote:
  assumes ret: "AppendEntries E C pl es sync = Some (pl', r)"
  shows "same_vote content pl pl'"
proof (cases "es = []")
  case False
  then obtain b cache where start: "(if eIndex (hd es) \<le> lastIndex pl
       then for_upto (eIndex (hd es)) (lastIndex pl) delete_entry (NewBatch, tailCache pl)
       else Some (NewBatch, tailCache pl)) = Some (b, cache)"
    using ret by (auto simp: AppendEntries_def Let_def Option.bind_eq_Some_conv)
  then have b: "log_writes b"
    using for_upto_delete_entry[of _ _ NewBatch "tailCache pl" b cache] by (auto split: if_splits)
  show ?thesis
  proof (cases "set_entries C es b")
    case (Inl err)
    then show ?thesis using ret False start by (auto simp: AppendEntries_def same_vote_def)
  next
    case (Inr b')
    then have b': "log_writes b'" using set_entries_log_writes b by blast
    obtain d err where cm: "Engine_Commit E (plEngine pl) b' \<lparr>Sync = sync\<rparr> = (d, err)" by force
    have "plEngine pl' = d \<and> currentTerm pl' = currentTerm pl \<and> votedFor pl' = votedFor pl"
      using ret False start Inr cm by (cases err) (auto simp: AppendEntries_def Let_def split: if_splits)
    then show ?thesis using commit_log_writes[OF cm b'] by (simp add: same_vote_def)
  qed
qed (use ret in \<open>simp add: AppendEntries_def\<close>)

lemma CompactPrefix_vote:
  assumes ret: "CompactPrefix E pl li lt = Some (pl', r)"
  shows "same_vote content pl pl'"
proof (cases "li \<le> lastIncludedIndex pl")
  case False
  let ?top = "if li > lastIndex pl then lastIndex pl else li"
  obtain b cache where start: "for_upto (firstIndex pl) ?top delete_entry (NewBatch, tailCache pl) = Some (b, cache)"
    using ret False by (auto simp: CompactPrefix_def Let_def Option.bind_eq_Some_conv)
  let ?b = "Batch_Set (Batch_Set b keyLastIncludedIndex (put_u64 li)) keyLastIncludedTerm (put_u64 lt)"
  have b: "log_writes ?b" using for_upto_delete_entry[OF start] by simp
  obtain d err where cm: "Engine_Commit E (plEngine pl) ?b \<lparr>Sync = True\<rparr> = (d, err)" by force
  have "plEngine pl' = d \<and> currentTerm pl' = currentTerm pl \<and> votedFor pl' = votedFor pl"
    using ret False start cm by (cases err) (auto simp: CompactPrefix_def Let_def)
  then show ?thesis using commit_log_writes[OF cm b] by (simp add: same_vote_def)
qed (use ret in \<open>simp add: CompactPrefix_def\<close>)

lemma RestoreSnapshotBoundary_vote:
  assumes ret: "RestoreSnapshotBoundary E pl li lt = Some (pl', r)"
  shows "same_vote content pl pl'"
proof -
  obtain b where start: "for_upto (firstIndex pl) (lastIndex pl) (\<lambda>i b. Batch_Delete b (logKey i)) NewBatch = Some b"
    using ret by (auto simp: RestoreSnapshotBoundary_def Option.bind_eq_Some_conv)
  let ?b = "Batch_Set (Batch_Set b keyLastIncludedIndex (put_u64 li)) keyLastIncludedTerm (put_u64 lt)"
  have b: "log_writes ?b" using for_upto_Batch_Delete[OF start] by simp
  obtain d err where cm: "Engine_Commit E (plEngine pl) ?b \<lparr>Sync = True\<rparr> = (d, err)" by force
  have "plEngine pl' = d \<and> currentTerm pl' = currentTerm pl \<and> votedFor pl' = votedFor pl"
    using ret start cm by (cases err) (auto simp: RestoreSnapshotBoundary_def Let_def)
  then show ?thesis using commit_log_writes[OF cm b] by (simp add: same_vote_def)
qed

lemma SetTermAndVote_meta:
  assumes "SetTermAndVote E pl t v = (pl', r)" and "vote_meta content pl"
  shows "vote_meta content pl'"
proof -
  let ?b = "Batch_Set (Batch_Set NewBatch keyTerm (put_u64 t)) keyVotedFor (bytes_of_string v)"
  obtain d err where cm: "Engine_Commit E (plEngine pl) ?b \<lparr>Sync = True\<rparr> = (d, err)" by force
  show ?thesis
  proof (cases err)
    case None
    then show ?thesis using assms cm commit_done[of "plEngine pl" ?b "\<lparr>Sync = True\<rparr>" d]
      by (auto simp: SetTermAndVote_def Let_def vote_meta_def meta_u64_def meta_string_def)
  next
    case (Some e)
    then have "content d = content (plEngine pl)" using cm commit_failed by simp
    then show ?thesis using assms cm Some by (auto simp: SetTermAndVote_def vote_meta_def)
  qed
qed

lemma OpenPersistentLog_vote:
  assumes "vote_meta content pl" and "OpenPersistentLog E (plEngine pl) = Some (Inr pl')"
  shows "currentTerm pl' = currentTerm pl" "votedFor pl' = votedFor pl" "plEngine pl' = plEngine pl"
proof -
  obtain t v where t: "open_meta E (plEngine pl) keyTerm get_u64 0 = Some (Inr t)"
    and v: "open_meta E (plEngine pl) keyVotedFor (\<lambda>v. Some (string_of_bytes v)) [] = Some (Inr v)"
    and pl': "currentTerm pl' = t" "votedFor pl' = v" "plEngine pl' = plEngine pl"
    using assms(2) by (auto simp: OpenPersistentLog_def split: option.splits sum.splits)
  have "currentTerm pl = t" "votedFor pl = v"
    using t v assms(1) get_value[of "plEngine pl"] get_absent[of "plEngine pl"]
    by (auto simp: open_meta_def vote_meta_def meta_u64_def meta_string_def split: sum.splits if_splits option.splits)
  then show "currentTerm pl' = currentTerm pl" "votedFor pl' = votedFor pl" "plEngine pl' = plEngine pl"
    using pl' by simp_all
qed

end

section \<open>Vote progress\<close>

text \<open>
  From one state of a node to a later one: the term grows, or it is the same and a vote cast in it
  stays. \<open>vote_ok\<close> adds that the fields are on disk.
\<close>

definition vote_le :: "'d plog \<Rightarrow> 'd plog \<Rightarrow> bool" where
  "vote_le pl pl' =
     (currentTerm pl < currentTerm pl' \<or>
      currentTerm pl = currentTerm pl' \<and> (votedFor pl = [] \<or> votedFor pl' = votedFor pl))"

definition vote_step :: "('d \<Rightarrow> bytes \<rightharpoonup> bytes) \<Rightarrow> 'd node \<Rightarrow> 'd node \<Rightarrow> bool" where
  "vote_step content n n' =
     (nID n' = nID n \<and> nPeers n' = nPeers n \<and> vote_le (nLog n) (nLog n') \<and>
      (vote_meta content (nLog n) \<longrightarrow> vote_meta content (nLog n')) \<and>
      (nRole n' = Leader \<longrightarrow> nRole n = Leader \<and> currentTerm (nLog n') = currentTerm (nLog n)))"

lemma vote_le_refl [simp]: "vote_le pl pl"
  by (simp add: vote_le_def)

lemma vote_le_trans: "vote_le a b \<Longrightarrow> vote_le b c \<Longrightarrow> vote_le a c"
  by (auto simp: vote_le_def)

lemma vote_step_trans: "vote_step content a b \<Longrightarrow> vote_step content b c \<Longrightarrow> vote_step content a c"
  by (auto simp: vote_step_def intro: vote_le_trans)

lemma vote_step_same:
  "nID n' = nID n \<Longrightarrow> nPeers n' = nPeers n \<Longrightarrow> nRole n' \<in> {nRole n, Follower} \<Longrightarrow>
   same_vote content (nLog n) (nLog n') \<Longrightarrow> vote_step content n n'"
  using same_vote_meta[of content "nLog n" "nLog n'"]
  by (auto simp: vote_step_def same_vote_def vote_le_def)

section \<open>Every operation of the node is a vote step\<close>

lemma failStaleWriters_role [simp]: "nLog (if b then failStaleWritersLocked n else n) = nLog n"
  "nID (if b then failStaleWritersLocked n else n) = nID n"
  "nPeers (if b then failStaleWritersLocked n else n) = nPeers n"
  by simp_all

lemma chan_send_frame [simp]:
  "nID (chan_send ch v n) = nID n" "nPeers (chan_send ch v n) = nPeers n" "nRole (chan_send ch v n) = nRole n"
  "nLog (chan_send ch v n) = nLog n" "nOpts (chan_send ch v n) = nOpts n"
  by (simp_all add: chan_send_def)

lemma notify_frame [simp]:
  "nID (notifyWritersLocked n i) = nID n" "nPeers (notifyWritersLocked n i) = nPeers n"
  "nRole (notifyWritersLocked n i) = nRole n" "nLog (notifyWritersLocked n i) = nLog n"
  "nOpts (notifyWritersLocked n i) = nOpts n"
  by (simp_all add: notifyWritersLocked_def split: option.splits)

lemma satisfy_frame [simp]:
  "nID (satisfyPendingReadsLocked n) = nID n" "nPeers (satisfyPendingReadsLocked n) = nPeers n"
  "nRole (satisfyPendingReadsLocked n) = nRole n" "nLog (satisfyPendingReadsLocked n) = nLog n"
  "nOpts (satisfyPendingReadsLocked n) = nOpts n"
  by (simp_all add: satisfyPendingReadsLocked_def)

text \<open>What every iteration of the apply loop keeps, the loop keeps.\<close>

lemma apply_loop_rel:
  assumes "apply_loop E C a c n = Some n'"
    and "\<And>n i n' go. apply_step E C n i = Some (n', go) \<Longrightarrow> R n n'"
    and "\<And>n. R n n" and "\<And>x y z. R x y \<Longrightarrow> R y z \<Longrightarrow> R x z"
  shows "R n n'"
  using assms(1)
proof (induction "unat c - unat a" arbitrary: a n rule: less_induct)
  case less
  show ?case
  proof (cases "a < c")
    case True
    obtain m go where st: "apply_step E C n (a + 1) = Some (m, go)"
      using less.prems True by (subst (asm) apply_loop.simps) (auto split: option.splits)
    then have R: "R n m" by (rule assms(2))
    show ?thesis
    proof (cases go)
      case True
      then have "apply_loop E C (a + 1) c m = Some n'"
        using less.prems st \<open>a < c\<close> by (subst (asm) apply_loop.simps) simp
      then have "R m n'" using less.hyps unat_gap_less[OF \<open>a < c\<close>] by blast
      then show ?thesis using R assms(4) by blast
    next
      case False
      then have "n' = m" using less.prems st \<open>a < c\<close> by (subst (asm) apply_loop.simps) simp
      then show ?thesis using R by simp
    qed
  next
    case False
    then have "n' = n" using less.prems by (subst (asm) apply_loop.simps) simp
    then show ?thesis using assms(3) by simp
  qed
qed

context raft_storage_sure
begin

abbreviation vstep :: "'d node \<Rightarrow> 'd node \<Rightarrow> bool" where
  "vstep \<equiv> vote_step content"

lemma set_term_and_vote_meta: "vote_meta content (nLog n) \<Longrightarrow> vote_meta content (nLog (set_term_and_vote E t v n))"
  using SetTermAndVote_meta[of "nLog n" t v] by (cases "SetTermAndVote E (nLog n) t v") (auto simp: set_term_and_vote_def)

lemma new_term_vstep:
  assumes "currentTerm (nLog n) < t" and "nLog n' = nLog (set_term_and_vote E t v m)" and "nLog m = nLog n"
    and "nID n' = nID n" and "nPeers n' = nPeers n" and "nRole n' \<noteq> Leader"
  shows "vstep n n'"
  using assms set_term_and_vote_meta[of m t v] by (simp add: vote_step_def vote_le_def)

lemma becomeFollower_vstep: "vstep n (becomeFollower E n t l a)"
proof (cases "t > currentTerm (nLog n)")
  case True
  then show ?thesis by (auto simp: becomeFollower_def Let_def intro!: new_term_vstep[OF True refl])
next
  case False
  then show ?thesis by (auto simp: becomeFollower_def Let_def intro!: vote_step_same)
qed

lemma becomeCandidate_vstep:
  assumes "becomeCandidate E n = (n', t)" and "currentTerm (nLog n) \<noteq> - 1"
  shows "vstep n n'" "t = currentTerm (nLog n')" "votedFor (nLog n') = nID n" "nRole n' = Candidate"
    "currentTerm (nLog n) < t"
proof -
  have lt: "currentTerm (nLog n) < currentTerm (nLog n) + 1"
    using assms(2) by (simp add: word_less_nat_alt)
  have "n' = (set_term_and_vote E (currentTerm (nLog n) + 1) (nID n) n)
      \<lparr>nRole := Candidate, nLeaderID := [], nLeaderClientAddr := []\<rparr>" "t = currentTerm (nLog n) + 1"
    using assms(1) by (auto simp: becomeCandidate_def becomeCandidate_set_def Let_def)
  then show "vstep n n'" "t = currentTerm (nLog n')" "votedFor (nLog n') = nID n" "nRole n' = Candidate"
    "currentTerm (nLog n) < t"
    using lt set_term_and_vote_meta[of n "currentTerm (nLog n) + 1" "nID n"]
    by (simp_all add: vote_step_def vote_le_def)
qed

lemma vote_prepare_vstep: "vstep n (vote_prepare E n t)"
proof (cases "t > currentTerm (nLog n)")
  case True
  then show ?thesis by (auto simp: vote_prepare_def intro!: new_term_vstep[OF True refl])
next
  case False
  then show ?thesis by (simp add: vote_prepare_def vote_step_same)
qed

lemma HandleRequestVote_vstep:
  assumes h: "HandleRequestVote E C n req = (n', resp)"
  shows "vstep n n'"
proof (cases "rvTerm req < currentTerm (nLog n)")
  case False
  let ?m = "vote_prepare E n (rvTerm req)"
  have t: "currentTerm (nLog ?m) = rvTerm req" using False by (simp add: vote_prepare_vote)
  have "vstep ?m n'"
  proof (cases "n' = ?m")
    case True
    then show ?thesis by (simp add: vote_step_same)
  next
    case False
    then have "n' = unlockedResetElectionTimer (set_term_and_vote E (rvTerm req) (rvCandidateID req) ?m)"
      "votedFor (nLog ?m) = [] \<or> votedFor (nLog ?m) = rvCandidateID req"
      using h \<open>\<not> rvTerm req < _\<close> by (auto simp: HandleRequestVote_alt Let_def split: if_splits)
    then show ?thesis
      using t set_term_and_vote_meta[of ?m "rvTerm req" "rvCandidateID req"]
      by (auto simp: vote_step_def vote_le_def)
  qed
  then show ?thesis using vote_prepare_vstep vote_step_trans by blast
qed (use h in \<open>auto simp: HandleRequestVote_alt intro: vote_step_same\<close>)

lemma HandleAppendEntries_term_vstep:
  assumes "HandleAppendEntries_term E n req = Inr (n', t)"
  shows "vstep n n'"
proof (cases "aeTerm req > currentTerm (nLog n)")
  case True
  let ?m = "(if nRole n = Leader then failStaleWritersLocked n else n)\<lparr>nRole := Follower\<rparr>"
  have "n' = resetElectionTimer ((set_term_and_vote E (aeTerm req) [] ?m)
      \<lparr>nLeaderID := aeLeaderID req, nLeaderClientAddr := aeLeaderClientAddr req\<rparr>)"
    using assms True by (auto simp: HandleAppendEntries_term_def Let_def split: if_splits)
  then show ?thesis
    by (intro new_term_vstep[OF True, of n' "[]" ?m]) (auto simp: resetElectionTimer_def)
next
  case False
  then show ?thesis
    using assms by (auto simp: HandleAppendEntries_term_def Let_def resetElectionTimer_def split: if_splits
        intro!: vote_step_same)
qed

lemma HandleAppendEntries_vstep:
  assumes "HandleAppendEntries E C n req = Some (n', resp)"
  shows "vstep n n'"
proof (cases "HandleAppendEntries_term E n req")
  case (Inl m)
  then have "n' = n" using assms by (auto simp: HandleAppendEntries_def HandleAppendEntries_term_def Let_def split: if_splits)
  then show ?thesis by (simp add: vote_step_same)
next
  case (Inr p)
  obtain m t where p: "p = (m, t)" by (cases p)
  have adv: "vstep n1 (advance_commit n1 c)" for n1 c
    by (auto simp: advance_commit_def signalCommitAdvanced_def Let_def intro!: vote_step_same)
  have app: "vstep m (m\<lparr>nLog := pl\<rparr>)"
    if "AppendEntries E C (nLog m) es sy = Some (pl, r)" for es sy pl r
    using AppendEntries_vote[OF that] by (intro vote_step_same) auto
  have "vstep m n'"
  proof (cases "consistency_check E C (nLog m) req t")
    case (Some r)
    then show ?thesis using assms Inr p by (simp add: HandleAppendEntries_def vote_step_same)
  next
    case None
    show ?thesis
    proof (cases "aeEntries req = []")
      case True
      then show ?thesis using assms Inr p None adv by (auto simp: HandleAppendEntries_def)
    next
      case False
      then obtain pl r where a: "AppendEntries E C (nLog m) (aeEntries req) (FsyncOnAppend (nOpts m)) = Some (pl, r)"
        and n': "n' = (if r \<noteq> None then m\<lparr>nLog := pl\<rparr> else advance_commit (m\<lparr>nLog := pl\<rparr>) (aeLeaderCommit req))"
        using assms Inr p None by (auto simp: HandleAppendEntries_def Option.bind_eq_Some_conv Let_def split: if_splits)
      then show ?thesis using app[OF a] vote_step_trans[OF app[OF a] adv] by simp
    qed
  qed
  then show ?thesis using HandleAppendEntries_term_vstep Inr p vote_step_trans by blast
qed

lemma install_snapshot_vstep:
  assumes "install_snapshot E C n req = Some n'"
  shows "vstep n n'"
proof -
  have "nLog n' = nLog n \<or> (\<exists>li lt r. RestoreSnapshotBoundary E (nLog n) li lt = Some (nLog n', r))"
    "nID n' = nID n \<and> nPeers n' = nPeers n \<and> nRole n' = nRole n"
    using assms by (auto simp: install_snapshot_def Let_def split: prod.splits option.splits sum.splits if_splits)
  then show ?thesis using RestoreSnapshotBoundary_vote[of "nLog n"] by (intro vote_step_same) auto
qed

lemma HandleInstallSnapshot_vstep:
  assumes "HandleInstallSnapshot E C n req = Some (n', resp)"
  shows "vstep n n'"
proof (cases "isTerm req < currentTerm (nLog n)")
  case False
  let ?t = "if isTerm req > currentTerm (nLog n) then set_term_and_vote E (isTerm req) [] n else n"
  let ?m = "resetElectionTimer (?t\<lparr>nRole := Follower, nLeaderID := isLeaderID req\<rparr>)"
  have m: "vstep n ?m"
  proof (cases "isTerm req > currentTerm (nLog n)")
    case True
    then show ?thesis by (intro new_term_vstep[OF True, of _ "[]" n]) (auto simp: resetElectionTimer_def)
  qed (auto simp: resetElectionTimer_def intro!: vote_step_same)
  have "install_snapshot E C ?m req = Some n'"
    using assms False by (auto simp: HandleInstallSnapshot_def Let_def split: if_splits)
  then have "vstep ?m n'" by (rule install_snapshot_vstep)
  then show ?thesis using m vote_step_trans by blast
qed (use assms in \<open>auto simp: HandleInstallSnapshot_def intro: vote_step_same\<close>)

lemma sendInstallSnapshot_response_vstep: "vstep n (sendInstallSnapshot_response E n peer t li resp)"
  by (auto simp: sendInstallSnapshot_response_def intro: becomeFollower_vstep vote_step_same)

lemma sendInstallSnapshot_request_vstep: "vstep n (fst (sendInstallSnapshot_request C n t))"
  by (auto simp: sendInstallSnapshot_request_def split: prod.splits sum.splits option.splits intro!: vote_step_same)

lemma replicateToPeer_response_vstep: "vstep n (replicateToPeer_response E C n peer t es resp)"
  by (auto simp: replicateToPeer_response_def Let_def intro: becomeFollower_vstep vote_step_same)

lemma tryAdvanceCommitIndex_vstep: "vstep n (tryAdvanceCommitIndex E C n t)"
  by (auto simp: tryAdvanceCommitIndex_def signalCommitAdvanced_def intro: vote_step_same)

lemma appendLocal_vstep: "appendLocal E C n e = Some (n', e') \<Longrightarrow> vstep n n'"
  by (auto simp: appendLocal_def Let_def intro!: vote_step_same dest!: AppendEntries_vote)

lemma Propose_locked_vstep:
  assumes "Propose_locked E C n typ key v req = Some (n', r)"
  shows "vstep n n'"
proof (cases "nRole n = Leader")
  case True
  then obtain es sy pl err where "AppendEntries E C (nLog n) es sy = Some (pl, err)" and "nLog n' = pl"
    and f: "nID n' = nID n" "nPeers n' = nPeers n" "nRole n' = nRole n"
    using assms by (auto simp: Propose_locked_def Let_def make_chan_def split: option.splits)
  then show ?thesis using AppendEntries_vote by (intro vote_step_same) auto
qed (use assms in \<open>auto simp: Propose_locked_def intro: vote_step_same\<close>)

lemma Propose_select_vstep: "vstep n (fst (Propose_select n i ch sc))"
  by (auto simp: Propose_select_def split: select_case.splits intro: vote_step_same)

lemma waitForApplied_locked_vstep: "vstep n (fst (waitForApplied_locked n i))"
  by (auto simp: waitForApplied_locked_def make_chan_def intro: vote_step_same)

lemma maybeSnapshot_vstep:
  assumes "maybeSnapshot E C n i = Some n'"
  shows "vstep n n'"
proof -
  have "nLog n' = nLog n \<or> (\<exists>t r. CompactPrefix E (nLog n) i t = Some (nLog n', r))"
    "nID n' = nID n \<and> nPeers n' = nPeers n \<and> nRole n' = nRole n"
    using assms by (auto simp: maybeSnapshot_def Let_def split: prod.splits option.splits sum.splits if_splits)
  then show ?thesis using CompactPrefix_vote[of "nLog n"] by (intro vote_step_same) auto
qed

lemma apply_step_vstep:
  assumes "apply_step E C n i = Some (n', go)"
  shows "vstep n n'"
proof -
  have k: "vstep n (satisfyPendingReadsLocked (notifyWritersLocked (n\<lparr>nSM := sm, nLastApplied := i\<rparr>) i))" for sm
    by (intro vote_step_same) auto
  show ?thesis
    using assms vote_step_trans[OF k maybeSnapshot_vstep] k
    by (auto simp: apply_step_def Let_def split: sum.splits prod.splits option.splits if_splits intro: vote_step_same)
qed

lemma applyCommitted_vstep: "applyCommitted E C n = Some n' \<Longrightarrow> vstep n n'"
  unfolding applyCommitted_def
  by (rule apply_loop_rel[where R = vstep]) (auto intro: apply_step_vstep vote_step_trans vote_step_same)

lemma election_step_vstep: "vstep n (fst (election_step E t (VoteArrives r) (n, el)))"
  by (auto simp: election_step_def Let_def intro: becomeFollower_vstep vote_step_same)

end

end
