(* ===== verification/Cluster.thy ===== *)
theory Cluster
  imports Vote_Proofs
begin

text \<open>
  A cluster of nodes that runs the voting code over an unreliable network, and Election Safety for
  it. A step is one atomic section of one node. Vote requests and responses are kept in sets and
  never removed: they may be delivered late, in any order, more than once or never. All other RPCs
  (\<^verbatim>\<open>AppendEntries\<close>, \<^verbatim>\<open>InstallSnapshot\<close> and their responses) are delivered with arbitrary contents, so
  the theorem does not depend on them. A node may restart at any time from what its engine holds.
\<close>

section \<open>The steps of one node\<close>

text \<open>
  Everything a node does besides voting and winning: the handlers, what it does with responses, and
  its own sections, each with arbitrary arguments.
\<close>

inductive node_op :: "'d engine \<Rightarrow> codec \<Rightarrow> 'd node \<Rightarrow> 'd node \<Rightarrow> bool" for E C where
  append_rpc: "HandleAppendEntries E C n req = Some (n', resp) \<Longrightarrow> node_op E C n n'"
| snapshot_rpc: "HandleInstallSnapshot E C n sreq = Some (n', sresp) \<Longrightarrow> node_op E C n n'"
| append_response: "node_op E C n (replicateToPeer_response E C n peer t es aresp)"
| snapshot_request: "node_op E C n (fst (sendInstallSnapshot_request C n t))"
| snapshot_response: "node_op E C n (sendInstallSnapshot_response E n peer t li sresp)"
| step_down: "node_op E C n (becomeFollower E n t leader addr)"
| advance: "node_op E C n (tryAdvanceCommitIndex E C n t)"
| append_local: "appendLocal E C n e = Some (n', e') \<Longrightarrow> node_op E C n n'"
| propose: "Propose_locked E C n typ key v rid = Some (n', r) \<Longrightarrow> node_op E C n n'"
| propose_end: "node_op E C n (fst (Propose_select n i ch sc))"
| apply_committed: "applyCommitted E C n = Some n' \<Longrightarrow> node_op E C n n'"
| read: "node_op E C n (fst (waitForApplied_locked n i))"

section \<open>The cluster\<close>

text \<open>
  An attempt of \<^verbatim>\<open>startElection\<close> that is under way: its request, the peers whose result has been
  taken, and the counters of its loop. \<open>cVotes\<close> records every vote cast: voter, term, candidate.
\<close>

record attempt =
  atRequest :: request_vote_request
  atResponded :: "string set"
  atCount :: election

record 'd cluster =
  cNodes :: "string \<Rightarrow> 'd node"
  cRequests :: "request_vote_request set"
  cResponses :: "(string \<times> request_vote_request \<times> request_vote_response) set"
  cElections :: "string \<Rightarrow> attempt option"
  cVotes :: "(string \<times> u64 \<times> string) set"

definition first_count :: election where
  "first_count = \<lparr>elVotes = 1, elResponses = 0, elWon = False\<rparr>"

text \<open>The steps of an election.\<close>

inductive voting_step :: "'d engine \<Rightarrow> codec \<Rightarrow> string set \<Rightarrow> 'd cluster \<Rightarrow> 'd cluster \<Rightarrow> bool"
  for E C members where
  start_election:
    "i \<in> members \<Longrightarrow> currentTerm (nLog (cNodes s i)) \<noteq> - 1 \<Longrightarrow> nPeers (cNodes s i) \<noteq> [] \<Longrightarrow>
     becomeCandidate E (cNodes s i) = (n, t) \<Longrightarrow> m = resetElectionTimer n \<Longrightarrow> req = vote_request E C m t \<Longrightarrow>
     voting_step E C members s (s\<lparr>cNodes := (cNodes s)(i := m), cRequests := insert req (cRequests s),
       cElections := (cElections s)(i := Some \<lparr>atRequest = req, atResponded = {}, atCount = first_count\<rparr>),
       cVotes := insert (i, t, i) (cVotes s)\<rparr>)"
| start_alone:
    "i \<in> members \<Longrightarrow> currentTerm (nLog (cNodes s i)) \<noteq> - 1 \<Longrightarrow> nPeers (cNodes s i) = [] \<Longrightarrow>
     becomeCandidate E (cNodes s i) = (n, t) \<Longrightarrow> becomeLeader_locked (resetElectionTimer n) = (m, b) \<Longrightarrow>
     voting_step E C members s (s\<lparr>cNodes := (cNodes s)(i := m), cVotes := insert (i, t, i) (cVotes s)\<rparr>)"
| vote_rpc:
    "j \<in> members \<Longrightarrow> req \<in> cRequests s \<Longrightarrow> rvCandidateID req \<noteq> j \<Longrightarrow>
     HandleRequestVote E C (cNodes s j) req = (m, resp) \<Longrightarrow>
     voting_step E C members s (s\<lparr>cNodes := (cNodes s)(j := m),
       cResponses := insert (j, req, resp) (cResponses s),
       cVotes := (if rvrVoteGranted resp then insert (j, rvTerm req, rvCandidateID req) (cVotes s) else cVotes s)\<rparr>)"
| vote_result:
    "cElections s i = Some a \<Longrightarrow> elResponses (atCount a) < length (nPeers (cNodes s i)) \<Longrightarrow> \<not> elWon (atCount a) \<Longrightarrow>
     (j, atRequest a, resp) \<in> cResponses s \<Longrightarrow> j \<notin> atResponded a \<Longrightarrow>
     election_step E (rvTerm (atRequest a)) (VoteArrives (vote_result_of (rvTerm (atRequest a)) (Inr resp)))
       (cNodes s i, atCount a) = (m, el) \<Longrightarrow>
     voting_step E C members s (s\<lparr>cNodes := (cNodes s)(i := m),
       cElections := (cElections s)(i := Some (a\<lparr>atResponded := insert j (atResponded a), atCount := el\<rparr>))\<rparr>)"
| vote_error:
    "cElections s i = Some a \<Longrightarrow> elResponses (atCount a) < length (nPeers (cNodes s i)) \<Longrightarrow> \<not> elWon (atCount a) \<Longrightarrow>
     j \<in> members \<Longrightarrow> j \<noteq> i \<Longrightarrow> j \<notin> atResponded a \<Longrightarrow>
     election_step E (rvTerm (atRequest a)) (VoteArrives (vote_result_of (rvTerm (atRequest a)) (Inl err)))
       (cNodes s i, atCount a) = (m, el) \<Longrightarrow>
     voting_step E C members s (s\<lparr>cNodes := (cNodes s)(i := m),
       cElections := (cElections s)(i := Some (a\<lparr>atResponded := insert j (atResponded a), atCount := el\<rparr>))\<rparr>)"
| win:
    "cElections s i = Some a \<Longrightarrow> elWon (atCount a) \<Longrightarrow> nRole (cNodes s i) = Candidate \<Longrightarrow>
     currentTerm (nLog (cNodes s i)) = rvTerm (atRequest a) \<Longrightarrow> becomeLeader_locked (cNodes s i) = (m, b) \<Longrightarrow>
     voting_step E C members s (s\<lparr>cNodes := (cNodes s)(i := m), cElections := (cElections s)(i := None)\<rparr>)"
| give_up: "voting_step E C members s (s\<lparr>cElections := (cElections s)(i := None)\<rparr>)"

text \<open>A step of the cluster: of an election, of a node on its own, or a restart.\<close>

inductive cluster_step :: "'d engine \<Rightarrow> codec \<Rightarrow> string set \<Rightarrow> 'd cluster \<Rightarrow> 'd cluster \<Rightarrow> bool"
  for E C members where
  voting: "voting_step E C members s s' \<Longrightarrow> cluster_step E C members s s'"
| other: "i \<in> members \<Longrightarrow> node_op E C (cNodes s i) m \<Longrightarrow>
     cluster_step E C members s (s\<lparr>cNodes := (cNodes s)(i := m)\<rparr>)"
| restart:
    "i \<in> members \<Longrightarrow> NewNode E C (nID (cNodes s i)) (nPeers (cNodes s i)) opts (plEngine (nLog (cNodes s i)))
       sm st addr = Some (Inr m) \<Longrightarrow>
     cluster_step E C members s (s\<lparr>cNodes := (cNodes s)(i := m), cElections := (cElections s)(i := None)\<rparr>)"

inductive cluster_reach :: "'d engine \<Rightarrow> codec \<Rightarrow> string set \<Rightarrow> 'd cluster \<Rightarrow> 'd cluster \<Rightarrow> bool"
  for E C members s0 where
  reach_start: "cluster_reach E C members s0 s0"
| reach_step: "cluster_reach E C members s0 s \<Longrightarrow> cluster_step E C members s s' \<Longrightarrow> cluster_reach E C members s0 s'"

text \<open>A node that knows its place in the cluster, with its vote on disk.\<close>

definition member_ok :: "('d \<Rightarrow> bytes \<rightharpoonup> bytes) \<Rightarrow> string set \<Rightarrow> string \<Rightarrow> 'd node \<Rightarrow> bool" where
  "member_ok content members i n =
     (nID n = i \<and> distinct (map piID (nPeers n)) \<and> set (map piID (nPeers n)) = members - {i} \<and>
      vote_meta content (nLog n))"

definition cluster_start :: "('d \<Rightarrow> bytes \<rightharpoonup> bytes) \<Rightarrow> string set \<Rightarrow> 'd cluster \<Rightarrow> bool" where
  "cluster_start content members s =
     ((\<forall>i \<in> members. member_ok content members i (cNodes s i) \<and> nRole (cNodes s i) = Follower) \<and>
      cRequests s = {} \<and> cResponses s = {} \<and> cElections s = (\<lambda>i. None) \<and> cVotes s = {})"

section \<open>Majorities\<close>

definition majority :: "string set \<Rightarrow> string set \<Rightarrow> bool" where
  "majority members Q = (Q \<subseteq> members \<and> 2 * card Q > card members)"

lemma majorities_meet:
  assumes fin: "finite members" and P: "majority members P" and Q: "majority members Q"
  shows "\<exists>v. v \<in> P \<and> v \<in> Q"
proof (rule ccontr)
  assume "\<nexists>v. v \<in> P \<and> v \<in> Q"
  then have "card (P \<union> Q) = card P + card Q"
    using P Q by (intro card_Un_disjoint) (auto simp: majority_def intro: finite_subset[OF _ fin])
  moreover have "card (P \<union> Q) \<le> card members"
    using P Q by (intro card_mono fin) (auto simp: majority_def)
  ultimately show False using P Q by (simp add: majority_def)
qed

section \<open>The invariant\<close>

text \<open>A vote cast is a vote kept, and no node votes for two candidates in a term.\<close>

definition vote_kept :: "(string \<Rightarrow> 'd node) \<Rightarrow> (string \<times> u64 \<times> string) set \<Rightarrow> bool" where
  "vote_kept N V =
     ((\<forall>v t c. (v, t, c) \<in> V \<longrightarrow> t < currentTerm (nLog (N v)) \<or>
         t = currentTerm (nLog (N v)) \<and> votedFor (nLog (N v)) = c) \<and>
      (\<forall>v t c c'. (v, t, c) \<in> V \<longrightarrow> (v, t, c') \<in> V \<longrightarrow> c = c'))"

definition votes_named :: "string set \<Rightarrow> (string \<times> u64 \<times> string) set \<Rightarrow> bool" where
  "votes_named members V = (\<forall>v t c. (v, t, c) \<in> V \<longrightarrow> v \<in> members \<and> c \<in> members)"

definition response_ok ::
    "string set \<Rightarrow> (string \<times> u64 \<times> string) set \<Rightarrow> string \<times> request_vote_request \<times> request_vote_response \<Rightarrow> bool" where
  "response_ok members V = (\<lambda>(j, req, resp). j \<in> members \<and> j \<noteq> rvCandidateID req \<and>
     (rvrVoteGranted resp \<longrightarrow> (j, rvTerm req, rvCandidateID req) \<in> V))"

text \<open>The votes an attempt has counted were cast for it by different peers.\<close>

definition attempt_ok :: "string set \<Rightarrow> (string \<times> u64 \<times> string) set \<Rightarrow> string \<Rightarrow> attempt \<Rightarrow> bool" where
  "attempt_ok members V i a =
     (i \<in> members \<and> rvCandidateID (atRequest a) = i \<and> (i, rvTerm (atRequest a), i) \<in> V \<and>
      atResponded a \<subseteq> members - {i} \<and>
      (\<exists>S \<subseteq> atResponded a. card S + 1 = elVotes (atCount a) \<and> (\<forall>j \<in> S. (j, rvTerm (atRequest a), i) \<in> V)) \<and>
      (elWon (atCount a) \<longrightarrow> elVotes (atCount a) \<ge> card members div 2 + 1))"

definition leader_ok :: "string set \<Rightarrow> (string \<times> u64 \<times> string) set \<Rightarrow> string \<Rightarrow> 'd node \<Rightarrow> bool" where
  "leader_ok members V i n =
     (nRole n = Leader \<longrightarrow>
      (\<exists>Q. majority members Q \<and> (\<forall>j \<in> Q. (j, currentTerm (nLog n), i) \<in> V)))"

definition cluster_inv :: "('d \<Rightarrow> bytes \<rightharpoonup> bytes) \<Rightarrow> string set \<Rightarrow> 'd cluster \<Rightarrow> bool" where
  "cluster_inv content members s =
     ((\<forall>i \<in> members. member_ok content members i (cNodes s i) \<and> leader_ok members (cVotes s) i (cNodes s i)) \<and>
      vote_kept (cNodes s) (cVotes s) \<and> votes_named members (cVotes s) \<and>
      (\<forall>req \<in> cRequests s. rvCandidateID req \<in> members) \<and>
      (\<forall>r \<in> cResponses s. response_ok members (cVotes s) r) \<and>
      (\<forall>i a. cElections s i = Some a \<longrightarrow> attempt_ok members (cVotes s) i a))"

lemma cluster_invD:
  assumes "cluster_inv content members s"
  shows "i \<in> members \<Longrightarrow> member_ok content members i (cNodes s i)"
    "i \<in> members \<Longrightarrow> leader_ok members (cVotes s) i (cNodes s i)"
    "vote_kept (cNodes s) (cVotes s)" "votes_named members (cVotes s)"
    "req \<in> cRequests s \<Longrightarrow> rvCandidateID req \<in> members"
    "r \<in> cResponses s \<Longrightarrow> response_ok members (cVotes s) r"
    "cElections s i = Some a \<Longrightarrow> attempt_ok members (cVotes s) i a"
  using assms by (auto simp: cluster_inv_def)

lemma cluster_start_inv: "cluster_start content members s \<Longrightarrow> cluster_inv content members s"
  by (auto simp: cluster_start_def cluster_inv_def leader_ok_def vote_kept_def votes_named_def)

lemma attempt_ok_mono: "attempt_ok members V i a \<Longrightarrow> V \<subseteq> V' \<Longrightarrow> attempt_ok members V' i a"
  unfolding attempt_ok_def by blast

lemma response_ok_mono: "response_ok members V r \<Longrightarrow> V \<subseteq> V' \<Longrightarrow> response_ok members V' r"
  unfolding response_ok_def by auto

lemma leader_ok_mono: "leader_ok members V i n \<Longrightarrow> V \<subseteq> V' \<Longrightarrow> leader_ok members V' i n"
  unfolding leader_ok_def by blast

lemma leader_ok_step: "leader_ok members V i n \<Longrightarrow> vote_step content n m \<Longrightarrow> leader_ok members V i m"
  by (auto simp: leader_ok_def vote_step_def)

lemma member_ok_step:
  "member_ok content members i n \<Longrightarrow> vote_step content n m \<Longrightarrow> member_ok content members i m"
  by (auto simp: member_ok_def vote_step_def)

text \<open>The votes that a vote step of node \<open>i\<close> may add: none, or the one it now holds.\<close>

definition adds_vote ::
    "string \<Rightarrow> 'd node \<Rightarrow> (string \<times> u64 \<times> string) set \<Rightarrow> (string \<times> u64 \<times> string) set \<Rightarrow> bool" where
  "adds_vote i m V V' = (V' = V \<or> V' = insert (i, currentTerm (nLog m), votedFor (nLog m)) V)"

lemma vote_kept_step:
  assumes kept: "vote_kept N V" and st: "vote_step content (N i) m" and new: "adds_vote i m V V'"
    and named: "\<And>v t c. (v, t, c) \<in> V \<Longrightarrow> c \<noteq> []"
  shows "vote_kept (N(i := m)) V'"
proof -
  have le: "vote_le (nLog (N i)) (nLog m)" using st by (simp add: vote_step_def)
  have old: "t < currentTerm (nLog ((N(i := m)) v)) \<or>
      t = currentTerm (nLog ((N(i := m)) v)) \<and> votedFor (nLog ((N(i := m)) v)) = c" if "(v, t, c) \<in> V" for v t c
  proof -
    have "t < currentTerm (nLog (N v)) \<or> t = currentTerm (nLog (N v)) \<and> votedFor (nLog (N v)) = c"
      using kept that by (simp add: vote_kept_def)
    then show ?thesis using named[OF that] le by (cases "v = i") (auto simp: vote_le_def)
  qed
  have uniq: "c = c'" if "(v, t, c) \<in> V" "(v, t, c') \<in> V" for v t c c'
    using kept that unfolding vote_kept_def by blast
  have clash: "c = votedFor (nLog m)" if "(i, currentTerm (nLog m), c) \<in> V" for c
    using old[OF that] by simp
  show ?thesis
    unfolding vote_kept_def
  proof (intro conjI allI impI)
    fix v t c assume "(v, t, c) \<in> V'"
    then have "(v, t, c) \<in> V \<or> v = i \<and> t = currentTerm (nLog m) \<and> c = votedFor (nLog m)"
      using new by (auto simp: adds_vote_def)
    then show "t < currentTerm (nLog ((N(i := m)) v)) \<or>
        t = currentTerm (nLog ((N(i := m)) v)) \<and> votedFor (nLog ((N(i := m)) v)) = c"
      using old[of v t c] by (elim disjE) simp_all
  next
    fix v t c c' assume "(v, t, c) \<in> V'" "(v, t, c') \<in> V'"
    then show "c = c'" using new uniq clash by (auto simp: adds_vote_def)
  qed
qed

text \<open>What is left to show for a step that is a vote step of node \<open>i\<close>.\<close>

lemma cluster_inv_step:
  assumes inv: "cluster_inv content members s" and nonempty: "[] \<notin> members"
    and i: "i \<in> members" and st: "vote_step content (cNodes s i) m"
    and votes: "adds_vote i m (cVotes s) V'" and voted: "votedFor (nLog m) \<in> members \<or> V' = cVotes s"
    and reqs: "\<And>req. req \<in> R' \<Longrightarrow> req \<notin> cRequests s \<Longrightarrow> rvCandidateID req \<in> members"
    and resps: "\<And>r. r \<in> P' \<Longrightarrow> r \<notin> cResponses s \<Longrightarrow> response_ok members V' r"
    and att: "\<And>j a. A' j = Some a \<Longrightarrow> A' j \<noteq> cElections s j \<Longrightarrow> attempt_ok members V' j a"
  shows "cluster_inv content members
    \<lparr>cNodes = (cNodes s)(i := m), cRequests = R', cResponses = P', cElections = A', cVotes = V'\<rparr>"
proof -
  note D = cluster_invD[OF inv]
  have sub: "cVotes s \<subseteq> V'" using votes by (auto simp: adds_vote_def)
  have named: "c \<noteq> []" if "(v, t, c) \<in> cVotes s" for v t c
    using D(4) that nonempty by (auto simp: votes_named_def)
  have "vote_kept ((cNodes s)(i := m)) V'" by (rule vote_kept_step[OF D(3) st votes named])
  moreover have "votes_named members V'"
    using D(4) votes voted i by (auto simp: votes_named_def adds_vote_def)
  moreover have "member_ok content members j (((cNodes s)(i := m)) j) \<and>
      leader_ok members V' j (((cNodes s)(i := m)) j)" if "j \<in> members" for j
    using D(1,2)[OF that] member_ok_step[OF _ st] leader_ok_mono[OF leader_ok_step[OF _ st] sub]
      leader_ok_mono[OF _ sub] by (cases "j = i") auto
  moreover have "attempt_ok members V' j a" if "A' j = Some a" for j a
    using att[OF that] attempt_ok_mono[OF D(7) sub, of j a] that by (cases "A' j = cElections s j") auto
  moreover have "response_ok members V' r" if "r \<in> P'" for r
    using resps[OF that] response_ok_mono[OF D(6) sub, of r] by blast
  moreover have "rvCandidateID req \<in> members" if "req \<in> R'" for req
    using reqs[OF that] D(5) by blast
  ultimately show ?thesis unfolding cluster_inv_def by simp
qed

lemma leader_loop_frame:
  fixes n :: "'d node"
  shows "\<exists>x y. foldl (\<lambda>n p. n\<lparr>nNextIndex := AList.update (piID p) i (nNextIndex n),
      nMatchIndex := AList.update (piID p) 0 (nMatchIndex n)\<rparr>) n ps = n\<lparr>nNextIndex := x, nMatchIndex := y\<rparr>"
proof (induction ps arbitrary: n)
  case Nil
  have "n = n\<lparr>nNextIndex := nNextIndex n, nMatchIndex := nMatchIndex n\<rparr>" by simp
  then show ?case by (metis foldl_Nil)
next
  case (Cons p ps)
  show ?case
    using Cons[of "n\<lparr>nNextIndex := AList.update (piID p) i (nNextIndex n),
      nMatchIndex := AList.update (piID p) 0 (nMatchIndex n)\<rparr>"] by auto
qed

lemma becomeLeader_locked_eq:
  assumes "becomeLeader_locked n = (m, b)"
  shows "m = n \<or> (\<exists>x y. m = n\<lparr>nRole := Leader, nLeaderID := nID n, nLeaderClientAddr := nSelfClientAddr n,
    nNextIndex := x, nMatchIndex := y\<rparr>)"
proof -
  define n0 where "n0 = n\<lparr>nRole := Leader, nLeaderID := nID n, nLeaderClientAddr := nSelfClientAddr n\<rparr>"
  obtain x y where "foldl (\<lambda>n' p. n'\<lparr>nNextIndex := AList.update (piID p) (lastIndex (nLog n) + 1) (nNextIndex n'),
      nMatchIndex := AList.update (piID p) 0 (nMatchIndex n')\<rparr>) n0 (nPeers n) = n0\<lparr>nNextIndex := x, nMatchIndex := y\<rparr>"
    using leader_loop_frame by blast
  then have "m = n \<or> m = n0\<lparr>nNextIndex := x, nMatchIndex := y\<rparr>"
    using assms unfolding becomeLeader_locked_def Let_def n0_def[symmetric] by (auto split: if_splits)
  then show ?thesis by (auto simp: n0_def)
qed

lemma becomeLeader_locked_frame:
  assumes "becomeLeader_locked n = (m, b)"
  shows "nLog m = nLog n" "nID m = nID n" "nPeers m = nPeers n" "nWriteWaiters m = nWriteWaiters n"
    "nBuffers m = nBuffers n" "nNextChan m = nNextChan n"
  using becomeLeader_locked_eq[OF assms] by auto

lemma becomeLeader_locked_leader:
  assumes "nRole n = Candidate"
  shows "nRole (fst (becomeLeader_locked n)) = Leader"
proof -
  let ?n = "n\<lparr>nRole := Leader, nLeaderID := nID n, nLeaderClientAddr := nSelfClientAddr n\<rparr>"
  show ?thesis
    using assms leader_loop_frame[of "lastIndex (nLog n) + 1" ?n "nPeers n"]
    by (auto simp: becomeLeader_locked_def Let_def)
qed

text \<open>A candidate that becomes leader with a majority of votes behind it.\<close>

lemma cluster_inv_leader:
  assumes inv: "cluster_inv content members s" and i: "i \<in> members"
    and b: "becomeLeader_locked (cNodes s i) = (m, b)"
    and att: "\<And>j a. A' j = Some a \<Longrightarrow> cElections s j = Some a"
    and maj: "majority members Q" "\<And>j. j \<in> Q \<Longrightarrow> (j, currentTerm (nLog (cNodes s i)), i) \<in> cVotes s"
  shows "cluster_inv content members (s\<lparr>cNodes := (cNodes s)(i := m), cElections := A'\<rparr>)"
proof -
  note D = cluster_invD[OF inv]
  note m = becomeLeader_locked_frame[OF b]
  have logs: "nLog (((cNodes s)(i := m)) j) = nLog (cNodes s j)" for j by (simp add: m)
  have "vote_kept ((cNodes s)(i := m)) (cVotes s)" using D(3) unfolding vote_kept_def logs .
  moreover have "member_ok content members j (((cNodes s)(i := m)) j)" if "j \<in> members" for j
    using D(1)[OF that] by (auto simp: member_ok_def m)
  moreover have "leader_ok members (cVotes s) i m" using maj by (auto simp: leader_ok_def m)
  then have "leader_ok members (cVotes s) j (((cNodes s)(i := m)) j)" if "j \<in> members" for j
    using D(2)[OF that] by simp
  ultimately show ?thesis using D(4-7) att by (auto simp: cluster_inv_def)
qed

section \<open>Every step keeps the invariant\<close>

lemma needed_votes:
  assumes "member_ok content members i n" and "finite members" and "i \<in> members"
  shows "length (nPeers n) + 1 = card members"
proof -
  have "length (nPeers n) = card (members - {i})"
    using assms(1) distinct_card[of "map piID (nPeers n)"] by (simp add: member_ok_def)
  then show ?thesis using card_Suc_Diff1[OF assms(2,3)] by simp
qed

context raft_storage_sure
begin

lemma node_op_vstep: "node_op E C n m \<Longrightarrow> vstep n m"
  by (induction rule: node_op.induct;
      (erule HandleAppendEntries_vstep HandleInstallSnapshot_vstep appendLocal_vstep Propose_locked_vstep
          applyCommitted_vstep
        | rule replicateToPeer_response_vstep sendInstallSnapshot_request_vstep
          sendInstallSnapshot_response_vstep becomeFollower_vstep tryAdvanceCommitIndex_vstep
          Propose_select_vstep waitForApplied_locked_vstep))

lemma restart_vstep:
  assumes "NewNode E C (nID n) (nPeers n) opts (plEngine (nLog n)) sm st addr = Some (Inr m)"
    and meta: "vote_meta content (nLog n)"
  shows "vstep n m"
proof -
  obtain pl where o: "OpenPersistentLog E (plEngine (nLog n)) = Some (Inr pl)" and m: "nLog m = pl"
    "nID m = nID n" "nPeers m = nPeers n" "nRole m = Follower"
    using assms(1) by (auto simp: NewNode_def Let_def split: option.splits sum.splits prod.splits)
  note v = OpenPersistentLog_vote[OF meta o]
  then have "vote_meta content pl" using meta by (simp add: vote_meta_def)
  then show ?thesis using v m by (simp add: vote_step_def vote_le_def)
qed

lemma start_election_inv:
  assumes inv: "cluster_inv content members s" and ne: "[] \<notin> members" and i: "i \<in> members"
    and top: "currentTerm (nLog (cNodes s i)) \<noteq> - 1" and c: "becomeCandidate E (cNodes s i) = (n, t)"
    and m: "m = resetElectionTimer n" and req: "req = vote_request E C m t"
  shows "cluster_inv content members \<lparr>cNodes = (cNodes s)(i := m), cRequests = insert req (cRequests s),
       cResponses = cResponses s,
       cElections = (cElections s)(i := Some \<lparr>atRequest = req, atResponded = {}, atCount = first_count\<rparr>),
       cVotes = insert (i, t, i) (cVotes s)\<rparr>"
proof (rule cluster_inv_step[OF inv ne i])
  note bc = becomeCandidate_vstep[OF c top]
  have nid: "nID (cNodes s i) = i" using cluster_invD(1)[OF inv i] by (simp add: member_ok_def)
  have "vstep n m" by (simp add: m resetElectionTimer_def vote_step_same)
  then show "vstep (cNodes s i) m" using bc(1) vote_step_trans by blast
  have logs: "nLog m = nLog n" "nID m = nID n" by (simp_all add: m resetElectionTimer_def)
  have id: "nID m = i" using bc(1) nid logs by (simp add: vote_step_def)
  show "adds_vote i m (cVotes s) (insert (i, t, i) (cVotes s))"
    using bc(2,3) nid logs by (simp add: adds_vote_def)
  show "votedFor (nLog m) \<in> members \<or> insert (i, t, i) (cVotes s) = cVotes s"
    using bc(3) nid logs i by simp
  have cand: "rvCandidateID req = i" "rvTerm req = t" by (simp_all add: req vote_request_def id)
  show "rvCandidateID r \<in> members" if "r \<in> insert req (cRequests s)" "r \<notin> cRequests s" for r
    using that cand i by auto
  show "attempt_ok members (insert (i, t, i) (cVotes s)) j a"
    if "((cElections s)(i := Some \<lparr>atRequest = req, atResponded = {}, atCount = first_count\<rparr>)) j = Some a"
      "((cElections s)(i := Some \<lparr>atRequest = req, atResponded = {}, atCount = first_count\<rparr>)) j \<noteq> cElections s j"
    for j a
    using that i cand by (auto simp: attempt_ok_def first_count_def split: if_splits)
qed auto

lemma vote_rpc_inv:
  assumes inv: "cluster_inv content members s" and ne: "[] \<notin> members" and j: "j \<in> members"
    and req: "req \<in> cRequests s" "rvCandidateID req \<noteq> j"
    and h: "HandleRequestVote E C (cNodes s j) req = (m, resp)"
  shows "cluster_inv content members \<lparr>cNodes = (cNodes s)(j := m), cRequests = cRequests s,
       cResponses = insert (j, req, resp) (cResponses s), cElections = cElections s,
       cVotes = (if rvrVoteGranted resp then insert (j, rvTerm req, rvCandidateID req) (cVotes s) else cVotes s)\<rparr>"
proof (rule cluster_inv_step[OF inv ne j HandleRequestVote_vstep[OF h]])
  have cand: "rvCandidateID req \<in> members" using cluster_invD(5)[OF inv req(1)] .
  let ?V = "if rvrVoteGranted resp then insert (j, rvTerm req, rvCandidateID req) (cVotes s) else cVotes s"
  note rec = HandleRequestVote_records[OF h]
  show "adds_vote j m (cVotes s) ?V" using rec by (simp add: adds_vote_def)
  show "votedFor (nLog m) \<in> members \<or> ?V = cVotes s" using rec cand by simp
  show "response_ok members ?V r" if "r \<in> insert (j, req, resp) (cResponses s)" "r \<notin> cResponses s" for r
    using that j req(2) by (auto simp: response_ok_def)
qed auto

lemma election_step_count:
  assumes "election_step E t (VoteArrives r) (n, el) = (m, el')"
  shows "elVotes el' = elVotes el \<or> elVotes el' = Suc (elVotes el) \<and> vrGranted r"
    and "elWon el' \<Longrightarrow> elWon el \<or> elVotes el' \<ge> (length (nPeers n) + 1) div 2 + 1"
    and "\<not> vrGranted r \<Longrightarrow> elVotes el' = elVotes el"
  using assms by (auto simp: election_step_def Let_def split: if_splits)

lemma counted_inv:
  assumes inv: "cluster_inv content members s" and ne: "[] \<notin> members" and fin: "finite members"
    and a: "cElections s i = Some a" and notwon: "\<not> elWon (atCount a)"
    and j: "j \<in> members - {i}" "j \<notin> atResponded a"
    and es: "election_step E (rvTerm (atRequest a)) (VoteArrives r) (cNodes s i, atCount a) = (m, el)"
    and granted: "vrGranted r \<Longrightarrow> (j, rvTerm (atRequest a), i) \<in> cVotes s"
  shows "cluster_inv content members \<lparr>cNodes = (cNodes s)(i := m), cRequests = cRequests s,
       cResponses = cResponses s,
       cElections = (cElections s)(i := Some (a\<lparr>atResponded := insert j (atResponded a), atCount := el\<rparr>)),
       cVotes = cVotes s\<rparr>"
proof -
  let ?a = "a\<lparr>atResponded := insert j (atResponded a), atCount := el\<rparr>"
  have ok: "attempt_ok members (cVotes s) i a" using cluster_invD(7)[OF inv a] .
  then have i: "i \<in> members" by (simp add: attempt_ok_def)
  obtain S where S: "S \<subseteq> atResponded a" "card S + 1 = elVotes (atCount a)"
    "\<And>k. k \<in> S \<Longrightarrow> (k, rvTerm (atRequest a), i) \<in> cVotes s"
    using ok unfolding attempt_ok_def by blast
  have "finite S" using S(1) ok fin finite_subset[of S members] by (auto simp: attempt_ok_def)
  then have "card (insert j S) = Suc (card S)" using S(1) j(2) by (intro card_insert_disjoint) auto
  then have "\<exists>S' \<subseteq> insert j (atResponded a). card S' + 1 = elVotes el \<and>
      (\<forall>k \<in> S'. (k, rvTerm (atRequest a), i) \<in> cVotes s)"
    using election_step_count(1)[OF es] S granted
    by (elim disjE conjE) (rule exI[of _ S], auto, rule exI[of _ "insert j S"], auto)
  moreover have "elWon el \<Longrightarrow> elVotes el \<ge> card members div 2 + 1"
    using election_step_count(2)[OF es] notwon needed_votes[OF cluster_invD(1)[OF inv i] fin i] by simp
  ultimately have "attempt_ok members (cVotes s) i ?a"
    using ok j(1) by (auto simp: attempt_ok_def)
  moreover have "vstep (cNodes s i) m"
    using election_step_vstep[of "cNodes s i" "rvTerm (atRequest a)" r "atCount a"] es by simp
  ultimately show ?thesis
    by (intro cluster_inv_step[OF inv ne i]) (auto simp: adds_vote_def split: if_splits)
qed

lemma record_inv:
  assumes "cluster_inv content members \<lparr>cNodes = N, cRequests = cRequests s, cResponses = cResponses s,
    cElections = A, cVotes = cVotes s\<rparr>"
  shows "cluster_inv content members (s\<lparr>cNodes := N, cElections := A\<rparr>)"
  using assms by (simp add: cluster_inv_def)

lemma start_alone_inv:
  assumes inv: "cluster_inv content members s" and ne: "[] \<notin> members" and fin: "finite members" and i: "i \<in> members"
    and top: "currentTerm (nLog (cNodes s i)) \<noteq> - 1" and alone: "nPeers (cNodes s i) = []"
    and c: "becomeCandidate E (cNodes s i) = (n, t)" and b: "becomeLeader_locked (resetElectionTimer n) = (m, b)"
  shows "cluster_inv content members (s\<lparr>cNodes := (cNodes s)(i := m), cVotes := insert (i, t, i) (cVotes s)\<rparr>)"
proof -
  let ?r = "vote_request E C (resetElectionTimer n) t"
  let ?s = "\<lparr>cNodes = (cNodes s)(i := resetElectionTimer n), cRequests = insert ?r (cRequests s),
    cResponses = cResponses s,
    cElections = (cElections s)(i := Some \<lparr>atRequest = ?r, atResponded = {}, atCount = first_count\<rparr>),
    cVotes = insert (i, t, i) (cVotes s)\<rparr>"
  have inv': "cluster_inv content members ?s" by (rule start_election_inv[OF inv ne i top c refl refl])
  have "card members = 1" using needed_votes[OF cluster_invD(1)[OF inv i] fin i] alone by simp
  then have maj: "majority members {i}" using i by (simp add: majority_def)
  have trm: "currentTerm (nLog (resetElectionTimer n)) = t"
    using becomeCandidate_vstep(2)[OF c top] by (simp add: resetElectionTimer_def)
  have "cluster_inv content members (?s\<lparr>cNodes := (cNodes ?s)(i := m), cElections := (cElections ?s)(i := None)\<rparr>)"
    by (rule cluster_inv_leader[OF inv' i _ _ maj]) (use b trm in \<open>auto split: if_splits\<close>)
  then show ?thesis using cluster_invD(7)[OF inv] attempt_ok_mono[OF _ subset_insertI]
    by (auto simp: cluster_inv_def)
qed

lemma win_inv:
  assumes inv: "cluster_inv content members s" and fin: "finite members"
    and a: "cElections s i = Some a" and won: "elWon (atCount a)"
    and trm: "currentTerm (nLog (cNodes s i)) = rvTerm (atRequest a)"
    and b: "becomeLeader_locked (cNodes s i) = (m, b)"
  shows "cluster_inv content members (s\<lparr>cNodes := (cNodes s)(i := m), cElections := (cElections s)(i := None)\<rparr>)"
proof -
  have ok: "attempt_ok members (cVotes s) i a" using cluster_invD(7)[OF inv a] .
  then obtain S where S: "S \<subseteq> atResponded a" "card S + 1 = elVotes (atCount a)"
    "\<And>k. k \<in> S \<Longrightarrow> (k, rvTerm (atRequest a), i) \<in> cVotes s" unfolding attempt_ok_def by blast
  have mem: "i \<in> members" "S \<subseteq> members - {i}" using ok S(1) by (auto simp: attempt_ok_def)
  then have "card (insert i S) = Suc (card S)"
    using finite_subset[OF _ fin, of S] by (intro card_insert_disjoint) auto
  moreover have "elVotes (atCount a) \<ge> card members div 2 + 1" using ok won by (simp add: attempt_ok_def)
  ultimately have "majority members (insert i S)" using mem S(2) by (auto simp: majority_def)
  then show ?thesis
    by (rule cluster_inv_leader[OF inv mem(1) b, rotated])
       (use S(3) ok in \<open>auto simp: trm attempt_ok_def split: if_splits\<close>)
qed

lemma quiet_inv:
  assumes inv: "cluster_inv content members s" and ne: "[] \<notin> members" and i: "i \<in> members"
    and st: "vstep (cNodes s i) m" and A: "\<And>j a. A j = Some a \<Longrightarrow> cElections s j = Some a"
  shows "cluster_inv content members (s\<lparr>cNodes := (cNodes s)(i := m), cElections := A\<rparr>)"
proof (rule record_inv, rule cluster_inv_step[OF inv ne i st])
  show "attempt_ok members (cVotes s) j a" if "A j = Some a" "A j \<noteq> cElections s j" for j a
    using A[OF that(1)] that by simp
qed (simp_all add: adds_vote_def)

lemma vote_result_of_granted: "vrGranted (vote_result_of t (Inr resp)) \<Longrightarrow> rvrVoteGranted resp"
  "\<not> vrGranted (vote_result_of t (Inl err))"
  by (auto simp: vote_result_of_def split: if_splits)

lemma voting_step_inv:
  assumes "voting_step E C members s s'" and inv: "cluster_inv content members s"
    and ne: "[] \<notin> members" and fin: "finite members"
  shows "cluster_inv content members s'"
  using assms(1)
proof cases
  case (start_election i n t m req)
  then show ?thesis using start_election_inv[OF inv ne start_election(2,3,5-7)] by (simp add: cluster_inv_def)
next
  case (start_alone i n t m b)
  then show ?thesis using start_alone_inv[OF inv ne fin start_alone(2-6)] by simp
next
  case (vote_rpc j req m resp)
  then show ?thesis using vote_rpc_inv[OF inv ne vote_rpc(2-5)] by (simp add: cluster_inv_def)
next
  case (vote_result i a j resp m el)
  have ok: "response_ok members (cVotes s) (j, atRequest a, resp)" using cluster_invD(6)[OF inv vote_result(5)] .
  have "rvCandidateID (atRequest a) = i" using cluster_invD(7)[OF inv vote_result(2)] by (simp add: attempt_ok_def)
  then show ?thesis
    unfolding vote_result(1)
    by (intro record_inv counted_inv[OF inv ne fin vote_result(2,4) _ vote_result(6,7)])
       (use ok vote_result_of_granted in \<open>auto simp: response_ok_def\<close>)
next
  case (vote_error i a j err m el)
  then show ?thesis
    unfolding vote_error(1)
    by (intro record_inv counted_inv[OF inv ne fin vote_error(2,4) _ vote_error(7,8)])
       (simp_all add: vote_result_of_granted)
next
  case (win i a m b)
  then show ?thesis using win_inv[OF inv fin win(2,3,5,6)] by simp
next
  case (give_up i)
  then show ?thesis using inv by (auto simp: cluster_inv_def split: if_splits)
qed

theorem cluster_step_inv:
  assumes "cluster_step E C members s s'" and inv: "cluster_inv content members s"
    and ne: "[] \<notin> members" and fin: "finite members"
  shows "cluster_inv content members s'"
  using assms(1)
proof cases
  case voting
  then show ?thesis by (rule voting_step_inv[OF _ inv ne fin])
next
  case (other i m)
  then show ?thesis using quiet_inv[OF inv ne other(2) node_op_vstep[OF other(3)], of "cElections s"] by simp
next
  case (restart i opts sm st addr m)
  then have "vote_meta content (nLog (cNodes s i))" using cluster_invD(1)[OF inv] by (simp add: member_ok_def)
  then show ?thesis
    unfolding restart(1) by (intro quiet_inv[OF inv ne restart(2) restart_vstep[OF restart(3)]]) (auto split: if_splits)
qed

lemma cluster_reach_inv:
  assumes "cluster_reach E C members s0 s" and "cluster_start content members s0"
    and "[] \<notin> members" and "finite members"
  shows "cluster_inv content members s"
  using assms by (induction rule: cluster_reach.induct) (auto intro: cluster_start_inv cluster_step_inv)

text \<open>Two leaders of the same term have a voter in common, and it voted for one candidate.\<close>

lemma leaders_equal:
  assumes inv: "cluster_inv content members s" and fin: "finite members"
    and i: "i \<in> members" "nRole (cNodes s i) = Leader" and j: "j \<in> members" "nRole (cNodes s j) = Leader"
    and t: "currentTerm (nLog (cNodes s i)) = currentTerm (nLog (cNodes s j))"
  shows "i = j"
proof -
  obtain P where P: "majority members P" "\<And>k. k \<in> P \<Longrightarrow> (k, currentTerm (nLog (cNodes s i)), i) \<in> cVotes s"
    using cluster_invD(2)[OF inv i(1)] i(2) unfolding leader_ok_def by blast
  obtain Q where Q: "majority members Q" "\<And>k. k \<in> Q \<Longrightarrow> (k, currentTerm (nLog (cNodes s j)), j) \<in> cVotes s"
    using cluster_invD(2)[OF inv j(1)] j(2) unfolding leader_ok_def by blast
  obtain v where "v \<in> P" "v \<in> Q" using majorities_meet[OF fin P(1) Q(1)] by blast
  then show ?thesis using P(2) Q(2) t cluster_invD(3)[OF inv] unfolding vote_kept_def by metis
qed

end

end
