(* ===== verification/Election_Properties.thy ===== *)
theory Election_Properties
  imports Cluster
begin

text \<open>
  The properties of \<^verbatim>\<open>internal/raft/election.go\<close>: when a vote is granted, Election Safety of a cluster
  whose nodes run the code, that an election can be won, and the race in \<^verbatim>\<open>becomeCandidate\<close> that the
  safety theorem has to exclude.
\<close>

section \<open>When a vote is granted\<close>

text \<open>The answer of a node that grants the request, in the term of the request.\<close>

definition grants :: "'d engine \<Rightarrow> codec \<Rightarrow> 'd node \<Rightarrow> request_vote_request \<Rightarrow> bool" where
  "grants E C n req = (snd (HandleRequestVote E C n req) = \<lparr>rvrTerm = rvTerm req, rvrVoteGranted = True\<rparr>)"

lemma enough_voters:
  assumes "finite members" and "Q \<subseteq> members - {i}" and "2 * (card Q + 1) > card members"
  shows "\<exists>js. distinct js \<and> set js \<subseteq> Q \<and> length js = card members div 2"
proof -
  have "finite Q" using assms finite_subset[of Q members] by auto
  moreover have "card members div 2 \<le> card Q" using assms(3) by simp
  ultimately obtain R where "R \<subseteq> Q" "card R = card members div 2" "finite R"
    by (meson obtain_subset_with_card_n)
  then show ?thesis using finite_distinct_list[of R] distinct_card by metis
qed

lemma voting_reach: "(voting_step E C members)\<^sup>*\<^sup>* a b \<Longrightarrow> cluster_reach E C members a b"
  by (induction rule: rtranclp_induct) (auto intro: cluster_reach.intros cluster_step.voting)

context raft_storage_sure
begin

lemma HandleRequestVote_grants:
  assumes inv: "node_inv n"
  shows "grants E C n req =
    (currentTerm (nLog n) \<le> rvTerm req \<and>
     (currentTerm (nLog n) = rvTerm req \<longrightarrow> votedFor (nLog n) \<in> {[], rvCandidateID req}) \<and>
     up_to_date (node_log n) (rvLastLogIndex req) (rvLastLogTerm req))"
proof -
  have "candidateLogUpToDateLocked E C (vote_prepare E n (rvTerm req)) (rvLastLogIndex req) (rvLastLogTerm req)
      = up_to_date (node_log n) (rvLastLogIndex req) (rvLastLogTerm req)"
    using candidateLogUpToDate_abs[OF vote_prepare_inv[OF inv]]
      up_to_date_cong[OF vote_prepare_entries[OF inv, of "rvTerm req"]] by simp
  then show ?thesis by (auto simp: grants_def HandleRequestVote_alt Let_def vote_prepare_vote)
qed

section \<open>A run that elects a leader\<close>

lemma votes_run:
  assumes "cElections s i = Some a" "atRequest a = req" "req \<in> cRequests s" "rvCandidateID req = i"
    and "nRole (cNodes s i) = Candidate" "currentTerm (nLog (cNodes s i)) = rvTerm req" "nPeers (cNodes s i) \<noteq> []"
    and "distinct js" "set js \<subseteq> members - {i}" "set js \<inter> atResponded a = {}"
    and "\<And>j. j \<in> set js \<Longrightarrow> grants E C (cNodes s j) req"
    and "elVotes (atCount a) + length js = (length (nPeers (cNodes s i)) + 1) div 2 + 1"
    and "Suc (elResponses (atCount a)) = elVotes (atCount a)" "elWon (atCount a) = (js = [])"
  shows "\<exists>s'. (voting_step E C members)\<^sup>*\<^sup>* s s' \<and> nRole (cNodes s' i) = Leader \<and>
    currentTerm (nLog (cNodes s' i)) = rvTerm req"
  using assms
proof (induction js arbitrary: s a)
  case Nil
  obtain m b where b: "becomeLeader_locked (cNodes s i) = (m, b)" by force
  have "nRole m = Leader" using becomeLeader_locked_leader[OF Nil.prems(5)] b by simp
  moreover have "nLog m = nLog (cNodes s i)" using becomeLeader_locked_frame[OF b] by simp
  moreover have "voting_step E C members s
      (s\<lparr>cNodes := (cNodes s)(i := m), cElections := (cElections s)(i := None)\<rparr>)"
    by (rule voting_step.win[OF Nil.prems(1) _ Nil.prems(5) _ b]) (use Nil.prems in simp_all)
  ultimately show ?case
    using Nil.prems(6) by (intro exI[of _ "s\<lparr>cNodes := (cNodes s)(i := m), cElections := (cElections s)(i := None)\<rparr>"])
      (auto )
next
  case (Cons j js)
  obtain m resp where h: "HandleRequestVote E C (cNodes s j) req = (m, resp)" by force
  have g: "rvrVoteGranted resp" "rvrTerm resp = rvTerm req" using Cons.prems(11)[of j] h by (simp_all add: grants_def)
  have ij: "i \<noteq> j" "j \<in> members" "j \<notin> set js" "j \<notin> atResponded a" using Cons.prems(8-10) by auto
  let ?s1 = "s\<lparr>cNodes := (cNodes s)(j := m), cResponses := insert (j, req, resp) (cResponses s),
    cVotes := insert (j, rvTerm req, rvCandidateID req) (cVotes s)\<rparr>"
  have step1: "voting_step E C members s ?s1"
    using voting_step.vote_rpc[OF ij(2) Cons.prems(3) _ h] g(1) ij(1) Cons.prems(4) by simp
  let ?el = "\<lparr>elVotes = Suc (elVotes (atCount a)), elResponses = Suc (elResponses (atCount a)), elWon = (js = [])\<rparr>"
  have needed: "(Suc (elVotes (atCount a)) \<ge> (length (nPeers (cNodes s i)) + 1) div 2 + 1) = (js = [])"
    using Cons.prems(12) by (cases js) simp_all
  have "vote_result_of (rvTerm req) (Inr resp) = \<lparr>vrGranted = True, vrHigherTerm = 0\<rparr>"
    using g by (simp add: vote_result_of_def)
  then have es: "election_step E (rvTerm req) (VoteArrives (vote_result_of (rvTerm req) (Inr resp))) (cNodes s i, atCount a)
      = (cNodes s i, ?el)"
    using needed Cons.prems(5,6,14) by (simp add: election_step_def Let_def word_less_nat_alt del: One_nat_def)
  let ?a = "a\<lparr>atResponded := insert j (atResponded a), atCount := ?el\<rparr>"
  let ?s2 = "?s1\<lparr>cNodes := (cNodes ?s1)(i := cNodes s i), cElections := (cElections ?s1)(i := Some ?a)\<rparr>"
  have less: "elResponses (atCount a) < length (nPeers (cNodes s i))"
  proof -
    have "elResponses (atCount a) < (length (nPeers (cNodes s i)) + 1) div 2"
      using Cons.prems(12,13) by simp
    also have "\<dots> \<le> length (nPeers (cNodes s i))" using Cons.prems(7) by (cases "nPeers (cNodes s i)") simp_all
    finally show ?thesis .
  qed
  have step2: "voting_step E C members ?s1 ?s2"
    by (rule voting_step.vote_result[where i=i and a=a and j=j and resp=resp])
       (use Cons.prems(1,2,14) less ij es in simp_all)
  have "\<exists>s'. (voting_step E C members)\<^sup>*\<^sup>* ?s2 s' \<and> nRole (cNodes s' i) = Leader \<and>
      currentTerm (nLog (cNodes s' i)) = rvTerm req"
    by (rule Cons.IH[of ?s2 ?a]) (use Cons.prems ij in auto)
  then show ?case using step1 step2 by (blast intro: converse_rtranclp_into_rtranclp)
qed

lemma vote_request_abs:
  "node_inv n \<Longrightarrow> rvLastLogIndex (vote_request E C n t) = alog_last (node_log n)"
  "node_inv n \<Longrightarrow> rvLastLogTerm (vote_request E C n t) = alog_last_term (node_log n)"
  using LastTerm_abs[of "nLog n"] plog_invD(1)[of C "disk (nLog n)" "nLog n"] by (simp_all add: vote_request_def)

lemma candidate_request:
  assumes inv: "node_inv n" and c: "becomeCandidate E n = (n', t)"
  shows "rvTerm (vote_request E C (resetElectionTimer n') t) = t"
    "rvCandidateID (vote_request E C (resetElectionTimer n') t) = nID n"
    "rvLastLogIndex (vote_request E C (resetElectionTimer n') t) = alog_last (node_log n)"
    "rvLastLogTerm (vote_request E C (resetElectionTimer n') t) = alog_last_term (node_log n)"
proof -
  let ?m = "set_term_and_vote E t (nID n) n"
  have m: "nLog (resetElectionTimer n') = nLog ?m" "nID (resetElectionTimer n') = nID n"
    using c by (auto simp: becomeCandidate_def becomeCandidate_set_def Let_def resetElectionTimer_def)
  show "rvTerm (vote_request E C (resetElectionTimer n') t) = t"
    "rvCandidateID (vote_request E C (resetElectionTimer n') t) = nID n"
    by (simp_all add: vote_request_def m)
  show "rvLastLogIndex (vote_request E C (resetElectionTimer n') t) = alog_last (node_log n)"
    "rvLastLogTerm (vote_request E C (resetElectionTimer n') t) = alog_last_term (node_log n)"
    using vote_request_abs[OF set_term_and_vote_inv[OF inv, of t "nID n"]] set_term_and_vote_entries[OF inv, of t "nID n"]
    by (simp_all add: vote_request_def m alog_last_term_def alog_last_def)
qed

lemma election_run:
  assumes fin: "finite members" and i: "i \<in> members" and ok: "member_ok content members i (cNodes s i)"
    and inv: "node_inv (cNodes s i)" and top: "currentTerm (nLog (cNodes s i)) \<noteq> - 1"
    and Q: "Q \<subseteq> members - {i}" "2 * (card Q + 1) > card members"
    and willing: "\<And>j. j \<in> Q \<Longrightarrow> node_inv (cNodes s j) \<and>
      currentTerm (nLog (cNodes s j)) \<le> currentTerm (nLog (cNodes s i)) \<and>
      up_to_date (node_log (cNodes s j)) (alog_last (node_log (cNodes s i))) (alog_last_term (node_log (cNodes s i)))"
  shows "\<exists>s'. (voting_step E C members)\<^sup>*\<^sup>* s s' \<and> nRole (cNodes s' i) = Leader \<and>
    currentTerm (nLog (cNodes s' i)) = currentTerm (nLog (cNodes s i)) + 1"
proof -
  obtain n t where c: "becomeCandidate E (cNodes s i) = (n, t)" by force
  note bc = becomeCandidate_vstep[OF c top]
  define m where "m = resetElectionTimer n"
  have t: "t = currentTerm (nLog (cNodes s i)) + 1" using c by (simp add: becomeCandidate_def Let_def)
  have m: "nLog m = nLog n" "nRole m = Candidate" "nPeers m = nPeers (cNodes s i)" "nID m = i"
    using bc ok by (simp_all add: m_def resetElectionTimer_def vote_step_def member_ok_def)
  show ?thesis
  proof (cases "nPeers (cNodes s i) = []")
    case True
    obtain m' b where b: "becomeLeader_locked m = (m', b)" by force
    have "nRole m' = Leader" "nLog m' = nLog n"
      using becomeLeader_locked_leader[OF m(2)] becomeLeader_locked_frame[OF b] b m(1) by simp_all
    moreover note voting_step.start_alone[OF i top True c b[unfolded m_def]]
    ultimately show ?thesis
      using bc(2) t by (intro exI conjI converse_rtranclp_into_rtranclp[OF _ rtranclp.rtrancl_refl]) auto
  next
    case False
    define req where "req = vote_request E C m t"
    let ?a = "\<lparr>atRequest = req, atResponded = {}, atCount = first_count\<rparr>"
    let ?s1 = "s\<lparr>cNodes := (cNodes s)(i := m), cRequests := insert req (cRequests s),
       cElections := (cElections s)(i := Some ?a), cVotes := insert (i, t, i) (cVotes s)\<rparr>"
    have step: "voting_step E C members s ?s1"
      by (rule voting_step.start_election[OF i top False c m_def req_def])
    obtain js where js: "distinct js" "set js \<subseteq> Q" "length js = card members div 2"
      using enough_voters[OF fin Q] by blast
    note reqs = candidate_request[OF inv c, folded m_def, folded req_def]
    have cand: "rvCandidateID req = i" using reqs(2) ok by (simp add: member_ok_def)
    have grant: "grants E C (cNodes s j) req" if "j \<in> Q" for j
    proof -
      have "currentTerm (nLog (cNodes s j)) < t" using willing[OF that] bc(5) by (meson order.strict_trans1)
      then show ?thesis using HandleRequestVote_grants[of "cNodes s j" req] willing[OF that] reqs by auto
    qed
    have "js \<noteq> []" using js(3) needed_votes[OF ok fin i] False by (cases "nPeers (cNodes s i)") auto
    then have "\<exists>s'. (voting_step E C members)\<^sup>*\<^sup>* ?s1 s' \<and> nRole (cNodes s' i) = Leader \<and>
        currentTerm (nLog (cNodes s' i)) = rvTerm req"
      using js Q(1) grant m reqs cand False needed_votes[OF ok fin i] bc(2)
      by (intro votes_run[where a = ?a and js = js]) (auto simp: first_count_def)
    then show ?thesis using step reqs(1) t by (auto intro: converse_rtranclp_into_rtranclp)
  qed
qed

end

section \<open>A cluster for the witnesses\<close>

definition ex_members :: "string set" where
  "ex_members = {''a'', ''b'', ''c''}"

definition ex_cluster :: "memdb cluster" where
  "ex_cluster =
     \<lparr>cNodes = (\<lambda>i. ex_node i (if i = ''a'' then [''b'', ''c''] else if i = ''b'' then [''a'', ''c''] else [''a'', ''b'']) ex_log0),
      cRequests = {}, cResponses = {}, cElections = (\<lambda>i. None), cVotes = {}\<rparr>"

lemma ex_node0_inv: "stored_inv mem_content gob_codec (ex_node i ps ex_log0)"
  using ex_log0_inv by simp

lemma ex_cluster_start: "cluster_start mem_content ex_members ex_cluster"
  using plog_invD(7,8)[OF ex_log0_inv]
  by (auto simp: cluster_start_def ex_cluster_def ex_members_def member_ok_def vote_meta_def)

lemma ex_up_to_date: "up_to_date (plog_abs gob_codec (mem_content (plEngine ex_log0)) ex_log0)
    (alog_last (plog_abs gob_codec (mem_content (plEngine ex_log0)) ex_log0))
    (alog_last_term (plog_abs gob_codec (mem_content (plEngine ex_log0)) ex_log0))"
  by (simp add: up_to_date_def)

section \<open>The properties\<close>






text \<open>A request of node b in term 1, which node a with the empty log grants.\<close>

definition ex_vote_request :: request_vote_request where
  "ex_vote_request = \<lparr>rvTerm = 1, rvCandidateID = ''b'', rvLastLogIndex = 0, rvLastLogTerm = 0\<rparr>"


text \<open>C38.
  The race of \<^verbatim>\<open>becomeCandidate\<close>. A node reads its term \<open>t\<close>; before it sets term and vote, its server
  answers a request of another candidate for term \<open>t + 1\<close>, whose log is up to date. The node grants
  that request and then overwrites the vote: it has voted for two candidates in term \<open>t + 1\<close>.
\<close>

theorem becomeCandidate_double_vote:
  assumes "raft_storage_sure E content C" and "stored_inv content C n" and "currentTerm (nLog n) \<noteq> - 1"
    and "rvTerm req = snd (becomeCandidate E n)" and "rvCandidateID req \<noteq> nID n"
    and "up_to_date (stored_log content C n) (rvLastLogIndex req) (rvLastLogTerm req)"
    and "HandleRequestVote E C n req = (m, resp)" and "n' = becomeCandidate_set E (snd (becomeCandidate E n)) m"
  shows "rvrVoteGranted resp \<and> votedFor (nLog m) = rvCandidateID req \<and> currentTerm (nLog m) = rvTerm req
    \<and> nRole n' = Candidate \<and> votedFor (nLog n') = nID n \<and> currentTerm (nLog n') = rvTerm req"
proof -
  have t: "rvTerm req = currentTerm (nLog n) + 1" using assms(4) by (simp add: becomeCandidate_def Let_def)
  have "currentTerm (nLog n) < rvTerm req" unfolding t using assms(3) by (simp add: word_less_nat_alt)
  then have g: "resp = \<lparr>rvrTerm = rvTerm req, rvrVoteGranted = True\<rparr>"
    using raft_storage_sure.HandleRequestVote_grants[OF assms(1,2), of req] assms(6,7) by (auto simp: grants_def)
  have "nID m = nID n" using raft_storage_sure.HandleRequestVote_vstep[OF assms(1,7)] by (simp add: vote_step_def)
  then show ?thesis
    using g raft_storage_sure.HandleRequestVote_records[OF assms(1,7)] assms(4,8)
      raft_storage_sure.set_term_and_vote_sure[OF assms(1)]
    by (simp add: becomeCandidate_set_def Let_def)
qed

theorem becomeCandidate_double_vote_witness:
  "\<exists>m resp. HandleRequestVote sureE gob_codec (ex_node ''a'' [''b''] ex_log0) ex_vote_request = (m, resp) \<and>
     rvrVoteGranted resp \<and> votedFor (nLog m) = ''b'' \<and> currentTerm (nLog m) = 1 \<and>
     votedFor (nLog (becomeCandidate_set sureE 1 m)) = ''a'' \<and> currentTerm (nLog (becomeCandidate_set sureE 1 m)) = 1"
proof -
  obtain m resp where h: "HandleRequestVote sureE gob_codec (ex_node ''a'' [''b''] ex_log0) ex_vote_request = (m, resp)"
    by force
  have t: "snd (becomeCandidate sureE (ex_node ''a'' [''b''] ex_log0)) = 1"
    by (simp add: becomeCandidate_def ex_log0_def)
  show ?thesis
    using becomeCandidate_double_vote[OF sstore.raft_storage_sure_axioms ex_node0_inv _ _ _ _ h refl] h t
    by (simp add: ex_vote_request_def ex_log0_abs up_to_date_def alog_last_def alog_last_term_def
        ex_log0_def[THEN arg_cong, of currentTerm])
qed

end
