(* ===== verification/Replication_Proofs.thy ===== *)
theory Replication_Proofs
  imports Vote_Proofs
begin

text \<open>
  What the replication code does to the abstract logs of leader and follower: the slice a leader
  sends, the follower's consistency check and overwrite, the agreement they reach, and the median of
  the match indexes.
\<close>

section \<open>Reading an abstract log after an append\<close>

lemma appendable_wf:
  assumes "alog_wf a" and "appendable a es" and "es \<noteq> []"
  shows "alog_last (alog_append es a) = eIndex (last es)"
    and "unat (logBase a) < unat (eIndex (hd es))"
    and "unat (eIndex (hd es)) \<le> Suc (unat (logBase a) + length (logEntries a))"
    and "Suc (unat (eIndex (last es))) = unat (eIndex (hd es)) + length es"
proof -
  have c: "contiguous (eIndex (hd es)) es" "unat (eIndex (hd es)) + length es < 2 ^ 64"
    and lo: "unat (logBase a) < unat (eIndex (hd es))"
    and hi: "unat (eIndex (hd es)) \<le> Suc (unat (alog_last a))"
    using assms(2,3) by (auto simp: appendable_def word_less_nat_alt)
  show "unat (logBase a) < unat (eIndex (hd es))" by (rule lo)
  have "unat (alog_last a) = unat (logBase a) + length (logEntries a)"
    using assms(1) by (simp add: alog_last_def alog_wf_def unat_plus_of_nat)
  then show hi': "unat (eIndex (hd es)) \<le> Suc (unat (logBase a) + length (logEntries a))" using hi by simp
  show l: "Suc (unat (eIndex (last es))) = unat (eIndex (hd es)) + length es"
    by (rule unat_last_contiguous[OF c(1) assms(3) c(2)])
  have "unat (logBase a) + length (logEntries (alog_append es a)) = unat (eIndex (last es))"
    using l lo hi' assms(3) by (simp add: alog_append_def)
  then have "logBase a + of_nat (length (logEntries (alog_append es a))) = eIndex (last es)"
    by (rule plus_of_nat_eq)
  moreover have "logBase (alog_append es a) = logBase a" by (simp add: alog_append_def)
  ultimately show "alog_last (alog_append es a) = eIndex (last es)" by (simp only: alog_last_def)
qed

lemma alog_entry_append:
  assumes "alog_wf a" and "appendable a es" and "es \<noteq> []"
  shows "i < eIndex (hd es) \<Longrightarrow> alog_entry (alog_append es a) i = alog_entry a i"
    and "eIndex (hd es) \<le> i \<Longrightarrow> i \<le> eIndex (last es) \<Longrightarrow>
      alog_entry (alog_append es a) i = Some (es ! (unat i - unat (eIndex (hd es))))"
    and "eIndex (last es) < i \<Longrightarrow> alog_entry (alog_append es a) i = None"
proof -
  note w = appendable_wf[OF assms]
  have base: "logBase (alog_append es a) = logBase a" by (simp add: alog_append_def)
  have last: "unat (alog_last a) = unat (logBase a) + length (logEntries a)"
    using assms(1) by (simp add: alog_last_def alog_wf_def unat_plus_of_nat)
  have len: "length (take (unat (eIndex (hd es)) - unat (logBase a) - 1) (logEntries a))
      = unat (eIndex (hd es)) - unat (logBase a) - 1" using w by simp
  have ents: "logEntries (alog_append es a)
      = take (unat (eIndex (hd es)) - unat (logBase a) - 1) (logEntries a) @ es"
    using assms(3) by (simp add: alog_append_def)
  show "alog_entry (alog_append es a) i = alog_entry a i" if "i < eIndex (hd es)"
  proof -
    have "unat i < unat (eIndex (hd es))" using that by (simp add: word_less_nat_alt)
    moreover have "length es > 0" using assms(3) by simp
    ultimately show ?thesis
      using w(2-4) last by (auto simp: alog_entry_def base w(1) ents nth_append len word_less_nat_alt word_le_nat_alt)
  qed
  show "alog_entry (alog_append es a) i = Some (es ! (unat i - unat (eIndex (hd es))))"
    if "eIndex (hd es) \<le> i" "i \<le> eIndex (last es)"
  proof -
    have "unat (eIndex (hd es)) \<le> unat i" using that by (simp add: word_le_nat_alt)
    moreover from this have "\<not> unat i - unat (logBase a) - 1 < unat (eIndex (hd es)) - unat (logBase a) - 1"
      "unat i - unat (logBase a) - 1 - (unat (eIndex (hd es)) - unat (logBase a) - 1) = unat i - unat (eIndex (hd es))"
      using w(2) by simp_all
    ultimately show ?thesis
      using that w(1,2) len by (simp add: alog_entry_def base ents nth_append word_less_nat_alt del: length_take)
  qed
  show "alog_entry (alog_append es a) i = None" if "eIndex (last es) < i"
    using that by (auto simp: alog_entry_def w(1))
qed

lemma alog_entry_cong:
  "logBase a = logBase b \<Longrightarrow> logEntries a = logEntries b \<Longrightarrow> alog_entry a i = alog_entry b i"
  by (simp add: alog_entry_def alog_last_def)

lemma alog_term_cong:
  "logBase a = logBase b \<Longrightarrow> logBaseTerm a = logBaseTerm b \<Longrightarrow> logEntries a = logEntries b \<Longrightarrow>
   alog_term a i = alog_term b i"
  by (simp add: alog_term_def alog_entry_def alog_last_def)

lemma alog_term_range: "alog_wf a \<Longrightarrow> alog_term a i = Some t \<Longrightarrow> logBase a \<le> i \<and> i \<le> alog_last a"
  by (auto simp: alog_term_def alog_entry_def alog_last_def alog_wf_def word_le_nat_alt unat_plus_of_nat
      word_less_nat_alt split: if_splits)

lemma alog_entry_SomeD: "alog_entry a i = Some e \<Longrightarrow> logBase a < i \<and> i \<le> alog_last a"
  by (simp add: alog_entry_def split: if_splits)

lemma alog_entry_index: "alog_wf a \<Longrightarrow> alog_entry a i = Some e \<Longrightarrow> eIndex e = i"
proof -
  assume wf: "alog_wf a" and e: "alog_entry a i = Some e"
  have i: "unat (logBase a) < unat i" "unat i \<le> unat (logBase a) + length (logEntries a)"
    using wf alog_entry_SomeD[OF e]
    by (auto simp: alog_last_def alog_wf_def word_le_nat_alt word_less_nat_alt unat_plus_of_nat)
  let ?k = "unat i - unat (logBase a) - 1"
  have "e = logEntries a ! ?k" using e by (simp add: alog_entry_def split: if_splits)
  moreover have "eIndex (logEntries a ! ?k) = logBase a + 1 + of_nat ?k"
    using wf i by (intro contiguous_nth) (auto simp: alog_wf_def)
  moreover have "logBase a + of_nat (Suc ?k) = i" using i by (intro plus_of_nat_eq) simp
  ultimately show "eIndex e = i" by (simp add: add.assoc)
qed

section \<open>The follower's handler\<close>

text \<open>The consistency check of the paper, on the abstract log.\<close>

definition prev_matches :: "alog \<Rightarrow> append_entries_request \<Rightarrow> bool" where
  "prev_matches a req =
     (aePrevLogIndex req = 0 \<or> alog_term a (aePrevLogIndex req) = Some (aePrevLogTerm req))"

text \<open>
  The entries of a request follow its previous index. A request that starts at the beginning of the
  log skips the check, so it is only meant for a log that was not compacted.
\<close>

definition ae_wf :: "alog \<Rightarrow> append_entries_request \<Rightarrow> bool" where
  "ae_wf a req =
     (contiguous (aePrevLogIndex req + 1) (aeEntries req) \<and>
      unat (aePrevLogIndex req) + length (aeEntries req) < 2 ^ 64 - 1 \<and>
      (aePrevLogIndex req = 0 \<longrightarrow> logBase a = 0))"

lemma ae_appendable:
  assumes wf: "alog_wf a" and req: "ae_wf a req" and m: "prev_matches a req"
  shows "appendable a (aeEntries req)"
proof (cases "aeEntries req")
  case (Cons e es)
  have "logBase a \<le> aePrevLogIndex req \<and> aePrevLogIndex req \<le> alog_last a"
    using m req alog_term_range[OF wf] by (auto simp: prev_matches_def ae_wf_def)
  moreover have ne: "aePrevLogIndex req \<noteq> - 1" using req unfolding ae_wf_def not_max_unat by simp
  moreover have "eIndex (hd (aeEntries req)) = aePrevLogIndex req + 1" using req Cons by (simp add: ae_wf_def)
  ultimately show ?thesis
    using req by (simp add: appendable_def ae_wf_def word_less_nat_alt word_le_nat_alt)
qed (simp add: appendable_def)

lemma HandleAppendEntries_term_cases:
  assumes "HandleAppendEntries_term E n req = Inr (n1, t)"
  shows "\<not> aeTerm req < currentTerm (nLog n)" "t = aeTerm req"
    "nLog n1 = (if aeTerm req > currentTerm (nLog n) then nLog (set_term_and_vote E (aeTerm req) [] n) else nLog n)"
    "nCommitIndex n1 = nCommitIndex n" "nLastApplied n1 = nLastApplied n" "nOpts n1 = nOpts n" "nSM n1 = nSM n"
    "nRole n1 \<noteq> Candidate"
  using assms
  by (auto simp: HandleAppendEntries_term_def Let_def resetElectionTimer_def set_term_and_vote_def
      split: if_splits prod.splits)

lemma advance_commit_fields:
  "nLog (advance_commit n c) = nLog n" "nLastApplied (advance_commit n c) = nLastApplied n"
  "nSM (advance_commit n c) = nSM n"
  "nCommitIndex (advance_commit n c) = max (nCommitIndex n) (min c (lastIndex (nLog n)))"
  by (auto simp: advance_commit_def signalCommitAdvanced_def Let_def max_def min_def)

context raft_storage_reads
begin

lemma HandleAppendEntries_term_log:
  assumes "HandleAppendEntries_term E n req = Inr (n1, t)" and "node_inv n"
  shows "node_inv n1" "logBase (node_log n1) = logBase (node_log n)"
    "logBaseTerm (node_log n1) = logBaseTerm (node_log n)" "logEntries (node_log n1) = logEntries (node_log n)"
  using HandleAppendEntries_term_cases(3)[OF assms(1)] assms(2) set_term_and_vote_inv[of n]
    set_term_and_vote_entries[of n] by auto

lemma consistency_check_abs:
  "inv pl \<Longrightarrow> consistency_check E C pl req t = None \<longleftrightarrow> prev_matches (absl pl) req"
  by (auto simp: consistency_check_def prev_matches_def TermAt_abs word_gt_0 split: option.splits)

lemma consistency_check_refuses:
  "consistency_check E C pl req t = Some resp \<Longrightarrow> \<not> aerSuccess resp \<and> aerTerm resp = t"
  by (auto simp: consistency_check_def split: option.splits if_splits)

lemma HandleAppendEntries_returns: "node_inv n \<Longrightarrow> \<exists>n' resp. HandleAppendEntries E C n req = Some (n', resp)"
proof -
  assume inv: "node_inv n"
  show ?thesis
  proof (cases "HandleAppendEntries_term E n req")
    case (Inr p)
    obtain n1 t where p: "p = (n1, t)" by force
    obtain pl r where "AppendEntries E C (nLog n1) (aeEntries req) (FsyncOnAppend (nOpts n1)) = Some (pl, r)"
      using AppendEntries_returns HandleAppendEntries_term_log(1)[OF Inr[unfolded p] inv] by blast
    then show ?thesis
      using Inr p by (cases "consistency_check E C (nLog n1) req t") (auto simp: HandleAppendEntries_def Let_def)
  qed (simp add: HandleAppendEntries_def)
qed

text \<open>An accepted request, and a refused one.\<close>

lemma HandleAppendEntries_accepted:
  assumes inv: "node_inv n" and wf: "ae_wf (node_log n) req"
    and h: "HandleAppendEntries E C n req = Some (n', resp)" and ok: "aerSuccess resp"
  shows "currentTerm (nLog n) \<le> aeTerm req" "prev_matches (node_log n) req" "node_inv n'"
    "logBase (node_log n') = logBase (node_log n)" "logBaseTerm (node_log n') = logBaseTerm (node_log n)"
    "logEntries (node_log n') = logEntries (alog_append (aeEntries req) (node_log n))"
    "nCommitIndex n' = max (nCommitIndex n) (min (aeLeaderCommit req) (lastIndex (nLog n')))"
    "nLastApplied n' = nLastApplied n" "aerTerm resp = aeTerm req" "nSM n' = nSM n"
proof -
  obtain n1 t where t: "HandleAppendEntries_term E n req = Inr (n1, t)"
    using h ok by (auto simp: HandleAppendEntries_def ae_response_def split: sum.splits)
  note T = HandleAppendEntries_term_cases[OF t] HandleAppendEntries_term_log[OF t inv]
  have c: "consistency_check E C (nLog n1) req t = None"
    using h ok t consistency_check_refuses by (fastforce simp: HandleAppendEntries_def split: option.splits)
  have m1: "prev_matches (node_log n1) req" using c T(9) consistency_check_abs by blast
  then show m: "prev_matches (node_log n) req"
    using alog_term_cong[OF T(10-12)] by (simp add: prev_matches_def)
  show "currentTerm (nLog n) \<le> aeTerm req" using T(1) by simp
  have "ae_wf (node_log n1) req" using wf T(10) by (simp add: ae_wf_def)
  then have ap: "appendable (node_log n1) (aeEntries req)"
    using ae_appendable[OF alog_wf_plog[OF T(9)] _ m1] by blast
  obtain pl where a: "AppendEntries E C (nLog n1) (aeEntries req) (FsyncOnAppend (nOpts n1)) = Some (pl, None)"
    and n': "n' = advance_commit (n1\<lparr>nLog := pl\<rparr>) (aeLeaderCommit req)" and r: "resp = ae_response t True"
    using h ok t c
    by (cases "aeEntries req") (auto simp: HandleAppendEntries_def ae_response_def AppendEntries_def Let_def
        split: option.splits if_splits bind_splits prod.splits)
  note A = AppendEntries_done[OF T(9) ap a]
  show "node_inv n'" using A(1) by (simp add: n' advance_commit_fields)
  show "logBase (node_log n') = logBase (node_log n)" "logBaseTerm (node_log n') = logBaseTerm (node_log n)"
    "logEntries (node_log n') = logEntries (alog_append (aeEntries req) (node_log n))"
    using A(2) T(10-12) by (auto simp: n' advance_commit_fields alog_append_def)
  show "nCommitIndex n' = max (nCommitIndex n) (min (aeLeaderCommit req) (lastIndex (nLog n')))"
    "nLastApplied n' = nLastApplied n" "aerTerm resp = aeTerm req" "nSM n' = nSM n"
    using T by (simp_all add: n' r advance_commit_fields ae_response_def)
qed

lemma HandleAppendEntries_refused:
  assumes inv: "node_inv n" and h: "HandleAppendEntries E C n req = Some (n', resp)" and no: "\<not> aerSuccess resp"
  shows "node_inv n'" "logBase (node_log n') = logBase (node_log n)"
    "logBaseTerm (node_log n') = logBaseTerm (node_log n)" "logEntries (node_log n') = logEntries (node_log n)"
    "nCommitIndex n' = nCommitIndex n" "nLastApplied n' = nLastApplied n" "nSM n' = nSM n"
proof -
  have "node_inv n' \<and> logBase (node_log n') = logBase (node_log n) \<and>
    logBaseTerm (node_log n') = logBaseTerm (node_log n) \<and> logEntries (node_log n') = logEntries (node_log n) \<and>
    nCommitIndex n' = nCommitIndex n \<and> nLastApplied n' = nLastApplied n \<and> nSM n' = nSM n"
  proof (cases "HandleAppendEntries_term E n req")
    case (Inl m)
    then have "n' = n" using h by (auto simp: HandleAppendEntries_def HandleAppendEntries_term_def Let_def split: if_splits prod.splits)
    then show ?thesis using inv by simp
  next
    case (Inr p)
    obtain n1 t where p: "p = (n1, t)" by force
    note T = HandleAppendEntries_term_cases[OF Inr[unfolded p]] HandleAppendEntries_term_log[OF Inr[unfolded p] inv]
    consider "n' = n1" | pl err where "n' = n1\<lparr>nLog := pl\<rparr>"
      "AppendEntries E C (nLog n1) (aeEntries req) (FsyncOnAppend (nOpts n1)) = Some (pl, Some err)"
      using h no Inr p by (auto simp: HandleAppendEntries_def ae_response_def Let_def
          split: option.splits if_splits bind_splits prod.splits)
    then show ?thesis
    proof cases
      case 1
      then show ?thesis using T by simp
    next
      case 2
      then show ?thesis using T AppendEntries_failed[OF T(9) 2(2)] by simp
    qed
  qed
  then show "node_inv n'" "logBase (node_log n') = logBase (node_log n)"
    "logBaseTerm (node_log n') = logBaseTerm (node_log n)" "logEntries (node_log n') = logEntries (node_log n)"
    "nCommitIndex n' = nCommitIndex n" "nLastApplied n' = nLastApplied n" "nSM n' = nSM n" by blast+
qed

end

section \<open>The leader's requests\<close>

text \<open>The entries of a log from one index to another.\<close>

definition log_slice :: "alog \<Rightarrow> u64 \<Rightarrow> u64 \<Rightarrow> entry list" where
  "log_slice a lo hi = map (\<lambda>i. the (alog_entry a i)) (u64_range lo hi)"

lemma log_slice_nth:
  assumes "alog_wf a" and "logBase a < lo" and "hi \<le> alog_last a" and "lo \<le> i" and "i \<le> hi"
  shows "alog_entry a i = Some (log_slice a lo hi ! (unat i - unat lo))"
proof -
  have i: "unat lo \<le> unat i" "unat i \<le> unat hi" using assms(4,5) by (simp_all add: word_le_nat_alt)
  then have "unat i - unat lo < length (u64_range lo hi)" by simp
  then have "log_slice a lo hi ! (unat i - unat lo) = the (alog_entry a (lo + of_nat (unat i - unat lo)))"
    by (simp add: log_slice_def nth_u64_range)
  moreover have "lo + of_nat (unat i - unat lo) = i" using i by (intro plus_of_nat_eq) simp
  ultimately have nth: "log_slice a lo hi ! (unat i - unat lo) = the (alog_entry a i)" by simp
  have "logBase a < i" "i \<le> alog_last a"
    using assms by (auto simp: word_le_nat_alt word_less_nat_alt)
  then show ?thesis unfolding nth by (simp add: alog_entry_def)
qed

lemma log_slice_contiguous:
  assumes "alog_wf a" and "logBase a < lo" and "hi \<le> alog_last a"
  shows "contiguous lo (log_slice a lo hi)"
proof (rule contiguousI)
  fix k assume "k < length (log_slice a lo hi)"
  then have k: "k < length (u64_range lo hi)" by (simp add: log_slice_def)
  let ?i = "lo + of_nat k"
  have "?i \<in> set (u64_range lo hi)" using nth_mem[OF k] nth_u64_range[OF k] by simp
  then have i: "lo \<le> ?i" "?i \<le> hi" by auto
  have "unat lo + k < 2 ^ 64" using k u64_max[of hi] by simp
  then have "unat ?i = unat lo + k" by (rule unat_plus_of_nat)
  then show "eIndex (log_slice a lo hi ! k) = lo + of_nat k"
    using alog_entry_index[OF assms(1) log_slice_nth[OF assms i]] by simp
qed

lemma log_slice_bounds:
  assumes "alog_wf a" and "logBase a < lo" and "hi \<le> alog_last a" and "lo \<le> hi"
  shows "log_slice a lo hi \<noteq> []" "eIndex (hd (log_slice a lo hi)) = lo" "eIndex (last (log_slice a lo hi)) = hi"
proof -
  have le: "unat lo \<le> unat hi" using assms(4) by (simp add: word_le_nat_alt)
  have len: "length (log_slice a lo hi) = Suc (unat hi - unat lo)" using le by (simp add: log_slice_def)
  then show ne: "log_slice a lo hi \<noteq> []" by (metis length_0_conv nat.distinct(1))
  show "eIndex (hd (log_slice a lo hi)) = lo"
    using contiguous_nth[OF log_slice_contiguous[OF assms(1-3)], of 0] ne by (simp add: hd_conv_nth)
  show "eIndex (last (log_slice a lo hi)) = hi"
    using alog_entry_index[OF assms(1) log_slice_nth[OF assms(1-3,4) order_refl]] ne len by (simp add: last_conv_nth)
qed

context raft_storage_reads
begin

lemma batch_end:
  assumes "lo \<le> hi" and "0 < b" and "hi - lo + 1 > (b :: u64)" and "hi \<noteq> - 1"
  shows "lo \<le> lo + b - 1" "lo + b - 1 \<le> hi" "unat (lo + b - 1) = unat lo + unat b - 1"
proof -
  have lohi: "unat lo \<le> unat hi" using assms(1) by (simp add: word_le_nat_alt)
  have d: "unat (hi - lo) = unat hi - unat lo" using assms(1) by (simp add: unat_sub)
  have "hi - lo \<noteq> - 1"
  proof
    assume "hi - lo = - 1"
    then have "hi - lo + 1 = 0" by simp
    then show False using assms(3) by simp
  qed
  then have "unat (hi - lo + 1) = Suc (unat hi - unat lo)" using d by simp
  then have b: "unat b \<le> unat hi - unat lo" "unat b > 0"
    using assms(2,3) by (auto simp: word_less_nat_alt)
  have sum: "unat (lo + b) = unat lo + unat b"
    using b lohi u64_max[of hi] by (intro unat_plus_if'[THEN trans]) auto
  then have "lo + b \<noteq> 0" using b by (metis add_is_0 not_gr_zero unat_0)
  then show u: "unat (lo + b - 1) = unat lo + unat b - 1" using sum by (simp add: unat_minus_one)
  show "lo \<le> lo + b - 1" "lo + b - 1 \<le> hi" using u b lohi by (simp_all add: word_le_nat_alt)
qed

lemma replicate_entries_abs:
  assumes inv: "node_inv n" and lo: "firstIndex (nLog n) \<le> lo"
  shows "\<exists>hi. replicate_entries E C n lo = Some (Inr (log_slice (node_log n) lo hi)) \<and> hi \<le> lastIndex (nLog n) \<and>
    (lo \<le> lastIndex (nLog n) \<longrightarrow> lo \<le> hi) \<and>
    (0 < ReplicationBatchMaxEntries (nOpts n) \<and> ReplicationBatchMaxEntries (nOpts n) < 2 ^ 64 \<longrightarrow>
       length (log_slice (node_log n) lo hi) \<le> nat (ReplicationBatchMaxEntries (nOpts n)))"
proof (cases "lo \<le> lastIndex (nLog n)")
  case False
  then show ?thesis by (intro exI[of _ "lastIndex (nLog n)"]) (simp add: replicate_entries_def log_slice_def)
next
  case True
  let ?b = "of_int (ReplicationBatchMaxEntries (nOpts n)) :: u64"
  let ?last = "lastIndex (nLog n)"
  define hi where "hi = (if ?b > 0 \<and> ?last - lo + 1 > ?b then lo + ?b - 1 else ?last)"
  have top: "?last \<noteq> - 1" using plog_invD(1)[OF inv] by (simp add: plog_bounds_def)
  have r: "lo \<le> hi" "hi \<le> ?last" using batch_end[OF True _ _ top] True by (auto simp: hi_def)
  have "replicate_entries E C n lo = Some (Inr (log_slice (node_log n) lo hi))"
    using True Log_Range_abs[OF inv lo r] by (simp add: replicate_entries_def log_slice_def hi_def Let_def)
  moreover have "length (log_slice (node_log n) lo hi) \<le> nat k"
    if k: "k = ReplicationBatchMaxEntries (nOpts n)" "0 < k" "k < 2 ^ 64" for k
  proof -
    have b: "unat ?b = nat k" "0 < ?b" using k by (simp_all add: unat_eq_nat_uint uint_word_of_int word_less_def)
    show ?thesis
    proof (cases "?last - lo + 1 > ?b")
      case True
      then have "unat hi = unat lo + nat k - 1" using batch_end(3)[OF \<open>lo \<le> ?last\<close> b(2) True top] b by (simp add: hi_def)
      then show ?thesis using k(2) by (simp add: log_slice_def)
    next
      case False
      have "unat (?last - lo + 1) \<le> nat k" using False b(1) by (simp add: word_less_nat_alt not_less)
      moreover have "unat (?last - lo) = unat ?last - unat lo" using True by (simp add: unat_sub)
      moreover have "?last - lo \<noteq> - 1"
        using top calculation(2) by (simp only: not_max_unat)
      ultimately show ?thesis using False b by (simp add: log_slice_def hi_def)
    qed
  qed
  ultimately show ?thesis using r by blast
qed

lemma first_index:
  assumes "node_inv n" and "firstIndex (nLog n) \<le> lo"
  shows "logBase (node_log n) < lo" "logBase (node_log n) \<le> lo - 1" "lo - 1 + 1 = lo" "lo \<noteq> 0"
proof -
  note b = plog_bounds_base(2)[OF plog_invD(1)[OF assms(1)]]
  have u: "unat (lastIncludedIndex (nLog n)) < unat lo" using assms(2) b by (simp add: word_le_nat_alt)
  then show "logBase (node_log n) < lo" "lo \<noteq> 0" by (auto simp: word_less_nat_alt)
  then have "unat (lo - 1) = unat lo - 1" by (simp add: unat_minus_one)
  then show "logBase (node_log n) \<le> lo - 1" using u by (simp add: word_le_nat_alt)
  show "lo - 1 + 1 = lo" by simp
qed

text \<open>What a leader sends: the slice after an index whose term it knows, or a snapshot.\<close>

lemma replicate_request_abs:
  assumes inv: "node_inv n" and r: "replicateToPeer_request E C n peer t = Some (SendAppend req)"
  shows "nRole n = Leader" "currentTerm (nLog n) = t" "aeTerm req = t" "aeLeaderCommit req = nCommitIndex n"
    "firstIndex (nLog n) \<le> aePrevLogIndex req + 1" "aePrevLogIndex req + 1 = lookup0 (nNextIndex n) peer"
    "aePrevLogIndex req \<noteq> 0 \<Longrightarrow> alog_term (node_log n) (aePrevLogIndex req) = Some (aePrevLogTerm req)"
    "\<exists>hi. aeEntries req = log_slice (node_log n) (aePrevLogIndex req + 1) hi \<and> hi \<le> lastIndex (nLog n) \<and>
       (aePrevLogIndex req + 1 \<le> lastIndex (nLog n) \<longrightarrow> aePrevLogIndex req + 1 \<le> hi) \<and>
       (0 < ReplicationBatchMaxEntries (nOpts n) \<and> ReplicationBatchMaxEntries (nOpts n) < 2 ^ 64 \<longrightarrow>
         length (aeEntries req) \<le> nat (ReplicationBatchMaxEntries (nOpts n)))"
proof -
  let ?lo = "lookup0 (nNextIndex n) peer"
  show "nRole n = Leader" "currentTerm (nLog n) = t"
    using r by (auto simp: replicateToPeer_request_def split: if_splits)
  then have lo: "firstIndex (nLog n) \<le> ?lo"
    and pt: "TermAt E C (nLog n) (?lo - 1) = None \<Longrightarrow> ?lo - 1 = 0"
    using r by (auto simp: replicateToPeer_request_def Let_def split: if_splits)
  note F = first_index[OF inv lo]
  obtain hi where hi: "replicate_entries E C n ?lo = Some (Inr (log_slice (node_log n) ?lo hi))"
    "hi \<le> lastIndex (nLog n)" "?lo \<le> lastIndex (nLog n) \<longrightarrow> ?lo \<le> hi"
    "0 < ReplicationBatchMaxEntries (nOpts n) \<and> ReplicationBatchMaxEntries (nOpts n) < 2 ^ 64 \<longrightarrow>
       length (log_slice (node_log n) ?lo hi) \<le> nat (ReplicationBatchMaxEntries (nOpts n))"
    using replicate_entries_abs[OF inv lo] by blast
  have req: "req = \<lparr>aeTerm = t, aeLeaderID = nID n, aePrevLogIndex = ?lo - 1,
        aePrevLogTerm = (case TermAt E C (nLog n) (?lo - 1) of None \<Rightarrow> 0 | Some t \<Rightarrow> t),
        aeEntries = log_slice (node_log n) ?lo hi,
        aeLeaderCommit = nCommitIndex n, aeLeaderClientAddr = nSelfClientAddr n\<rparr>"
    using r hi(1) by (auto simp: replicateToPeer_request_def Let_def split: if_splits)
  show "aeTerm req = t" "aeLeaderCommit req = nCommitIndex n" by (simp_all add: req)
  show "firstIndex (nLog n) \<le> aePrevLogIndex req + 1" "aePrevLogIndex req + 1 = ?lo" using lo by (simp_all add: req)
  show "alog_term (node_log n) (aePrevLogIndex req) = Some (aePrevLogTerm req)" if "aePrevLogIndex req \<noteq> 0"
    using that pt TermAt_abs[OF inv, of "?lo - 1"] by (auto simp: req split: option.splits)
  show "\<exists>hi. aeEntries req = log_slice (node_log n) (aePrevLogIndex req + 1) hi \<and> hi \<le> lastIndex (nLog n) \<and>
       (aePrevLogIndex req + 1 \<le> lastIndex (nLog n) \<longrightarrow> aePrevLogIndex req + 1 \<le> hi) \<and>
       (0 < ReplicationBatchMaxEntries (nOpts n) \<and> ReplicationBatchMaxEntries (nOpts n) < 2 ^ 64 \<longrightarrow>
         length (aeEntries req) \<le> nat (ReplicationBatchMaxEntries (nOpts n)))"
    using hi(2-4) F(3) by (intro exI[of _ hi]) (simp add: req)
qed

end

section \<open>Agreement\<close>

text \<open>
  Two logs agree up to an index when they hold no different entries there. The Log Matching Property:
  logs that have the same term at an index agree up to it.
\<close>

definition agree :: "alog \<Rightarrow> alog \<Rightarrow> u64 \<Rightarrow> bool" where
  "agree a b i = (\<forall>j e f. j \<le> i \<longrightarrow> alog_entry a j = Some e \<longrightarrow> alog_entry b j = Some f \<longrightarrow> e = f)"

definition log_match :: "alog \<Rightarrow> alog \<Rightarrow> bool" where
  "log_match a b = (\<forall>i t. alog_term a i = Some t \<longrightarrow> alog_term b i = Some t \<longrightarrow> agree a b i)"

lemma agree_cong: "logBase b = logBase c \<Longrightarrow> logEntries b = logEntries c \<Longrightarrow> agree a b i = agree a c i"
  using alog_entry_cong[of b c] by (simp add: agree_def)

lemma log_match_cong:
  "logBase b = logBase c \<Longrightarrow> logBaseTerm b = logBaseTerm c \<Longrightarrow> logEntries b = logEntries c \<Longrightarrow>
   log_match a b = log_match a c"
  using agree_cong[of b c] alog_term_cong[of b c] by (simp add: log_match_def)

lemma agree_zero: "agree a b 0"
  by (auto simp: agree_def dest!: alog_entry_SomeD)

lemma agree_mono: "agree a b i \<Longrightarrow> j \<le> i \<Longrightarrow> agree a b j"
  by (meson agree_def order.trans)

lemma append_slice_agree:
  assumes wf: "alog_wf a" "alog_wf b" and lo: "logBase a < lo" and hi: "hi \<le> alog_last a" "lo \<le> hi"
    and ap: "appendable b (log_slice a lo hi)" and below: "agree a b (lo - 1)" and lo0: "lo \<noteq> 0"
  shows "agree a (alog_append (log_slice a lo hi) b) hi" "alog_last (alog_append (log_slice a lo hi) b) = hi"
proof -
  note S = log_slice_bounds[OF wf(1) lo hi]
  note A = alog_entry_append[OF wf(2) ap S(1), unfolded S(2,3)]
  show "alog_last (alog_append (log_slice a lo hi) b) = hi"
    using appendable_wf(1)[OF wf(2) ap S(1)] S(3) by simp
  show "agree a (alog_append (log_slice a lo hi) b) hi"
    unfolding agree_def
  proof (intro allI impI)
    fix j e f assume j: "j \<le> hi" and e: "alog_entry a j = Some e"
      and f: "alog_entry (alog_append (log_slice a lo hi) b) j = Some f"
    show "e = f"
    proof (cases "j < lo")
      case True
      then have "j \<le> lo - 1" using lo0 by (simp add: word_le_nat_alt word_less_nat_alt unat_minus_one)
      then show ?thesis using below e f A(1)[OF True] by (simp add: agree_def)
    next
      case False
      then show ?thesis using log_slice_nth[OF wf(1) lo hi(1) _ j] A(2)[OF _ j] e f by simp
    qed
  qed
qed

lemma agree_to_end:
  assumes "alog_wf b" and "agree a b (alog_last b)"
  shows "log_match a b"
  unfolding log_match_def
proof (intro allI impI)
  fix i t assume "alog_term b i = Some t"
  then have "i \<le> alog_last b" using alog_term_range[OF assms(1)] by blast
  then show "agree a b i" using agree_mono[OF assms(2)] by blast
qed

context raft_storage_reads
begin

lemma request_wf:
  assumes inv: "node_inv l" and r: "replicateToPeer_request E C l peer t = Some (SendAppend req)"
    and base: "aePrevLogIndex req = 0 \<longrightarrow> logBase a = 0"
  shows "ae_wf a req"
proof -
  note R = replicate_request_abs[OF inv r]
  obtain hi where hi: "aeEntries req = log_slice (node_log l) (aePrevLogIndex req + 1) hi" "hi \<le> lastIndex (nLog l)"
    using R(8) by blast
  note F = first_index[OF inv R(5)]
  have b: "plog_bounds (nLog l)" using plog_invD(1)[OF inv] .
  have top: "aePrevLogIndex req \<noteq> - 1" using F(4) by (metis add.left_inverse)
  have "unat hi < 2 ^ 64 - 1" using hi(2) plog_bounds_base(4)[OF b] by (simp add: word_le_nat_alt)
  moreover have "unat (aePrevLogIndex req) < 2 ^ 64 - 1" using top unfolding not_max_unat by simp
  ultimately have "unat (aePrevLogIndex req) + length (aeEntries req) < 2 ^ 64 - 1"
    using top by (simp add: hi(1) log_slice_def)
  moreover have "contiguous (aePrevLogIndex req + 1) (aeEntries req)"
    unfolding hi(1) by (rule log_slice_contiguous[OF alog_wf_plog[OF inv] F(1)]) (use hi(2) b in simp)
  ultimately show ?thesis using base by (simp add: ae_wf_def)
qed

lemma replication_round:
  assumes l: "node_inv l" and f: "node_inv f"
    and r: "replicateToPeer_request E C l peer t = Some (SendAppend req)"
    and h: "HandleAppendEntries E C f req = Some (f', resp)" and ok: "aerSuccess resp"
    and lm: "log_match (node_log l) (node_log f)"
    and base: "aePrevLogIndex req = 0 \<longrightarrow> logBase (node_log f) = 0"
  shows "log_match (node_log l) (node_log f')"
    "agree (node_log l) (node_log f') (aePrevLogIndex req)"
    "aeEntries req \<noteq> [] \<Longrightarrow> agree (node_log l) (node_log f') (eIndex (last (aeEntries req))) \<and>
       lastIndex (nLog f') = eIndex (last (aeEntries req))"
proof -
  note R = replicate_request_abs[OF l r]
  note H = HandleAppendEntries_accepted[OF f request_wf[OF l r base] h ok]
  let ?lo = "aePrevLogIndex req + 1"
  let ?b = "alog_append (aeEntries req) (node_log f)"
  note F = first_index[OF l R(5)]
  have below: "agree (node_log l) (node_log f) (aePrevLogIndex req)"
  proof (cases "aePrevLogIndex req = 0")
    case True
    then show ?thesis by (simp add: agree_zero)
  next
    case False
    then show ?thesis using R(7) H(2) lm by (simp add: prev_matches_def log_match_def)
  qed
  obtain hi where hi: "aeEntries req = log_slice (node_log l) ?lo hi" "hi \<le> lastIndex (nLog l)"
    "?lo \<le> lastIndex (nLog l) \<longrightarrow> ?lo \<le> hi" using R(8) by blast
  have same: "logBase (node_log f') = logBase ?b" "logBaseTerm (node_log f') = logBaseTerm ?b"
    "logEntries (node_log f') = logEntries ?b" using H(4-6) by (simp_all add: alog_append_def)
  have "log_match (node_log l) ?b \<and> agree (node_log l) ?b (aePrevLogIndex req) \<and>
    (aeEntries req \<noteq> [] \<longrightarrow> agree (node_log l) ?b (eIndex (last (aeEntries req))) \<and>
       alog_last ?b = eIndex (last (aeEntries req)))"
  proof (cases "?lo \<le> hi")
    case False
    then have "aeEntries req = []" by (simp add: hi(1) log_slice_def)
    then show ?thesis using lm below by (simp add: alog_append_def)
  next
    case True
    have wf: "alog_wf (node_log l)" "alog_wf (node_log f)" using l f by (simp_all add: alog_wf_plog)
    have hl: "hi \<le> alog_last (node_log l)" using hi(2) plog_invD(1)[OF l] by simp
    have ap: "appendable (node_log f) (log_slice (node_log l) ?lo hi)"
      using ae_appendable[OF wf(2) request_wf[OF l r base] H(2)] by (simp add: hi(1))
    have A: "agree (node_log l) ?b hi" "alog_last ?b = hi"
      using append_slice_agree[OF wf F(1) hl True ap _ F(4)] below by (simp_all add: hi(1))
    note S = log_slice_bounds[OF wf(1) F(1) hl True]
    have "alog_wf ?b" using alog_wf_plog[OF H(3)] same by (simp add: alog_wf_def)
    then have lm': "log_match (node_log l) ?b" using agree_to_end A by simp
    have prev_le: "aePrevLogIndex req \<le> hi"
    proof -
      have "aePrevLogIndex req \<noteq> - 1" using F(4) by (metis add.left_inverse)
      then show ?thesis using True by (simp add: word_le_nat_alt)
    qed
    have "eIndex (last (aeEntries req)) = hi" using S(3) by (simp only: hi(1))
    then show ?thesis using lm' A agree_mono[OF A(1) prev_le] by simp
  qed
  moreover have "alog_last (node_log f') = alog_last ?b" using same by (simp add: alog_last_def)
  then have "lastIndex (nLog f') = alog_last ?b" using plog_invD(1)[OF H(3)] by simp
  ultimately show "log_match (node_log l) (node_log f')" "agree (node_log l) (node_log f') (aePrevLogIndex req)"
    "aeEntries req \<noteq> [] \<Longrightarrow> agree (node_log l) (node_log f') (eIndex (last (aeEntries req))) \<and>
       lastIndex (nLog f') = eIndex (last (aeEntries req))"
    using log_match_cong[OF same] agree_cong[OF same(1,3)] by auto
qed

end

section \<open>The commitment rule\<close>

lemma filter_take_drop: "filter P xs = filter P (take j xs) @ filter P (drop j xs)"
  by (simp only: filter_append[symmetric] append_take_drop_id)

lemma sorted_count_ge:
  assumes "sorted xs" and "k < length xs"
  shows "v \<le> xs ! k \<longleftrightarrow> length xs - k \<le> length (filter (\<lambda>x. v \<le> x) (xs :: 'a :: linorder list))"
proof
  assume v: "v \<le> xs ! k"
  have "filter (\<lambda>x. v \<le> x) (drop k xs) = drop k xs"
  proof (rule filter_True, rule ballI)
    fix x assume "x \<in> set (drop k xs)"
    then obtain i where "i < length xs - k" "x = xs ! (k + i)" by (auto simp: in_set_conv_nth)
    then have "xs ! k \<le> x" using assms by (auto intro: sorted_nth_mono)
    then show "v \<le> x" using v by simp
  qed
  then have "length xs - k \<le> length (filter (\<lambda>x. v \<le> x) (take k xs) @ filter (\<lambda>x. v \<le> x) (drop k xs))"
    by (simp only: length_append length_drop)
  then show "length xs - k \<le> length (filter (\<lambda>x. v \<le> x) xs)" by (subst filter_take_drop[of _ xs k])
next
  assume len: "length xs - k \<le> length (filter (\<lambda>x. v \<le> x) xs)"
  show "v \<le> xs ! k"
  proof (rule ccontr)
    assume v: "\<not> v \<le> xs ! k"
    have "\<not> v \<le> x" if x: "x \<in> set (take (Suc k) xs)" for x
    proof -
      obtain i where "i < length (take (Suc k) xs)" "x = take (Suc k) xs ! i" 
        using x unfolding in_set_conv_nth by blast
      then have i: "i \<le> k" "x = xs ! i" by simp_all
      then have "x \<le> xs ! k" using sorted_nth_mono[OF assms(1) i(1) assms(2)] by simp
      then show ?thesis using v by (meson order.trans)
    qed
    then have "filter (\<lambda>x. v \<le> x) (take (Suc k) xs) = []" by (simp add: filter_empty_conv)
    then have "filter (\<lambda>x. v \<le> x) xs = filter (\<lambda>x. v \<le> x) (drop (Suc k) xs)"
      by (subst filter_take_drop[of _ xs "Suc k"]) (simp only: append_Nil)
    then have "length (filter (\<lambda>x. v \<le> x) xs) \<le> length xs - Suc k"
      using length_filter_le[of "\<lambda>x. v \<le> x" "drop (Suc k) xs"] by (simp only: length_drop)
    then show False using len assms(2) by simp
  qed
qed

text \<open>The median that the code picks is the largest index that a majority of the nodes have.\<close>

lemma majority_index_iff:
  "v \<le> majority_index n \<longleftrightarrow>
     length (match_indexes n) < 2 * length (filter (\<lambda>x. v \<le> x) (match_indexes n))"
proof -
  let ?xs = "match_indexes n" and ?ys = "sort (match_indexes n)"
  have pos: "length ?xs > 0" by (simp add: match_indexes_def)
  have "v \<le> majority_index n \<longleftrightarrow> length ?ys - (length ?xs - 1) div 2 \<le> length (filter (\<lambda>x. v \<le> x) ?ys)"
    unfolding majority_index_def using pos le_less_trans[OF div_le_dividend, of "length ?xs - 1" "length ?xs" 2]
    by (intro sorted_count_ge) simp_all
  moreover have "length (filter (\<lambda>x. v \<le> x) ?ys) = length (filter (\<lambda>x. v \<le> x) ?xs)"
    by (simp add: filter_sort)
  moreover obtain m where m: "length ?xs = Suc m" using pos by (cases "length ?xs") auto
  moreover have "Suc m - m div 2 \<le> c \<longleftrightarrow> Suc m < 2 * c" for c by presburger
  ultimately show ?thesis by (simp only: length_sort diff_Suc_1)
qed

section \<open>Backing up after a refusal\<close>

text \<open>
  What a term's single leader gives: a log that has an entry of term \<open>t\<close> at an index also has term \<open>t\<close>
  at every earlier index where another log has it.
\<close>

definition term_runs :: "alog \<Rightarrow> alog \<Rightarrow> bool" where
  "term_runs a b = (\<forall>i k t. alog_term b i = Some t \<longrightarrow> alog_term a k = Some t \<longrightarrow> logBase a \<le> i \<longrightarrow> i \<le> k \<longrightarrow>
     alog_term a i = Some t)"

lemma unat_pred: "(x :: u64) \<noteq> 0 \<Longrightarrow> unat (x - 1) = unat x - 1"
  by (simp add: unat_minus_one)

context raft_storage_reads
begin

lemma conflict_start_spec:
  assumes "inv pl" and "alog_term (absl pl) ci = Some ct" and "ci \<noteq> 0"
  shows "conflict_start E C pl ct ci \<le> ci \<and> conflict_start E C pl ct ci \<noteq> 0 \<and>
    (\<forall>j. conflict_start E C pl ct ci \<le> j \<longrightarrow> j \<le> ci \<longrightarrow> alog_term (absl pl) j = Some ct) \<and>
    (conflict_start E C pl ct ci \<le> firstIndex pl \<or> alog_term (absl pl) (conflict_start E C pl ct ci - 1) \<noteq> Some ct)"
  using assms(2,3)
proof (induction "unat ci" arbitrary: ci rule: less_induct)
  case less
  show ?case
  proof (cases "firstIndex pl < ci \<and> TermAt E C pl (ci - 1) = Some ct")
    case True
    have first: "firstIndex pl \<noteq> 0" using plog_bounds_base(2)[OF plog_invD(1)[OF assms(1)]] by auto
    have lt: "unat (firstIndex pl) < unat ci" using True by (simp add: word_less_nat_alt)
    then have ci: "unat (ci - 1) = unat ci - 1" "unat ci - 1 \<noteq> 0"
      using unat_pred[OF less.prems(2)] first by (auto simp: unat_eq_0)
    then have ne: "ci - 1 \<noteq> 0" by auto
    have "alog_term (absl pl) (ci - 1) = Some ct" using True TermAt_abs[OF assms(1)] by simp
    moreover have "unat (ci - 1) < unat ci" using ci by simp
    ultimately have IH: "conflict_start E C pl ct (ci - 1) \<le> ci - 1 \<and> conflict_start E C pl ct (ci - 1) \<noteq> 0 \<and>
      (\<forall>j. conflict_start E C pl ct (ci - 1) \<le> j \<longrightarrow> j \<le> ci - 1 \<longrightarrow> alog_term (absl pl) j = Some ct) \<and>
      (conflict_start E C pl ct (ci - 1) \<le> firstIndex pl \<or>
       alog_term (absl pl) (conflict_start E C pl ct (ci - 1) - 1) \<noteq> Some ct)"
      using less.hyps ne by blast
    have step: "conflict_start E C pl ct ci = conflict_start E C pl ct (ci - 1)"
      using True by (subst conflict_start.simps) simp
    have "j \<le> ci - 1 \<or> j = ci" if "j \<le> ci" for j
      using that ci by (auto simp: word_le_nat_alt word_unat_eq_iff)
    moreover have "ci - 1 \<le> ci" using ci by (simp add: word_le_nat_alt)
    ultimately show ?thesis using IH less.prems(1) order.trans[of "conflict_start E C pl ct (ci - 1)" "ci - 1" ci]
      unfolding step by blast
  next
    case False
    then have "conflict_start E C pl ct ci = ci" by (subst conflict_start.simps) auto
    moreover have "ci \<le> firstIndex pl \<or> alog_term (absl pl) (ci - 1) \<noteq> Some ct"
      using False TermAt_abs[OF assms(1)] by (auto simp: not_less)
    ultimately show ?thesis using less.prems order.antisym[of _ ci] by auto
  qed
qed

lemma conflict_search_cases:
  assumes "inv pl"
  shows "conflict_search E C pl ct idx nn = nn \<or>
    (\<exists>k. firstIndex pl \<le> k \<and> k \<le> idx \<and> alog_term (absl pl) k = Some ct \<and> conflict_search E C pl ct idx nn = k + 1)"
proof (induction "unat idx" arbitrary: idx rule: less_induct)
  case less
  show ?case
  proof (cases "firstIndex pl \<le> idx \<and> idx > 0 \<and> (\<exists>t. TermAt E C pl idx = Some t \<and> t \<noteq> ct \<and> \<not> t < ct)")
    case True
    then have "idx \<noteq> 0" by auto
    then have p: "unat (idx - 1) = unat idx - 1" "unat idx \<noteq> 0" using unat_pred by (auto simp: unat_eq_0)
    have le: "idx - 1 \<le> idx" using p by (simp add: word_le_nat_alt)
    have "conflict_search E C pl ct idx nn = conflict_search E C pl ct (idx - 1) nn"
      using True by (subst conflict_search.simps) auto
    moreover have "unat (idx - 1) < unat idx" using p by simp
    ultimately show ?thesis using less[of "idx - 1"] order.trans[OF _ le] by auto
  next
    case False
    then have "conflict_search E C pl ct idx nn = nn \<or>
        firstIndex pl \<le> idx \<and> TermAt E C pl idx = Some ct \<and> conflict_search E C pl ct idx nn = idx + 1"
      unfolding conflict_search.simps[of E C pl ct idx nn] by (auto split: option.splits)
    then show ?thesis using TermAt_abs[OF assms] by auto
  qed
qed

lemma refused_in_term:
  assumes inv: "node_inv f" and h: "HandleAppendEntries E C f req = Some (f', resp)"
    and no: "\<not> prev_matches (node_log f) req" and tm: "currentTerm (nLog f) \<le> aeTerm req"
  shows "\<exists>n1. HandleAppendEntries_term E f req = Inr (n1, aeTerm req) \<and>
    consistency_check E C (nLog n1) req (aeTerm req) = Some resp \<and> node_inv n1 \<and>
    (\<forall>i. alog_term (node_log n1) i = alog_term (node_log f) i) \<and> lastIndex (nLog n1) = lastIndex (nLog f)"
proof -
  obtain n1 t where t: "HandleAppendEntries_term E f req = Inr (n1, t)"
    using tm by (cases "HandleAppendEntries_term E f req")
      (auto simp: HandleAppendEntries_term_def Let_def split: if_splits prod.splits)
  note T = HandleAppendEntries_term_cases[OF t] HandleAppendEntries_term_log[OF t inv]
  have terms: "alog_term (node_log n1) i = alog_term (node_log f) i" for i by (rule alog_term_cong[OF T(10-12)])
  then have "\<not> prev_matches (node_log n1) req" using no by (simp add: prev_matches_def)
  then obtain r where "consistency_check E C (nLog n1) req t = Some r" using consistency_check_abs[OF T(9)] by auto
  then show ?thesis using h t T(2,3,9) terms by (auto simp: HandleAppendEntries_def)
qed

lemma refusal_answer:
  assumes inv: "inv pl" and c: "consistency_check E C pl req t = Some resp" and base: "logBase (absl pl) \<le> aePrevLogIndex req"
  shows "aerTerm resp = t \<and> \<not> aerSuccess resp \<and> aerConflictIndex resp \<noteq> 0 \<and> aerConflictIndex resp \<le> aePrevLogIndex req \<and>
    (aerConflictTerm resp \<noteq> 0 \<longrightarrow> alog_term (absl pl) (aePrevLogIndex req) = Some (aerConflictTerm resp) \<and>
       aerConflictTerm resp \<noteq> aePrevLogTerm req)"
proof (cases "TermAt E C pl (aePrevLogIndex req)")
  case None
  note b = plog_invD(1)[OF inv]
  have "alog_term (absl pl) (aePrevLogIndex req) = None" using None TermAt_abs[OF inv] by simp
  then have "lastIndex pl < aePrevLogIndex req"
    using base b by (auto simp: alog_term_def alog_entry_def not_le split: if_splits)
  moreover have "lastIndex pl \<noteq> - 1" using b by (simp add: plog_bounds_def)
  ultimately have "lastIndex pl + 1 \<le> aePrevLogIndex req" "lastIndex pl + 1 \<noteq> 0"
    by (auto simp: word_le_nat_alt word_less_nat_alt eq_neg_iff_add_eq_0)
  then show ?thesis using c None by (auto simp: consistency_check_def split: if_splits)
next
  case (Some m)
  have ne: "aePrevLogIndex req \<noteq> 0" "m \<noteq> aePrevLogTerm req"
    and r: "resp = \<lparr>aerTerm = t, aerSuccess = False, aerConflictTerm = m,
      aerConflictIndex = conflict_start E C pl m (aePrevLogIndex req)\<rparr>"
    using c Some by (auto simp: consistency_check_def split: if_splits)
  have m: "alog_term (absl pl) (aePrevLogIndex req) = Some m" using Some TermAt_abs[OF inv] by simp
  show ?thesis using conflict_start_spec[OF inv m ne(1)] ne(2) m by (simp add: r)
qed

text \<open>After a refusal by the consistency check the leader asks about an earlier index.\<close>

lemma backs_up:
  assumes l: "node_inv l" and f: "node_inv f"
    and r: "replicateToPeer_request E C l peer t = Some (SendAppend req)"
    and h: "HandleAppendEntries E C f req = Some (f', resp)"
    and no: "\<not> prev_matches (node_log f) req" and tm: "currentTerm (nLog f) \<le> t"
    and base: "logBase (node_log f) \<le> aePrevLogIndex req" and runs: "term_runs (node_log l) (node_log f)"
  shows "lookup0 (nNextIndex (replicateToPeer_response E C l peer t (aeEntries req) resp)) peer
      < lookup0 (nNextIndex l) peer"
    "lookup0 (nNextIndex (replicateToPeer_response E C l peer t (aeEntries req) resp)) peer \<noteq> 0"
proof -
  note R = replicate_request_abs[OF l r]
  let ?prev = "aePrevLogIndex req"
  note F = first_index[OF l R(5)]
  obtain n1 where c: "consistency_check E C (nLog n1) req t = Some resp" and n1: "node_inv n1"
    "\<forall>i. alog_term (node_log n1) i = alog_term (node_log f) i" "HandleAppendEntries_term E f req = Inr (n1, t)"
    using refused_in_term[OF f h no] tm R(3) by auto
  have b1: "logBase (node_log n1) \<le> ?prev" using HandleAppendEntries_term_log(2)[OF n1(3) f] base by simp
  note A = refusal_answer[OF n1(1) c b1]
  have prev0: "?prev \<noteq> 0" using no by (auto simp: prev_matches_def)
  have bl: "logBase (node_log l) \<le> ?prev" using F(2) by simp
  let ?l = "replicateToPeer_response E C l peer t (aeEntries req) resp"
  have "?prev \<noteq> - 1" using F(4) by (metis add.left_inverse)
  then have lt: "x < ?prev + 1 \<longleftrightarrow> x \<le> ?prev" for x by (simp add: word_less_nat_alt word_le_nat_alt less_Suc_eq_le)
  have "lookup0 (nNextIndex ?l) peer \<le> ?prev \<and> lookup0 (nNextIndex ?l) peer \<noteq> 0"
  proof (cases "aerConflictTerm resp = 0")
    case True
    then have "lookup0 (nNextIndex ?l) peer = aerConflictIndex resp"
      using A R(1,2) by (simp add: replicateToPeer_response_def word_gt_0)
    then show ?thesis using A by simp
  next
    case False
    let ?s = "conflict_search E C (nLog l) (aerConflictTerm resp) (lastIndex (nLog l)) (aerConflictIndex resp)"
    have nx: "lookup0 (nNextIndex ?l) peer = (if ?s < 1 then 1 else ?s)"
      using False A R(1,2) by (simp add: replicateToPeer_response_def Let_def)
    have one: "1 \<le> ?prev" using prev0 by (simp add: word_le_nat_alt unat_gt_0 Suc_le_eq)
    have "?s \<le> ?prev"
    proof (cases "?s = aerConflictIndex resp")
      case True
      then show ?thesis using A by simp
    next
      case F2: False
      then obtain k where k: "firstIndex (nLog l) \<le> k" "alog_term (node_log l) k = Some (aerConflictTerm resp)" "?s = k + 1"
        using conflict_search_cases[OF l] by blast
      have ft: "alog_term (node_log f) ?prev = Some (aerConflictTerm resp)" using A False n1(2) by simp
      have "\<not> ?prev \<le> k"
      proof
        assume "?prev \<le> k"
        then have "alog_term (node_log l) ?prev = Some (aerConflictTerm resp)"
          using runs ft k(2) bl unfolding term_runs_def by blast
        then show False using R(7)[OF prev0] A False by simp
      qed
      then have "k < ?prev" by simp
      then have "k \<noteq> - 1" by (rule less_max)
      then show ?thesis using \<open>k < ?prev\<close> unfolding k(3) by (simp add: word_less_nat_alt word_le_nat_alt)
    qed
    then show ?thesis using nx one by auto
  qed
  then show "lookup0 (nNextIndex ?l) peer < lookup0 (nNextIndex l) peer" "lookup0 (nNextIndex ?l) peer \<noteq> 0"
    unfolding R(6)[symmetric] lt by simp_all
qed

end

end
