(* ===== verification/Client_Proofs.thy ===== *)
theory Client_Proofs
  imports Replication_Proofs
begin

text \<open>
  What a client's operation meets on the node: the apply loop replays the log into the store, also
  while it compacts the log; proposals and their waiters; and the counting of \<^verbatim>\<open>LinearizableRead\<close>.
\<close>

section \<open>Compaction keeps the entries above the boundary\<close>

lemma alog_compact_above:
  assumes wf: "alog_wf a" and li: "li \<le> alog_last a"
  shows "alog_last (alog_compact li lt a) = alog_last a"
    and "li < j \<Longrightarrow> alog_entry (alog_compact li lt a) j = alog_entry a j"
    and "logBase (alog_compact li lt a) = max li (logBase a)"
proof -
  have last: "unat (alog_last a) = unat (logBase a) + length (logEntries a)"
    using wf by (simp add: alog_last_def alog_wf_def unat_plus_of_nat)
  show base: "logBase (alog_compact li lt a) = max li (logBase a)" by (auto simp: alog_compact_def max_def)
  show l: "alog_last (alog_compact li lt a) = alog_last a"
  proof (cases "li \<le> logBase a")
    case False
    then have "unat (logBase a) < unat li" "unat li \<le> unat (alog_last a)"
      using li by (simp_all add: word_le_nat_alt)
    then have "unat li + (length (logEntries a) - (unat li - unat (logBase a))) = unat (alog_last a)" using last by simp
    then have "li + of_nat (length (logEntries a) - (unat li - unat (logBase a))) = alog_last a" by (rule plus_of_nat_eq)
    then show ?thesis using False by (simp add: alog_compact_def alog_last_def)
  qed (simp add: alog_compact_def)
  show "alog_entry (alog_compact li lt a) j = alog_entry a j" if j: "li < j"
  proof (cases "li \<le> logBase a")
    case False
    have u: "unat (logBase a) < unat li" "unat li < unat j" using False j by (simp_all add: word_le_nat_alt word_less_nat_alt)
    have "logEntries (alog_compact li lt a) ! (unat j - unat li - 1) = logEntries a ! (unat j - unat (logBase a) - 1)"
      if "j \<le> alog_last a"
    proof -
      have "unat li - unat (logBase a) \<le> length (logEntries a)"
        using li last by (simp add: word_le_nat_alt)
      then show ?thesis using False u by (simp add: alog_compact_def)
    qed
    then show ?thesis using False u j by (simp add: alog_entry_def l base max_def word_less_nat_alt)
  qed (simp add: alog_compact_def)
qed

section \<open>The apply loop\<close>

abbreviation stored_kv :: "('d \<Rightarrow> bytes \<rightharpoonup> bytes) \<Rightarrow> 'd node \<Rightarrow> string \<rightharpoonup> bytes" where
  "stored_kv content n \<equiv> kv_content (content (smEngine (nSM n)))"

text \<open>What an iteration or the loop keeps of the node, once everything up to \<open>i\<close> is behind it.\<close>

definition apply_keeps :: "('d \<Rightarrow> bytes \<rightharpoonup> bytes) \<Rightarrow> codec \<Rightarrow> u64 \<Rightarrow> 'd node \<Rightarrow> 'd node \<Rightarrow> bool" where
  "apply_keeps content C i n n' =
     (stored_inv content C n' \<and> nCommitIndex n' = nCommitIndex n \<and> lastIndex (nLog n') = lastIndex (nLog n) \<and>
      logBase (stored_log content C n') \<le> i \<and>
      (\<forall>j > i. alog_entry (stored_log content C n') j = alog_entry (stored_log content C n) j))"

context raft_storage_reads
begin

lemma apply_entry_spec:
  assumes "apply_entry E s e = (s', r)"
  shows "kv_content (content (smEngine s'))
    = (if r = None then kv_apply e (kv_content (content (smEngine s))) else kv_content (content (smEngine s)))"
proof (cases r)
  case None
  then show ?thesis
    using assms ApplyPut_done[of s "eIndex e" "eKey e" "eValue e" s'] ApplyDelete_done[of s "eIndex e" "eKey e" s']
    by (auto simp: apply_entry_def kv_apply_def ApplyNoop_def split: if_splits)
next
  case (Some err)
  then show ?thesis
    using assms ApplyPut_failed[of s "eIndex e" "eKey e" "eValue e" s' err] ApplyDelete_failed[of s "eIndex e" "eKey e" s' err]
    by (auto simp: apply_entry_def split: if_splits)
qed

lemma maybeSnapshot_spec:
  assumes inv: "node_inv n" and i: "i \<le> lastIndex (nLog n)" "logBase (node_log n) \<le> i"
  shows "\<exists>n'. maybeSnapshot E C n i = Some n' \<and> node_inv n' \<and> nSM n' = nSM n \<and> nLastApplied n' = nLastApplied n \<and>
    nCommitIndex n' = nCommitIndex n \<and> lastIndex (nLog n') = lastIndex (nLog n) \<and> logBase (node_log n') \<le> i \<and>
    (\<forall>j > i. alog_entry (node_log n') j = alog_entry (node_log n) j)"
proof -
  obtain st r where ll: "LoadLatest C (nSnapStore n) = (st, r)" by force
  obtain t where t: "TermAt E C (nLog n) i = None \<or> TermAt E C (nLog n) i = Some t" by (cases "TermAt E C (nLog n) i") auto
  obtain d where d: "Dump E (nSM n) = Some d" using Dump_spec by blast
  obtain pl err where c: "CompactPrefix E (nLog n) i t = Some (pl, err)" using CompactPrefix_returns[OF inv] by blast
  have top: "i \<noteq> - 1" using i plog_invD(1)[OF inv] by (auto simp: plog_bounds_def word_order.extremum_unique)
  have pl: "inv pl \<and> alog_last (absl pl) = alog_last (node_log n) \<and> logBase (absl pl) \<le> i \<and>
      (\<forall>j > i. alog_entry (absl pl) j = alog_entry (node_log n) j)"
  proof (cases err)
    case None
    have "i \<le> alog_last (node_log n)" using i plog_invD(1)[OF inv] by simp
    then show ?thesis
      using CompactPrefix_done[OF inv top c[unfolded None]] alog_compact_above[OF alog_wf_plog[OF inv]] i(2) by simp
  next
    case (Some x)
    then show ?thesis using CompactPrefix_failed[OF inv c[unfolded Some]] i(2) by simp
  qed
  then have "lastIndex pl = lastIndex (nLog n)" using plog_invD(1)[OF inv] plog_invD(1)[of C "disk pl" pl] by simp
  then show ?thesis
    using ll t d c pl inv i
    by (auto simp: maybeSnapshot_def Let_def split: sum.splits option.splits prod.splits)
qed

lemma notified_fields:
  "nLog (satisfyPendingReadsLocked (notifyWritersLocked n i)) = nLog n"
  "nSM (satisfyPendingReadsLocked (notifyWritersLocked n i)) = nSM n"
  "nLastApplied (satisfyPendingReadsLocked (notifyWritersLocked n i)) = nLastApplied n"
  "nCommitIndex (satisfyPendingReadsLocked (notifyWritersLocked n i)) = nCommitIndex n"
  "nOpts (satisfyPendingReadsLocked (notifyWritersLocked n i)) = nOpts n"
  by (auto simp: satisfyPendingReadsLocked_def notifyWritersLocked_def chan_send_def split: option.splits)

lemma apply_step_spec:
  assumes inv: "node_inv n" and i: "logBase (node_log n) < i" "i \<le> lastIndex (nLog n)"
  shows "\<exists>n' go. apply_step E C n i = Some (n', go) \<and> apply_keeps content C i n n' \<and>
    (go \<longrightarrow> nLastApplied n' = i \<and> stored_kv content n' = kv_apply (the (alog_entry (node_log n) i)) (stored_kv content n)) \<and>
    (\<not> go \<longrightarrow> nLog n' = nLog n \<and> nLastApplied n' = nLastApplied n \<and> stored_kv content n' = stored_kv content n \<and>
       (\<exists>e err. snd (apply_entry E (nSM n) e) = Some err))"
proof -
  obtain e where e: "alog_entry (node_log n) i = Some e"
    using i plog_invD(1)[OF inv] by (auto simp: alog_entry_def)
  have g: "Log_Get E C (nLog n) i = Inr e" by (rule Log_Get_complete[OF inv e])
  obtain sm r where a: "apply_entry E (nSM n) e = (sm, r)" by force
  note kv = apply_entry_spec[OF a]
  show ?thesis
  proof (cases r)
    case (Some err)
    have "apply_step E C n i = Some (n\<lparr>nSM := sm\<rparr>, False)" using g a Some by (simp add: apply_step_def)
    moreover have "apply_keeps content C i n (n\<lparr>nSM := sm\<rparr>)" using inv i(1) by (simp add: apply_keeps_def)
    moreover have "snd (apply_entry E (nSM n) e) = Some err" using a Some by simp
    ultimately show ?thesis using kv Some by (intro exI[of _ "n\<lparr>nSM := sm\<rparr>"] exI[of _ False]) auto
  next
    case None
    define m where "m = satisfyPendingReadsLocked (notifyWritersLocked (n\<lparr>nSM := sm, nLastApplied := i\<rparr>) i)"
    have m: "nLog m = nLog n" "nSM m = sm" "nLastApplied m = i" "nCommitIndex m = nCommitIndex n"
      by (simp_all add: m_def notified_fields)
    have inv_m: "node_inv m" using inv by (simp add: m)
    have le: "i \<le> lastIndex (nLog m)" "logBase (node_log m) \<le> i" using i by (simp_all add: m)
    obtain m' where m': "maybeSnapshot E C m i = Some m'" "node_inv m'" "nSM m' = nSM m" "nLastApplied m' = nLastApplied m"
      "nCommitIndex m' = nCommitIndex m" "lastIndex (nLog m') = lastIndex (nLog m)" "logBase (node_log m') \<le> i"
      "\<forall>j > i. alog_entry (node_log m') j = alog_entry (node_log m) j"
      using maybeSnapshot_spec[OF inv_m le] by blast
    have keeps: "apply_keeps content C i n m" "apply_keeps content C i n m'"
      using inv_m m m' i(1) by (simp_all add: apply_keeps_def)
    have "apply_step E C n i = Some (m', True) \<or> apply_step E C n i = Some (m, True)"
      using g a None m' by (simp add: apply_step_def m_def Let_def)
    then obtain q where "apply_step E C n i = Some (q, True)" "apply_keeps content C i n q" "nLastApplied q = i" "nSM q = sm"
      using keeps m m'(3,4) by (elim disjE) auto
    then show ?thesis using kv None e by (intro exI[of _ q] exI[of _ True]) simp
  qed
qed

lemma apply_loop_unfold:
  assumes "a < c" and "apply_step E C n (a + 1) = Some (m, go)"
  shows "apply_loop E C a c n = (if go then apply_loop E C (a + 1) c m else Some m)"
  using assms by (subst apply_loop.simps) simp

lemma log_slice_Cons:
  "lo \<le> hi \<Longrightarrow> lo \<noteq> - 1 \<Longrightarrow> log_slice a lo hi = the (alog_entry a lo) # log_slice a (lo + 1) hi"
  by (simp add: log_slice_def u64_range_Cons)

lemma log_slice_same:
  "(\<And>j. lo \<le> j \<Longrightarrow> alog_entry a j = alog_entry b j) \<Longrightarrow> log_slice a lo hi = log_slice b lo hi"
  by (simp add: log_slice_def)

lemma succ_le_iff: "(x :: u64) \<noteq> - 1 \<Longrightarrow> x + 1 \<le> j \<longleftrightarrow> x < j"
  by (auto simp: word_less_nat_alt word_le_nat_alt)

lemma succ_le: "(a :: u64) < c \<Longrightarrow> a + 1 \<le> c" "(a :: u64) < c \<Longrightarrow> a < a + 1" "(a :: u64) < c \<Longrightarrow> a + 1 \<le> j \<longleftrightarrow> a < j"
  using less_max[of a c] by (auto simp: word_less_nat_alt word_le_nat_alt)

lemma apply_keeps_trans:
  "apply_keeps content C i n m \<Longrightarrow> apply_keeps content C k m n' \<Longrightarrow> i \<le> k \<Longrightarrow> apply_keeps content C k n n'"
  by (auto simp: apply_keeps_def)

lemma apply_loop_spec:
  assumes "node_inv n" and "logBase (node_log n) \<le> a" and "a \<le> c" and "c \<le> lastIndex (nLog n)" and "nLastApplied n = a"
  shows "\<exists>n' k. apply_loop E C a c n = Some n' \<and> a \<le> k \<and> k \<le> c \<and> apply_keeps content C k n n' \<and> nLastApplied n' = k \<and>
    stored_kv content n' = kv_replay (log_slice (node_log n) (a + 1) k) (stored_kv content n) \<and>
    (k < c \<longrightarrow> (\<exists>s e err. snd (apply_entry E s e) = Some err))"
  using assms
proof (induction "unat c - unat a" arbitrary: a n rule: less_induct)
  case less
  show ?case
  proof (cases "a < c")
    case False
    then have "a = c" using less.prems(3) by simp
    moreover have "c \<noteq> - 1" using less.prems(4) plog_invD(1)[OF less.prems(1)] by (auto simp: plog_bounds_def word_order.extremum_unique)
    then have "c < c + 1" by (simp add: word_less_nat_alt)
    ultimately show ?thesis using False less.prems
      by (intro exI[of _ n] exI[of _ c]) (simp add: apply_loop.simps log_slice_def apply_keeps_def)
  next
    case True
    note s = succ_le[OF True]
    have "logBase (node_log n) < a + 1" "a + 1 \<le> lastIndex (nLog n)"
      using less.prems(2,4) s by (auto simp: word_less_nat_alt word_le_nat_alt)
    then obtain m go where st: "apply_step E C n (a + 1) = Some (m, go)" and keep: "apply_keeps content C (a + 1) n m"
      and yes: "go \<Longrightarrow> nLastApplied m = a + 1 \<and>
        stored_kv content m = kv_apply (the (alog_entry (node_log n) (a + 1))) (stored_kv content n)"
      and no: "\<not> go \<Longrightarrow> nLog m = nLog n \<and> nLastApplied m = nLastApplied n \<and> stored_kv content m = stored_kv content n \<and>
        (\<exists>e err. snd (apply_entry E (nSM n) e) = Some err)"
      using apply_step_spec[OF less.prems(1)] by blast
    note u = apply_loop_unfold[OF True st]
    show ?thesis
    proof (cases go)
      case False
      have "apply_keeps content C a n m" using keep no[OF False] less.prems(1,2) by (simp add: apply_keeps_def)
      then show ?thesis
        using u False no[OF False] less.prems(3,5) s(2) by (intro exI[of _ m] exI[of _ a]) (auto simp: log_slice_def)
    next
      case True
      have k: "node_inv m" "logBase (node_log m) \<le> a + 1" "c \<le> lastIndex (nLog m)"
        using keep less.prems(4) by (simp_all add: apply_keeps_def)
      obtain n' k where IH: "apply_loop E C (a + 1) c m = Some n'" "a + 1 \<le> k" "k \<le> c" "apply_keeps content C k m n'"
        "nLastApplied n' = k"
        "stored_kv content n' = kv_replay (log_slice (node_log m) (a + 1 + 1) k) (stored_kv content m)"
        "k < c \<longrightarrow> (\<exists>s e err. snd (apply_entry E s e) = Some err)"
        using less.hyps[OF unat_gap_less[OF \<open>a < c\<close>] k(1,2) s(1) k(3)] yes[OF True] by blast
      have "unat (a + 1) \<le> unat (lastIndex (nLog n))" using order.trans[OF s(1) less.prems(4)] by (simp only: word_le_nat_alt)
      then have top: "a + 1 \<noteq> - 1"
        using plog_bounds_base(4)[OF plog_invD(1)[OF less.prems(1)]] unfolding not_max_unat by simp
      have "log_slice (node_log m) (a + 1 + 1) k = log_slice (node_log n) (a + 1 + 1) k"
      proof (rule log_slice_same)
        fix j assume "a + 1 + 1 \<le> j"
        then have "a + 1 < j" using succ_le_iff[OF top] by blast
        then show "alog_entry (node_log m) j = alog_entry (node_log n) j" using keep by (simp add: apply_keeps_def)
      qed
      then have "stored_kv content n' = kv_replay (log_slice (node_log n) (a + 1) k) (stored_kv content n)"
        using IH(6) yes[OF True] log_slice_Cons[OF IH(2) top] by simp
      moreover have "a \<le> k" using s(2) IH(2) by (meson less_imp_le order.trans)
      ultimately show ?thesis
        using u True IH(1,3,5,7) apply_keeps_trans[OF keep IH(4,2)] by auto
    qed
  qed
qed

end

context raft_storage_sure
begin

lemma apply_entry_succeeds: "snd (apply_entry E s e) = None"
  using set_succeeds[of "smEngine s" "dataKey (eKey e)" "eValue e"] delete_succeeds[of "smEngine s" "dataKey (eKey e)"]
  by (auto simp: apply_entry_def ApplyPut_def ApplyDelete_def ApplyNoop_def split: prod.splits option.splits)
    (metis option.distinct(1) snd_conv)+

lemma applyCommitted_all:
  assumes inv: "node_inv n" and base: "logBase (node_log n) \<le> nLastApplied n"
    and le: "nLastApplied n \<le> nCommitIndex n" "nCommitIndex n \<le> lastIndex (nLog n)"
  shows "\<exists>n'. applyCommitted E C n = Some n' \<and> node_inv n' \<and>
    nLastApplied n' = nCommitIndex n \<and> nCommitIndex n' = nCommitIndex n \<and>
    stored_kv content n' = kv_replay (log_slice (node_log n) (nLastApplied n + 1) (nCommitIndex n)) (stored_kv content n) \<and>
    (\<forall>j > nCommitIndex n. alog_entry (node_log n') j = alog_entry (node_log n) j)"
proof -
  obtain n' k where L: "apply_loop E C (nLastApplied n) (nCommitIndex n) n = Some n'" "nLastApplied n \<le> k"
    "k \<le> nCommitIndex n" "apply_keeps content C k n n'" "nLastApplied n' = k"
    "stored_kv content n' = kv_replay (log_slice (node_log n) (nLastApplied n + 1) k) (stored_kv content n)"
    "k < nCommitIndex n \<longrightarrow> (\<exists>s e err. snd (apply_entry E s e) = Some err)"
    using apply_loop_spec[OF inv base le refl] by blast
  have "\<not> k < nCommitIndex n" using L(7) apply_entry_succeeds by auto
  then have "k = nCommitIndex n" using L(3) by simp
  then show ?thesis using L by (simp add: applyCommitted_def apply_keeps_def)
qed

end

section \<open>Heartbeats\<close>

context raft_storage_reads
begin

lemma HandleAppendEntries_heartbeat:
  assumes inv: "node_inv n" and tm: "currentTerm (nLog n) \<le> aeTerm req" and m: "prev_matches (node_log n) req"
    and es: "aeEntries req = []"
  shows "\<exists>n'. HandleAppendEntries E C n req = Some (n', ae_response (aeTerm req) True) \<and>
    logBase (node_log n') = logBase (node_log n) \<and> logEntries (node_log n') = logEntries (node_log n) \<and>
    nCommitIndex n' = max (nCommitIndex n) (min (aeLeaderCommit req) (lastIndex (nLog n)))"
proof -
  obtain n1 t where t: "HandleAppendEntries_term E n req = Inr (n1, t)"
    using tm by (cases "HandleAppendEntries_term E n req")
      (auto simp: HandleAppendEntries_term_def Let_def split: if_splits prod.splits)
  note T = HandleAppendEntries_term_cases[OF t] HandleAppendEntries_term_log[OF t inv]
  have "consistency_check E C (nLog n1) req t = None"
    using consistency_check_abs[OF T(9)] m alog_term_cong[OF T(10-12)] by (simp add: prev_matches_def)
  moreover have "lastIndex (nLog n1) = lastIndex (nLog n)" using T(3) by simp
  ultimately show ?thesis
    using t T es by (simp add: HandleAppendEntries_def advance_commit_fields)
qed

end

section \<open>Proposals and reads\<close>

lemma Propose_locked_spec:
  assumes "raft_storage_reads E content C" and "stored_inv content C n"
    and "unat (lastIndex (nLog n)) + 2 < 2 ^ 64" and "i = lastIndex (nLog n) + 1"
  shows "\<exists>n' r. Propose_locked E C n ty key v rid = Some (n', r) \<and>
    (if nRole n \<noteq> Leader then n' = n \<and> r = Inl ErrNotLeader
     else stored_inv content C n' \<and> logBase (stored_log content C n') = logBase (stored_log content C n) \<and>
       (case r of
          Inl err \<Rightarrow> logEntries (stored_log content C n') = logEntries (stored_log content C n) \<and>
            map_of (nWriteWaiters n') i = None
        | Inr (idx, ch) \<Rightarrow> idx = i \<and> ch = nNextChan n \<and> map_of (nWriteWaiters n') i = Some ch \<and>
            logEntries (stored_log content C n') = logEntries (stored_log content C n) @
              [\<lparr>eIndex = i, eTerm = currentTerm (nLog n), eType = ty, eKey = key, eValue = v, eClientRequestID = rid\<rparr>]))"
proof (cases "nRole n = Leader")
  case False
  then show ?thesis by (simp add: Propose_locked_def)
next
  case True
  have rst: "raft_storage E content C"
    using assms(1) by (simp add: raft_storage_reads_def raft_storage_def engine_reads_def)
  let ?e = "\<lparr>eIndex = i, eTerm = currentTerm (nLog n), eType = ty, eKey = key, eValue = v, eClientRequestID = rid\<rparr>"
  obtain pl r where a: "AppendEntries E C (nLog n) [?e] (FsyncOnAppend (nOpts n)) = Some (pl, r)"
    using raft_storage.AppendEntries_returns[OF rst assms(2)] by blast
  have b: "plog_bounds (nLog n)" using plog_invD(1)[OF assms(2)] .
  note ub = plog_bounds_base[OF b]
  have "lastIndex (nLog n) \<noteq> - 1" using b by (simp add: plog_bounds_def)
  then have i: "unat i = Suc (unat (lastIndex (nLog n)))" using assms(4) by simp
  have ap: "appendable (stored_log content C n) [?e]"
    using i ub assms(3) b by (simp add: appendable_def word_less_nat_alt)
  have all: "logEntries (alog_append [?e] (stored_log content C n)) = logEntries (stored_log content C n) @ [?e]"
    using i ub length_plog_entries[OF b, of C "content (plEngine (nLog n))"] by (simp add: alog_append_def)
  show ?thesis
  proof (cases r)
    case None
    note D = raft_storage.AppendEntries_done[OF rst assms(2) ap a[unfolded None]]
    have "logBase (plog_abs C (content (plEngine pl)) pl) = logBase (stored_log content C n)"
      "logEntries (plog_abs C (content (plEngine pl)) pl) = logEntries (stored_log content C n) @ [?e]"
      unfolding D(2) all by (simp_all add: alog_append_def)
    then show ?thesis
      using True a None D(1) assms(4) by (simp add: Propose_locked_def Let_def make_chan_def update_conv')
  next
    case (Some err)
    note D = raft_storage.AppendEntries_failed[OF rst assms(2) a[unfolded Some]]
    have "lastIncludedIndex pl = lastIncludedIndex (nLog n)" using D(2)[THEN arg_cong, of logBase] by simp
    then show ?thesis
      using True a Some D assms(4) by (simp add: Propose_locked_def Let_def make_chan_def delete_conv')
  qed
qed

lemma confirm_loop_count:
  "confirm_loop peers evs responded confirmed = (c, None) \<Longrightarrow>
   c \<le> confirmed + length (filter (\<lambda>ev. ev = Confirmed True) evs)"
proof (induction evs arbitrary: responded confirmed)
  case (Cons ev evs)
  show ?case
  proof (cases "responded < peers \<and> confirmed < (peers + 1) div 2 + 1")
    case True
    then show ?thesis
      using Cons.prems Cons.IH[of "Suc responded" "Suc confirmed"] Cons.IH[of "Suc responded" confirmed]
      by (auto split: confirm_event.splits if_splits)
  next
    case False
    then have "c = confirmed" using Cons.prems by (simp split: if_splits)
    then show ?thesis by simp
  qed
qed simp

lemma LinearizableRead_confirmed:
  assumes "LinearizableRead E C T sched wait n = (n', None)"
    and "\<And>oks. length (filter (\<lambda>ev. ev = Confirmed True) (sched oks)) \<le> length (filter (\<lambda>ok. ok) oks)"
  shows "nRole n = Leader \<and>
    (\<exists>m oks. confirm_peers E C T (nPeers n) (currentTerm (nLog n)) n = (m, oks) \<and>
       length (nPeers n) + 1 < 2 * (1 + length (filter (\<lambda>ok. ok) oks)) \<and>
       waitForApplied wait m (nCommitIndex n) = (n', None))"
proof -
  have lead: "nRole n = Leader" using assms(1) by (auto simp: LinearizableRead_def split: if_splits)
  obtain m oks where c: "confirm_peers E C T (nPeers n) (currentTerm (nLog n)) n = (m, oks)" by force
  let ?peers = "length (nPeers n)"
  obtain k where k: "confirm_loop ?peers (sched oks) 0 1 = (k, None)" "(?peers + 1) div 2 + 1 \<le> k"
    and w: "waitForApplied wait m (nCommitIndex n) = (n', None)"
    using assms(1) lead c
    by (auto simp: LinearizableRead_def confirmLeadership_def Let_def split: prod.splits option.splits if_splits)
  have "k \<le> 1 + length (filter (\<lambda>ok. ok) oks)"
    using confirm_loop_count[OF k(1)] assms(2)[of oks] by simp
  then have "?peers + 1 < 2 * (1 + length (filter (\<lambda>ok. ok) oks))" using k(2) by presburger
  then show ?thesis using lead c w by blast
qed

end
