(* ===== verification/Waiters.thy ===== *)
theory Waiters
  imports Cluster
begin

text \<open>
  The callers that block on a node: \<^verbatim>\<open>Propose\<close> waits on a channel of \<^verbatim>\<open>writeWaiters\<close>, a read on one of
  \<^verbatim>\<open>pendingReads\<close>. The invariant shows that the sends under the mutex never block.
\<close>

section \<open>The invariant of the write waiters\<close>

text \<open>
  The channels of \<^verbatim>\<open>writeWaiters\<close> have capacity 1. They are fresh and different, nothing was sent on a
  channel that still has an entry in the map, and no channel ever holds more than one value.
\<close>

definition waiters_ok :: "'d node \<Rightarrow> bool" where
  "waiters_ok n =
     (gomap_ok (nWriteWaiters n) \<and> distinct (map snd (nWriteWaiters n)) \<and>
      (\<forall>ch \<in> set (map snd (nWriteWaiters n)). ch < nNextChan n \<and> chan_buffer n ch = []) \<and>
      (\<forall>ch. length (chan_buffer n ch) \<le> 1) \<and> (\<forall>ch \<ge> nNextChan n. chan_buffer n ch = []))"

lemma waiters_ok_frame:
  "nWriteWaiters m = nWriteWaiters n \<Longrightarrow> nBuffers m = nBuffers n \<Longrightarrow> nNextChan n \<le> nNextChan m \<Longrightarrow>
   waiters_ok n \<Longrightarrow> waiters_ok m"
  by (fastforce simp: waiters_ok_def chan_buffer_def)

lemma distinct_filter_le1: "distinct (map snd ws) \<Longrightarrow> length (filter (\<lambda>w. snd w = ch) ws) \<le> 1"
proof (induction ws)
  case (Cons w ws)
  have "snd v \<noteq> snd w" if "v \<in> set ws" for v using Cons.prems that by (metis distinct.simps(2) imageI list.simps(9) set_map)
  then have "filter (\<lambda>v. snd v = ch) ws = []" if "snd w = ch" using that by (auto simp: filter_empty_conv)
  then show ?case using Cons by auto
qed simp

lemma failStaleWriters_waiters_ok:
  assumes ok: "waiters_ok n"
  shows "waiters_ok (failStaleWritersLocked n)"
proof -
  let ?n = "failStaleWritersLocked n"
  have buf: "chan_buffer ?n ch = chan_buffer n ch @ map (\<lambda>_. Some ErrProposalDropped) (filter (\<lambda>w. snd w = ch) (nWriteWaiters n))" for ch
    unfolding failStaleWritersLocked_def by (rule fail_writers_buffer)
  have none: "filter (\<lambda>w. snd w = ch) (nWriteWaiters n) = []" if "ch \<notin> set (map snd (nWriteWaiters n))" for ch
    using that by (auto simp: filter_empty_conv)
  have "length (chan_buffer ?n ch) \<le> 1" for ch
  proof (cases "ch \<in> set (map snd (nWriteWaiters n))")
    case True
    then have "chan_buffer n ch = []" using ok by (auto simp: waiters_ok_def)
    then show ?thesis using ok distinct_filter_le1[of "nWriteWaiters n" ch] by (simp add: buf waiters_ok_def)
  next
    case False
    then show ?thesis using ok none[OF False] by (simp add: buf waiters_ok_def)
  qed
  moreover have "nNextChan ?n = nNextChan n"
    using fail_writers_frame[of "nWriteWaiters n" n] by (auto simp: failStaleWritersLocked_def)
  moreover have "chan_buffer ?n ch = []" if "nNextChan n \<le> ch" for ch
  proof -
    have "ch \<notin> set (map snd (nWriteWaiters n))" using ok that by (auto simp: waiters_ok_def)
    then show ?thesis using ok that none by (simp add: buf waiters_ok_def)
  qed
  ultimately show ?thesis by (simp add: waiters_ok_def)
qed

lemma delete_waiters:
  "waiters_ok n \<Longrightarrow> waiters_ok (n\<lparr>nWriteWaiters := AList.delete i (nWriteWaiters n)\<rparr>)"
  by (auto simp: waiters_ok_def chan_buffer_def AList.delete_eq distinct_map_filter)

lemma chan_send_buffer: "chan_buffer (chan_send ch v n) c = (if c = ch then chan_buffer n ch @ [v] else chan_buffer n c)"
  by (simp add: chan_send_def chan_buffer_def update_conv')

lemma notify_waiters_ok:
  assumes ok: "waiters_ok n"
  shows "waiters_ok (notifyWritersLocked n i)"
proof (cases "map_of (nWriteWaiters n) i")
  case None
  then show ?thesis using ok by (simp add: notifyWritersLocked_def)
next
  case (Some ch)
  let ?m = "notifyWritersLocked n i"
  have m: "nWriteWaiters ?m = AList.delete i (nWriteWaiters n)" "nNextChan ?m = nNextChan n"
    "chan_buffer ?m c = (if c = ch then chan_buffer n ch @ [None] else chan_buffer n c)" for c
    using Some chan_send_buffer[of ch None n c]
    by (simp_all add: notifyWritersLocked_def chan_send_def chan_buffer_def)
  have ch: "(i, ch) \<in> set (nWriteWaiters n)" using Some by (rule map_of_SomeD)
  then have free: "chan_buffer n ch = []" "ch < nNextChan n" using ok by (auto simp: waiters_ok_def)
  have gone: "ch \<notin> set (map snd (AList.delete i (nWriteWaiters n)))"
  proof
    assume "ch \<in> set (map snd (AList.delete i (nWriteWaiters n)))"
    then obtain j where j: "(j, ch) \<in> set (nWriteWaiters n)" "j \<noteq> i" by (auto simp: AList.delete_eq)
    have "inj_on snd (set (nWriteWaiters n))" using ok by (simp add: waiters_ok_def distinct_map)
    then show False using ch j inj_onD[of snd "set (nWriteWaiters n)" "(i, ch)" "(j, ch)"] by simp
  qed
  have sub: "c \<in> set (map snd (nWriteWaiters n))" if "c \<in> set (map snd (AList.delete i (nWriteWaiters n)))" for c
    using that by (auto simp: AList.delete_eq)
  show ?thesis
    unfolding waiters_ok_def
  proof (intro conjI ballI allI impI)
    show "gomap_ok (nWriteWaiters ?m)" "distinct (map snd (nWriteWaiters ?m))"
      using ok by (auto simp: m waiters_ok_def AList.delete_eq distinct_map_filter)
    show "c < nNextChan ?m" "chan_buffer ?m c = []" if "c \<in> set (map snd (nWriteWaiters ?m))" for c
      using that sub[of c] gone ok by (auto simp: m waiters_ok_def)
    show "length (chan_buffer ?m c) \<le> 1" for c using ok free by (simp add: m waiters_ok_def)
    show "chan_buffer ?m c = []" if "nNextChan ?m \<le> c" for c using that ok free by (auto simp: m waiters_ok_def)
  qed
qed

lemma update_fresh:
  "distinct (map snd w) \<Longrightarrow> ch \<notin> set (map snd w) \<Longrightarrow>
   distinct (map snd (AList.update i ch w)) \<and> set (map snd (AList.update i ch w)) \<subseteq> insert ch (set (map snd w))"
  by (induction w) auto

lemma register_waiter:
  assumes ok: "waiters_ok n" and mk: "make_chan n = (ch, m)"
  shows "waiters_ok (m\<lparr>nWriteWaiters := AList.update i ch (nWriteWaiters m)\<rparr>)"
proof -
  have m: "m = n\<lparr>nNextChan := Suc (nNextChan n)\<rparr>" "ch = nNextChan n" using mk by (auto simp: make_chan_def)
  let ?w = "AList.update i ch (nWriteWaiters n)"
  have old: "c < ch" "chan_buffer n c = []" if "c \<in> set (map snd (nWriteWaiters n))" for c
    using ok that by (auto simp: waiters_ok_def m)
  then have fresh: "distinct (map snd ?w)" "set (map snd ?w) \<subseteq> insert ch (set (map snd (nWriteWaiters n)))"
    using update_fresh[of "nWriteWaiters n" ch i] ok by (auto simp: waiters_ok_def)
  have new: "chan_buffer n ch = []" using ok by (simp add: waiters_ok_def m)
  have buf: "chan_buffer (m\<lparr>nWriteWaiters := ?w\<rparr>) c = chan_buffer n c" for c by (simp add: chan_buffer_def m)
  show ?thesis
    unfolding waiters_ok_def
  proof (intro conjI ballI allI impI)
    fix c
    have c: "c < Suc ch \<and> chan_buffer n c = []" if "c \<in> set (map snd ?w)"
    proof -
      have "c = ch \<or> c \<in> set (map snd (nWriteWaiters n))" using that fresh(2) by blast
      then show ?thesis using old[of c] new by (elim disjE) simp_all
    qed
    show "c < nNextChan (m\<lparr>nWriteWaiters := AList.update i ch (nWriteWaiters m)\<rparr>)"
      "chan_buffer (m\<lparr>nWriteWaiters := AList.update i ch (nWriteWaiters m)\<rparr>) c = []"
      if "c \<in> set (map snd (nWriteWaiters (m\<lparr>nWriteWaiters := AList.update i ch (nWriteWaiters m)\<rparr>)))"
      using that c buf[of c] by (simp_all add: m(1) m(2)[symmetric])
    show "length (chan_buffer (m\<lparr>nWriteWaiters := AList.update i ch (nWriteWaiters m)\<rparr>) c) \<le> 1"
      using ok buf[of c] by (simp add: waiters_ok_def m)
    show "chan_buffer (m\<lparr>nWriteWaiters := AList.update i ch (nWriteWaiters m)\<rparr>) c = []"
      if "nNextChan (m\<lparr>nWriteWaiters := AList.update i ch (nWriteWaiters m)\<rparr>) \<le> c"
      using that ok buf[of c] by (simp add: waiters_ok_def m)
  qed (use ok fresh(1) in \<open>simp_all add: waiters_ok_def m\<close>)
qed

section \<open>Every section of the node keeps it\<close>

lemma failStale_if: "waiters_ok n \<Longrightarrow> waiters_ok (if b then failStaleWritersLocked n else n)"
  by (simp add: failStaleWriters_waiters_ok)

lemma set_term_waiters [simp]:
  "nWriteWaiters (set_term_and_vote E t v n) = nWriteWaiters n" "nBuffers (set_term_and_vote E t v n) = nBuffers n"
  "nNextChan (set_term_and_vote E t v n) = nNextChan n"
  by (simp_all add: set_term_and_vote_def)

lemma waiters_ok_set_term [simp]: "waiters_ok (set_term_and_vote E t v n) = waiters_ok n"
  by (simp add: waiters_ok_def chan_buffer_def)

lemma becomeFollower_waiters: "waiters_ok n \<Longrightarrow> waiters_ok (becomeFollower E n t l a)"
proof -
  assume ok: "waiters_ok n"
  let ?n = "n\<lparr>nRole := Follower, nLeaderID := l, nLeaderClientAddr := a\<rparr>"
  have "waiters_ok (if nRole n = Leader then failStaleWritersLocked ?n else ?n)"
    by (rule failStale_if, rule waiters_ok_frame[OF _ _ _ ok]) simp_all
  then show ?thesis by (simp add: becomeFollower_def Let_def split: if_splits)
qed

lemma HandleRequestVote_waiters:
  assumes ok: "waiters_ok n" and h: "HandleRequestVote E C n req = (n', resp)"
  shows "waiters_ok n'"
proof -
  have "waiters_ok (vote_prepare E n (rvTerm req))"
  proof (cases "rvTerm req > currentTerm (nLog n)")
    case True
    show ?thesis
      using True by (simp add: vote_prepare_def) (intro conjI impI waiters_ok_frame[OF _ _ _ failStaleWriters_waiters_ok[OF ok]]
          waiters_ok_frame[OF _ _ _ ok], simp_all)
  qed (simp add: vote_prepare_def ok)
  then show ?thesis
    using ok h by (auto simp: HandleRequestVote_alt Let_def unlockedResetElectionTimer_def split: if_splits intro: waiters_ok_frame)
qed

lemma HandleAppendEntries_waiters:
  assumes ok: "waiters_ok n" and h: "HandleAppendEntries E C n req = Some (n', resp)"
  shows "waiters_ok n'"
proof (cases "HandleAppendEntries_term E n req")
  case (Inl m)
  then show ?thesis
    using ok h by (auto simp: HandleAppendEntries_def HandleAppendEntries_term_def Let_def split: if_splits prod.splits)
next
  case (Inr p)
  obtain n1 t where p: "p = (n1, t)" by force
  have "waiters_ok n1"
  proof (cases "nRole n = Leader \<and> aeTerm req > currentTerm (nLog n)")
    case True
    show ?thesis
      by (rule waiters_ok_frame[OF _ _ _ failStaleWriters_waiters_ok[OF ok]])
         (use True Inr p in \<open>auto simp: HandleAppendEntries_term_def resetElectionTimer_def Let_def split: if_splits prod.splits\<close>)
  next
    case False
    show ?thesis
      by (rule waiters_ok_frame[OF _ _ _ ok])
         (use False Inr p in \<open>auto simp: HandleAppendEntries_term_def resetElectionTimer_def Let_def split: if_splits prod.splits\<close>)
  qed
  moreover have "nWriteWaiters n' = nWriteWaiters n1" "nBuffers n' = nBuffers n1" "nNextChan n' = nNextChan n1"
    using h Inr p
    by (auto simp: HandleAppendEntries_def advance_commit_def signalCommitAdvanced_def Let_def
        split: option.splits bind_splits prod.splits if_splits)
  ultimately show ?thesis by (auto intro: waiters_ok_frame)
qed

lemma install_snapshot_frame:
  "install_snapshot E C n req = Some n' \<Longrightarrow>
   nWriteWaiters n' = nWriteWaiters n \<and> nBuffers n' = nBuffers n \<and> nNextChan n' = nNextChan n \<and> nRole n' = nRole n"
  by (auto simp: install_snapshot_def Let_def split: sum.splits option.splits prod.splits if_splits)

lemma HandleInstallSnapshot_frame:
  "HandleInstallSnapshot E C n req = Some (n', resp) \<Longrightarrow>
   nWriteWaiters n' = nWriteWaiters n \<and> nBuffers n' = nBuffers n \<and> nNextChan n' = nNextChan n"
  by (auto simp: HandleInstallSnapshot_def Let_def resetElectionTimer_def split: if_splits dest!: install_snapshot_frame)

lemma maybeSnapshot_frame:
  "maybeSnapshot E C n i = Some n' \<Longrightarrow>
   nWriteWaiters n' = nWriteWaiters n \<and> nBuffers n' = nBuffers n \<and> nNextChan n' = nNextChan n"
  by (auto simp: maybeSnapshot_def Let_def split: sum.splits option.splits prod.splits if_splits)

lemma apply_step_waiters:
  assumes ok: "waiters_ok n" and st: "apply_step E C n i = Some (n', go)"
  shows "waiters_ok n'"
proof -
  obtain sm where "n' = n \<or> n' = n\<lparr>nSM := sm\<rparr> \<or> (\<exists>m. m = satisfyPendingReadsLocked (notifyWritersLocked (n\<lparr>nSM := sm, nLastApplied := i\<rparr>) i) \<and>
      (n' = m \<or> maybeSnapshot E C m i = Some n'))"
    using st by (auto simp: apply_step_def Let_def split: sum.splits prod.splits option.splits if_splits)
  moreover have "waiters_ok (satisfyPendingReadsLocked (notifyWritersLocked (n\<lparr>nSM := sm, nLastApplied := i\<rparr>) i))"
    by (rule waiters_ok_frame[OF _ _ _ notify_waiters_ok[of "n\<lparr>nSM := sm, nLastApplied := i\<rparr>" i]])
       (use ok in \<open>auto simp: satisfyPendingReadsLocked_def intro: waiters_ok_frame[OF _ _ _ ok]\<close>)
  moreover have "waiters_ok (n\<lparr>nSM := sm\<rparr>)" by (rule waiters_ok_frame[OF _ _ _ ok]) simp_all
  ultimately show ?thesis using ok by (auto dest!: maybeSnapshot_frame intro: waiters_ok_frame)
qed

lemma applyCommitted_waiters:
  assumes "waiters_ok n" and "applyCommitted E C n = Some n'"
  shows "waiters_ok n'"
proof -
  have "waiters_ok n \<longrightarrow> waiters_ok n'"
    by (rule apply_loop_rel[OF assms(2)[unfolded applyCommitted_def], where R = "\<lambda>n n'. waiters_ok n \<longrightarrow> waiters_ok n'"])
       (auto dest: apply_step_waiters)
  then show ?thesis using assms(1) by simp
qed

lemma Propose_locked_waiters:
  assumes ok: "waiters_ok n" and p: "Propose_locked E C n typ key v req = Some (n', r)"
  shows "waiters_ok n'"
proof (cases "nRole n = Leader")
  case True
  obtain ch m where mk: "make_chan n = (ch, m)" by force
  note reg = register_waiter[OF ok mk, of "lastIndex (nLog n) + 1"]
  have "nBuffers n' = nBuffers m \<and> nNextChan n' = nNextChan m \<and>
      (nWriteWaiters n' = AList.update (lastIndex (nLog n) + 1) ch (nWriteWaiters m) \<or>
       nWriteWaiters n' = AList.delete (lastIndex (nLog n) + 1)
         (AList.update (lastIndex (nLog n) + 1) ch (nWriteWaiters m)))"
    using p True mk by (auto simp: Propose_locked_def Let_def split: option.splits prod.splits)
  then show ?thesis
    using waiters_ok_frame[OF _ _ _ reg, of n']
      waiters_ok_frame[OF _ _ _ delete_waiters[OF reg, of "lastIndex (nLog n) + 1"], of n'] by auto
qed (use p ok in \<open>auto simp: Propose_locked_def\<close>)

lemma take_waiters:
  assumes ok: "waiters_ok n"
  shows "waiters_ok (n\<lparr>nBuffers := AList.update ch (tl (chan_buffer n ch)) (nBuffers n)\<rparr>)"
proof -
  have "chan_buffer (n\<lparr>nBuffers := AList.update ch (tl (chan_buffer n ch)) (nBuffers n)\<rparr>) c
      = (if c = ch then tl (chan_buffer n ch) else chan_buffer n c)" for c
    by (simp add: chan_buffer_def update_conv')
  then show ?thesis using ok by (auto simp: waiters_ok_def intro: order.trans[OF _ ])
qed

lemma Propose_select_waiters: "waiters_ok n \<Longrightarrow> waiters_ok (fst (Propose_select n i ch sc))"
  by (auto simp: Propose_select_def take_waiters delete_waiters split: select_case.splits)

text \<open>The sections that vote or lead, beside the others.\<close>

inductive node_step :: "'d engine \<Rightarrow> codec \<Rightarrow> 'd node \<Rightarrow> 'd node \<Rightarrow> bool" for E C where
  node_any: "node_op E C n n' \<Longrightarrow> node_step E C n n'"
| node_vote: "HandleRequestVote E C n req = (n', resp) \<Longrightarrow> node_step E C n n'"
| node_candidate: "becomeCandidate E n = (n', t) \<Longrightarrow> node_step E C n n'"
| node_timer: "node_step E C n (resetElectionTimer n)"
| node_count: "election_step E t (VoteArrives r) (n, el) = (n', el') \<Longrightarrow> node_step E C n n'"
| node_leader: "becomeLeader_locked n = (n', b) \<Longrightarrow> node_step E C n n'"
| node_read_end: "node_step E C n (n\<lparr>nPendingReads := removePending ch (nPendingReads n)\<rparr>)"
| node_stop: "node_step E C n (Stop n)"

inductive node_reach :: "'d engine \<Rightarrow> codec \<Rightarrow> 'd node \<Rightarrow> 'd node \<Rightarrow> bool" for E C n where
  node_here: "node_reach E C n n"
| node_next: "node_reach E C n m \<Longrightarrow> node_step E C m m' \<Longrightarrow> node_reach E C n m'"

lemma node_op_waiters:
  assumes "node_op E C n n'" and ok: "waiters_ok n"
  shows "waiters_ok n'"
  using assms
proof (induction rule: node_op.induct)
  case (append_rpc n req n' resp)
  then show ?case using HandleAppendEntries_waiters by blast
next
  case (snapshot_rpc n sreq n' sresp)
  then show ?case using HandleInstallSnapshot_frame[OF snapshot_rpc(1)] waiters_ok_frame[of n' n] by simp
next
  case (append_response n peer t es aresp)
  then show ?case
    using becomeFollower_waiters[of n]
    by (auto simp: replicateToPeer_response_def Let_def intro: waiters_ok_frame)
next
  case (snapshot_request n t)
  then show ?case
    by (auto simp: sendInstallSnapshot_request_def split: prod.splits sum.splits option.splits intro: waiters_ok_frame)
next
  case (snapshot_response n peer t li sresp)
  then show ?case
    using becomeFollower_waiters[of n] by (auto simp: sendInstallSnapshot_response_def intro: waiters_ok_frame)
next
  case (step_down n t leader addr)
  then show ?case by (rule becomeFollower_waiters)
next
  case (advance n t)
  then show ?case
    by (auto simp: tryAdvanceCommitIndex_def signalCommitAdvanced_def intro: waiters_ok_frame)
next
  case (append_local n e n' e')
  then show ?case by (auto simp: appendLocal_def Let_def intro: waiters_ok_frame)
next
  case (propose n ty key v rid n' r)
  then show ?case using Propose_locked_waiters by blast
next
  case (propose_end n i ch sc)
  then show ?case by (rule Propose_select_waiters)
next
  case (apply_committed n n')
  then show ?case using applyCommitted_waiters by blast
next
  case (read n i)
  then show ?case by (auto simp: waitForApplied_locked_def make_chan_def intro: waiters_ok_frame)
qed

lemma node_step_waiters:
  assumes "node_step E C n n'" and ok: "waiters_ok n"
  shows "waiters_ok n'"
  using assms
proof (induction rule: node_step.induct)
  case (node_any n n')
  then show ?case by (rule node_op_waiters)
next
  case (node_vote n req n' resp)
  then show ?case using HandleRequestVote_waiters by blast
next
  case (node_candidate n n' t)
  have "nWriteWaiters n' = nWriteWaiters n \<and> nBuffers n' = nBuffers n \<and> nNextChan n' = nNextChan n"
    using node_candidate(1) by (auto simp: becomeCandidate_def becomeCandidate_set_def Let_def)
  then show ?case using node_candidate(2) waiters_ok_frame[of n' n] by simp
next
  case (node_timer n)
  then show ?case by (auto simp: resetElectionTimer_def intro: waiters_ok_frame)
next
  case (node_count t r n el n' el')
  then show ?case
    using becomeFollower_waiters[of n E "vrHigherTerm r" "[]" "[]"]
    by (auto simp: election_step_def Let_def split: if_splits)
next
  case (node_leader n n' b)
  then show ?case using becomeLeader_locked_frame[OF node_leader(1)] waiters_ok_frame[of n' n] by simp
next
  case (node_read_end n ch)
  then show ?case by (auto intro: waiters_ok_frame)
next
  case (node_stop n)
  then show ?case by (auto simp: Stop_def intro: waiters_ok_frame)
qed

lemma node_reach_waiters: "node_reach E C n m \<Longrightarrow> waiters_ok n \<Longrightarrow> waiters_ok m"
  by (induction rule: node_reach.induct) (auto intro: node_step_waiters)

end
