(* ===== verification/Replication_Properties.thy ===== *)
theory Replication_Properties
  imports Replication_Proofs
begin

text \<open>
  The properties of \<^verbatim>\<open>internal/raft/replication.go\<close>: what a follower accepts, what a round of
  replication achieves between a leader and a follower, when a leader commits, and that refusals lead
  to agreement; and two ways in which the code departs from the protocol.
\<close>

section \<open>Concrete nodes\<close>

text \<open>A leader of term 3 that has committed its two entries with node c; b has another second entry.\<close>

definition ex_leader :: "memdb node" where
  "ex_leader = (ex_node ''a'' [''b'', ''c''] ex_log3)\<lparr>nRole := Leader, nCommitIndex := 2,
     nNextIndex := [(''b'', 2), (''c'', 3)], nMatchIndex := [(''b'', 0), (''c'', 2)]\<rparr>"

definition ex_follower :: "memdb node" where
  "ex_follower = ex_node ''b'' [''a'', ''c''] ex_log1"

lemma ex_leader_inv: "stored_inv mem_content gob_codec ex_leader"
  and ex_leader_log: "stored_log mem_content gob_codec ex_leader
     = \<lparr>logBase = 0, logBaseTerm = 0, logEntries = [ex_entry 1 1, ex_entry 2 3], logTerm = 3, logVote = ''a''\<rparr>"
  using ex_log3_inv ex_log3_abs by (simp_all add: ex_leader_def)

lemma ex_follower_inv: "stored_inv mem_content gob_codec ex_follower"
  and ex_follower_log: "stored_log mem_content gob_codec ex_follower
     = \<lparr>logBase = 0, logBaseTerm = 0, logEntries = [ex_entry 1 1, ex_entry 2 1], logTerm = 0, logVote = []\<rparr>"
  using ex_log1_inv ex_log1_abs by (simp_all add: ex_follower_def)

lemma ex_fields:
  "currentTerm (nLog ex_leader) = 3" "lastIndex (nLog ex_leader) = 2" "firstIndex (nLog ex_leader) = 1"
  "currentTerm (nLog ex_follower) = 0" "lastIndex (nLog ex_follower) = 2"
proof -
  note l = ex_leader_log[THEN arg_cong] and f = ex_follower_log[THEN arg_cong]
  show "currentTerm (nLog ex_leader) = 3" using l[of logTerm] by simp
  show "currentTerm (nLog ex_follower) = 0" using f[of logTerm] by simp
  show "lastIndex (nLog ex_leader) = 2" "lastIndex (nLog ex_follower) = 2"
    using alog_last_plog[OF plog_invD(1)[OF ex_leader_inv], of gob_codec "mem_content (plEngine (nLog ex_leader))"]
      alog_last_plog[OF plog_invD(1)[OF ex_follower_inv], of gob_codec "mem_content (plEngine (nLog ex_follower))"]
    unfolding ex_leader_log ex_follower_log by (simp_all add: alog_last_def)
  show "firstIndex (nLog ex_leader) = 1"
    using l[of logBase] plog_invD(1)[OF ex_leader_inv] by (simp add: plog_bounds_def)
qed

lemma ex_u64_2: "(1 :: u64) < 2" "(0 :: u64) < 2" "unat (2 :: u64) = 2"
  by simp_all

lemma ex_terms:
  "alog_entry (stored_log mem_content gob_codec ex_leader) 2 = Some (ex_entry 2 3)"
  "alog_entry (stored_log mem_content gob_codec ex_follower) 2 = Some (ex_entry 2 1)"
  "alog_term (stored_log mem_content gob_codec ex_leader) 1 = Some 1"
  "alog_term (stored_log mem_content gob_codec ex_follower) 1 = Some 1"
  unfolding ex_leader_log ex_follower_log
  by (simp_all add: alog_entry_def alog_term_def alog_last_def ex_entry_def)

definition ex_request :: append_entries_request where
  "ex_request = \<lparr>aeTerm = 3, aeLeaderID = ''a'', aePrevLogIndex = 1, aePrevLogTerm = 1,
     aeEntries = [ex_entry 2 3], aeLeaderCommit = 2, aeLeaderClientAddr = ''addr''\<rparr>"

lemma ex_replicate: "replicateToPeer_request exE gob_codec ex_leader ''b'' 3 = Some (SendAppend ex_request)"
proof -
  have f: "nRole ex_leader = Leader" "nOpts ex_leader = ex_opts" "lookup0 (nNextIndex ex_leader) ''b'' = 2"
    "nID ex_leader = ''a''" "nCommitIndex ex_leader = 2" "nSelfClientAddr ex_leader = ''addr''"
    by (simp_all add: ex_leader_def ex_node_def lookup0_def)
  have t: "TermAt exE gob_codec (nLog ex_leader) 1 = Some 1"
    using store.TermAt_abs[OF ex_leader_inv] ex_terms(3) by simp
  have "Log_Range exE gob_codec (nLog ex_leader) 2 2 = Some (Inr [ex_entry 2 3])"
    using store.Log_Range_abs[OF ex_leader_inv, of 2 2] ex_terms(1) u64_range_Cons[of 2 2]
    by (simp add: ex_fields)
  then have "replicate_entries exE gob_codec ex_leader 2 = Some (Inr [ex_entry 2 3])"
    by (simp add: replicate_entries_def ex_fields f ex_opts_def Let_def)
  then show ?thesis
    by (simp add: replicateToPeer_request_def ex_fields f t ex_request_def)
qed

text \<open>Without faults a matching request in a current term is accepted.\<close>

lemma ex_accepts:
  assumes inv: "stored_inv mem_content gob_codec n" and rel: "mem_reliable (plEngine (nLog n))"
    and tm: "currentTerm (nLog n) \<le> aeTerm req" and m: "prev_matches (stored_log mem_content gob_codec n) req"
    and small: "\<And>e. e \<in> set (aeEntries req) \<Longrightarrow> length (eKey e) + length (eValue e) + length (eClientRequestID e) < 2 ^ 32"
  shows "\<exists>n'. HandleAppendEntries exE gob_codec n req = Some (n', ae_response (aeTerm req) True)"
proof -
  obtain n1 t where t: "HandleAppendEntries_term exE n req = Inr (n1, t)"
    using tm by (cases "HandleAppendEntries_term exE n req")
      (auto simp: HandleAppendEntries_term_def Let_def split: if_splits prod.splits)
  note T = HandleAppendEntries_term_cases[OF t] store.HandleAppendEntries_term_log[OF t inv]
  have "mem_reliable (plEngine (nLog (set_term_and_vote exE (aeTerm req) [] n)))"
    using reliable_SetTermAndVote[OF rel, of "aeTerm req" "[]"] by (auto simp: set_term_and_vote_def)
  then have "mem_reliable (plEngine (nLog n1))" using T(3) rel by simp
  then obtain pl where "AppendEntries exE gob_codec (nLog n1) (aeEntries req) (FsyncOnAppend (nOpts n1)) = Some (pl, None)"
    using ex_AppendEntries[OF plog_invD(1)[OF T(9)] _ small] by blast
  moreover have "consistency_check exE gob_codec (nLog n1) req t = None"
    using store.consistency_check_abs[OF T(9)] m alog_term_cong[OF T(10-12)] by (simp add: prev_matches_def)
  ultimately show ?thesis using t T(2) by (simp add: HandleAppendEntries_def Let_def)
qed

lemma ex_accepted: "\<exists>n'. HandleAppendEntries exE gob_codec ex_follower ex_request = Some (n', ae_response 3 True)"
  using ex_accepts[OF ex_follower_inv, of ex_request] ex_log1_reliable ex_entry_small ex_terms(4) ex_fields(4)
  by (simp add: ex_request_def prev_matches_def ex_follower_def)

section \<open>The properties\<close>

text \<open>C3.
  A round of replication. A leader's \<^verbatim>\<open>replicateToPeer\<close> builds a request from its log, a follower
  accepts it, and the leader takes the answer. If the logs had the Log Matching Property they have it
  afterwards, they agree up to the last entry sent, and the match index that the leader then records
  for the peer is an index up to which they agree and at which the follower's log ends.
\<close>

theorem replication_round_agrees:
  assumes "raft_storage_reads E content C" and "stored_inv content C l" and "stored_inv content C f"
    and "replicateToPeer_request E C l peer t = Some (SendAppend req)"
    and "HandleAppendEntries E C f req = Some (f', resp)" and "aerSuccess resp"
    and "log_match (stored_log content C l) (stored_log content C f)"
    and "aePrevLogIndex req = 0 \<longrightarrow> logBase (stored_log content C f) = 0"
    and "l' = replicateToPeer_response E C l peer t (aeEntries req) resp"
  shows "log_match (stored_log content C l) (stored_log content C f')
    \<and> agree (stored_log content C l) (stored_log content C f') (aePrevLogIndex req)
    \<and> (aeEntries req \<noteq> [] \<longrightarrow>
         agree (stored_log content C l) (stored_log content C f') (lookup0 (nMatchIndex l') peer) \<and>
         lookup0 (nMatchIndex l') peer = lastIndex (nLog f') \<and>
         lookup0 (nNextIndex l') peer = lookup0 (nMatchIndex l') peer + 1)"
proof -
  note R = raft_storage_reads.replication_round[OF assms(1-8)]
  note Q = raft_storage_reads.replicate_request_abs(1-3)[OF assms(1,2,4)]
  have "aerTerm resp = t"
    using raft_storage_reads.HandleAppendEntries_accepted(9)[OF assms(1,3)
      raft_storage_reads.request_wf[OF assms(1,2,4,8)] assms(5,6)] Q(3) by simp
  then have "lookup0 (nMatchIndex l') peer = eIndex (last (aeEntries req)) \<and>
    lookup0 (nNextIndex l') peer = eIndex (last (aeEntries req)) + 1" if "aeEntries req \<noteq> []"
    using that Q assms(6,9) by (simp add: replicateToPeer_response_def)
  then show ?thesis using R by simp
qed

theorem replication_round_agrees_witness:
  "\<exists>f' resp. HandleAppendEntries exE gob_codec ex_follower ex_request = Some (f', resp) \<and>
     agree (stored_log mem_content gob_codec ex_leader) (stored_log mem_content gob_codec f')
       (lookup0 (nMatchIndex (replicateToPeer_response exE gob_codec ex_leader ''b'' 3 [ex_entry 2 3] resp)) ''b'')"
proof -
  obtain f' where h: "HandleAppendEntries exE gob_codec ex_follower ex_request = Some (f', ae_response 3 True)"
    using ex_accepted by blast
  have "log_match (stored_log mem_content gob_codec ex_leader) (stored_log mem_content gob_codec ex_follower)"
    unfolding ex_leader_log ex_follower_log log_match_def agree_def
    by (auto simp: alog_term_def alog_entry_def alog_last_def word_le_nat_alt word_less_nat_alt ex_entry_def
        nth_Cons' split: if_splits)
  from replication_round_agrees[OF store.raft_storage_reads_axioms ex_leader_inv ex_follower_inv ex_replicate h _ this _ refl]
  show ?thesis using h by (auto simp: ae_response_def ex_request_def)
qed



text \<open>C7.
  The commitment rule. When \<^verbatim>\<open>tryAdvanceCommitIndex\<close> moves the commit index, the node leads in the
  given term, the index goes up, the entry there has the leader's own term, a majority of the nodes
  (the leader and the peers by their match indexes) have it, and it is the largest index with this
  majority. Nothing but the commit index and the signal to the apply loop changes.
\<close>

theorem commit_needs_majority:
  assumes "raft_storage_reads E content C" and "stored_inv content C n"
    and "n' = tryAdvanceCommitIndex E C n t" and "nCommitIndex n' \<noteq> nCommitIndex n"
  shows "nRole n = Leader \<and> currentTerm (nLog n) = t \<and> nCommitIndex n < nCommitIndex n'
    \<and> alog_term (stored_log content C n) (nCommitIndex n') = Some t
    \<and> (\<forall>i. i \<le> nCommitIndex n' \<longleftrightarrow>
          length (nPeers n) + 1 < 2 * length (filter (\<lambda>m. i \<le> m)
            (lastIndex (nLog n) # map (\<lambda>p. lookup0 (nMatchIndex n) (piID p)) (nPeers n))))
    \<and> n' = n\<lparr>nCommitIndex := nCommitIndex n', nCommitAdvanced := True\<rparr>"
proof -
  have *: "nRole n = Leader" "currentTerm (nLog n) = t" "nCommitIndex n < majority_index n"
    "TermAt E C (nLog n) (majority_index n) = Some t"
    and n': "n' = n\<lparr>nCommitIndex := majority_index n, nCommitAdvanced := True\<rparr>"
    using assms(3,4) by (auto simp: tryAdvanceCommitIndex_def signalCommitAdvanced_def split: if_splits)
  have "i \<le> majority_index n \<longleftrightarrow> length (nPeers n) + 1 < 2 * length (filter (\<lambda>m. i \<le> m)
      (lastIndex (nLog n) # map (\<lambda>p. lookup0 (nMatchIndex n) (piID p)) (nPeers n)))" for i
    using majority_index_iff[of i n] unfolding match_indexes_def by (simp only: length_Cons length_map Suc_eq_plus1)
  then show ?thesis using * n' raft_storage_reads.TermAt_abs[OF assms(1,2)] by simp
qed

lemma ex_majority: "majority_index (ex_leader\<lparr>nCommitIndex := 1\<rparr>) = 2"
proof -
  have "match_indexes (ex_leader\<lparr>nCommitIndex := 1\<rparr>) = [2, 0, 2]"
    using ex_fields(2) by (simp add: match_indexes_def ex_leader_def lookup0_def)
  then show ?thesis by (simp add: majority_index_def insort_key_def)
qed

theorem commit_needs_majority_witness:
  "nCommitIndex (tryAdvanceCommitIndex exE gob_codec (ex_leader\<lparr>nCommitIndex := 1\<rparr>) 3) = 2 \<and>
   alog_term (stored_log mem_content gob_codec ex_leader) 2 = Some 3"
proof -
  let ?n = "ex_leader\<lparr>nCommitIndex := 1\<rparr>"
  have inv: "stored_inv mem_content gob_codec ?n" using ex_leader_inv by simp
  have t2: "alog_term (stored_log mem_content gob_codec ex_leader) 2 = Some 3"
    unfolding ex_leader_log by (simp add: alog_term_def alog_entry_def alog_last_def ex_entry_def)
  have c: "nCommitIndex (tryAdvanceCommitIndex exE gob_codec ?n 3) = 2"
    using store.TermAt_abs[OF ex_leader_inv] t2 ex_fields(1) ex_majority
    by (simp add: tryAdvanceCommitIndex_def signalCommitAdvanced_def)
       (simp add: ex_leader_def word_le_nat_alt)
  then show ?thesis
    using commit_needs_majority[OF store.raft_storage_reads_axioms inv refl, of 3] by simp
qed

text \<open>C21.
  What a leader sends to a peer. \<^verbatim>\<open>replicateToPeer\<close> always decides: nothing when the node no longer
  leads in the term, a snapshot when the peer's next entry was compacted away, otherwise the entries
  from the peer's next index on, in order and at most one batch, with the index before them, the term
  the leader's log has there, and the commit index.
\<close>

theorem replicate_request_correct:
  assumes "raft_storage_reads E content C" and "stored_inv content C n"
    and "next = lookup0 (nNextIndex n) peer" and "max_batch = ReplicationBatchMaxEntries (nOpts n)"
  shows "\<exists>out. replicateToPeer_request E C n peer t = Some out \<and>
    (case out of
       SendNothing \<Rightarrow> nRole n \<noteq> Leader \<or> currentTerm (nLog n) \<noteq> t
     | SendSnapshot \<Rightarrow> nRole n = Leader \<and> currentTerm (nLog n) = t \<and>
         (next < firstIndex (nLog n) \<or> alog_term (stored_log content C n) (next - 1) = None)
     | SendAppend req \<Rightarrow> nRole n = Leader \<and> currentTerm (nLog n) = t \<and> aeTerm req = t \<and>
         aeLeaderCommit req = nCommitIndex n \<and> aePrevLogIndex req = next - 1 \<and> firstIndex (nLog n) \<le> next \<and>
         (aePrevLogIndex req \<noteq> 0 \<longrightarrow> alog_term (stored_log content C n) (aePrevLogIndex req) = Some (aePrevLogTerm req)) \<and>
         (\<exists>hi \<le> lastIndex (nLog n). aeEntries req = log_slice (stored_log content C n) next hi \<and>
            (next \<le> lastIndex (nLog n) \<longrightarrow> next \<le> hi)) \<and>
         (0 < max_batch \<and> max_batch < 2 ^ 64 \<longrightarrow> length (aeEntries req) \<le> nat max_batch))"
proof (cases "nRole n \<noteq> Leader \<or> currentTerm (nLog n) \<noteq> t")
  case True
  then show ?thesis by (auto simp: replicateToPeer_request_def intro!: exI[of _ SendNothing])
next
  case lead: False
  note TA = raft_storage_reads.TermAt_abs[OF assms(1,2)]
  show ?thesis
  proof (cases "next < firstIndex (nLog n) \<or> alog_term (stored_log content C n) (next - 1) = None \<and> next - 1 \<noteq> 0")
    case True
    then have "replicateToPeer_request E C n peer t = Some SendSnapshot"
      using lead TA by (auto simp: replicateToPeer_request_def Let_def assms(3))
    then show ?thesis using True lead by auto
  next
    case False
    obtain hi where "replicate_entries E C n next = Some (Inr (log_slice (stored_log content C n) next hi))"
      using raft_storage_reads.replicate_entries_abs[OF assms(1,2), of "next"] False by (auto simp: not_less)
    then obtain req where r: "replicateToPeer_request E C n peer t = Some (SendAppend req)"
      using lead False TA by (auto simp: replicateToPeer_request_def Let_def assms(3))
    note R = raft_storage_reads.replicate_request_abs[OF assms(1,2) r]
    have "aePrevLogIndex req = next - 1" using R(6) assms(3) by (metis add_diff_cancel_right')
    then show ?thesis using R r assms(3,4) by (intro exI[of _ "SendAppend req"]) auto
  qed
qed

theorem replicate_request_correct_witness:
  "\<exists>req. replicateToPeer_request exE gob_codec ex_leader ''b'' 3 = Some (SendAppend req) \<and>
     aePrevLogIndex req = 1 \<and> aePrevLogTerm req = 1"
  using replicate_request_correct[OF store.raft_storage_reads_axioms ex_leader_inv refl refl, of "''b''" 3]
    ex_replicate ex_terms(3)
  by (auto simp: ex_request_def)


text \<open>The leader before it knows anything about b: it starts after its own last entry.\<close>

definition ex_new_leader :: "memdb node" where
  "ex_new_leader = ex_leader\<lparr>nNextIndex := [(''b'', 3), (''c'', 3)]\<rparr>"

lemma ex_new_leader_fields [simp]:
  "nLog ex_new_leader = nLog ex_leader" "nRole ex_new_leader = Leader"
  "lookup0 (nNextIndex ex_new_leader) ''b'' = 3"
  by (simp_all add: ex_new_leader_def ex_leader_def lookup0_def)

lemma ex_terms2:
  "alog_term (stored_log mem_content gob_codec ex_leader) 2 = Some 3"
  "alog_term (stored_log mem_content gob_codec ex_follower) 2 = Some 1"
  unfolding ex_leader_log ex_follower_log
  by (simp_all add: alog_entry_def alog_term_def alog_last_def ex_entry_def)


text \<open>
  An accepted request cuts the log. Whatever the follower had after the last entry of an accepted
  request is gone, also when the request is an old one whose entries the log already holds: a delayed
  request makes a follower lose entries that it has acknowledged in a later answer.
\<close>

theorem stale_append_drops_entries:
  assumes "raft_storage_reads E content C" and "stored_inv content C n" and "ae_wf (stored_log content C n) req"
    and "HandleAppendEntries E C n req = Some (n', resp)" and "aerSuccess resp"
    and "aeEntries req \<noteq> []"
    and "\<And>e. e \<in> set (aeEntries req) \<Longrightarrow> alog_entry (stored_log content C n) (eIndex e) = Some e"
    and "eIndex (last (aeEntries req)) < i" and "alog_entry (stored_log content C n) i = Some lost"
  shows "lastIndex (nLog n') = eIndex (last (aeEntries req)) \<and> alog_entry (stored_log content C n') i = None"
proof -
  note A = raft_storage_reads.HandleAppendEntries_accepted[OF assms(1-5)]
  have wf: "alog_wf (stored_log content C n)" using alog_wf_plog[OF assms(2)] .
  have ap: "appendable (stored_log content C n) (aeEntries req)" by (rule ae_appendable[OF wf assms(3) A(2)])
  let ?a = "alog_append (aeEntries req) (stored_log content C n)"
  have same: "logBase (stored_log content C n') = logBase ?a" "logEntries (stored_log content C n') = logEntries ?a"
    using A(4,6) by (simp_all add: alog_append_def)
  have "alog_last (stored_log content C n') = eIndex (last (aeEntries req))"
    using appendable_wf(1)[OF wf ap assms(6)] same by (simp only: alog_last_def)
  then show ?thesis
    using alog_entry_append(3)[OF wf ap assms(6,8)] alog_entry_cong[OF same] alog_last_plog[OF plog_invD(1)[OF A(3)]]
    by simp
qed

definition ex_old_request :: append_entries_request where
  "ex_old_request = \<lparr>aeTerm = 3, aeLeaderID = ''a'', aePrevLogIndex = 0, aePrevLogTerm = 0,
     aeEntries = [ex_entry 1 1], aeLeaderCommit = 0, aeLeaderClientAddr = ''addr''\<rparr>"

theorem stale_append_drops_entries_witness:
  "\<exists>n' resp. HandleAppendEntries exE gob_codec ex_follower ex_old_request = Some (n', resp) \<and> aerSuccess resp \<and>
     alog_entry (stored_log mem_content gob_codec ex_follower) 2 = Some (ex_entry 2 1) \<and>
     alog_entry (stored_log mem_content gob_codec n') 2 = None"
proof -
  obtain n' where h: "HandleAppendEntries exE gob_codec ex_follower ex_old_request = Some (n', ae_response 3 True)"
    using ex_accepts[OF ex_follower_inv, of ex_old_request] ex_log1_reliable ex_entry_small ex_fields(4)
    by (auto simp: ex_old_request_def prev_matches_def ex_follower_def)
  have wf: "ae_wf (stored_log mem_content gob_codec ex_follower) ex_old_request"
    unfolding ex_follower_log by (simp add: ae_wf_def ex_old_request_def ex_entry_def)
  have e1: "alog_entry (stored_log mem_content gob_codec ex_follower) 1 = Some (ex_entry 1 1)"
    unfolding ex_follower_log by (simp add: alog_entry_def alog_last_def)
  from stale_append_drops_entries[OF store.raft_storage_reads_axioms ex_follower_inv wf h _ _ _ _ ex_terms(2)]
  show ?thesis using h e1 ex_terms(2) by (auto simp: ae_response_def ex_old_request_def ex_entry_def word_less_nat_alt)
qed

end
