(* ===== verification/Client_Properties.thy ===== *)
theory Client_Properties
  imports Client_Proofs Waiters Replication_Properties
begin

text \<open>
  The properties of what a client meets: proposals (\<^verbatim>\<open>propose.go\<close>), the apply loop
  (\<^verbatim>\<open>node_lifecycle.go\<close>) and reads (\<^verbatim>\<open>readindex.go\<close>), and two flaws that show when they are composed
  with replication and snapshots.
\<close>

section \<open>Applying\<close>

text \<open>C4.
  Applying replays the log. With storage whose writes succeed, \<^verbatim>\<open>applyCommitted\<close> returns, everything
  committed is applied, and the key-value store has become the replay of exactly the entries between
  the old applied index and the commit index, in order, on its old contents. It holds with snapshots
  and log compaction in the middle of the loop, and the entries above the commit index are kept.
\<close>

theorem applyCommitted_replays:
  assumes "raft_storage_sure E content C" and "stored_inv content C n"
    and "logBase (stored_log content C n) \<le> nLastApplied n" and "nLastApplied n \<le> nCommitIndex n"
    and "nCommitIndex n \<le> lastIndex (nLog n)"
  shows "\<exists>n'. applyCommitted E C n = Some n' \<and> stored_inv content C n' \<and>
    nLastApplied n' = nCommitIndex n \<and> nCommitIndex n' = nCommitIndex n \<and>
    stored_kv content n' = kv_replay (log_slice (stored_log content C n) (nLastApplied n + 1) (nCommitIndex n))
      (stored_kv content n) \<and>
    (\<forall>j > nCommitIndex n. alog_entry (stored_log content C n') j = alog_entry (stored_log content C n) j)"
  by (rule raft_storage_sure.applyCommitted_all[OF assms])

lemma ex_follower_slice: "log_slice (stored_log mem_content gob_codec ex_follower) 1 2 = [ex_entry 1 1, ex_entry 2 1]"
proof -
  have "u64_range 1 2 = [1, 2]" using u64_range_Cons[of 1 2] u64_range_Cons[of 2 2] by (simp add: word_le_nat_alt)
  moreover have "alog_entry (stored_log mem_content gob_codec ex_follower) 1 = Some (ex_entry 1 1)"
    unfolding ex_follower_log by (simp add: alog_entry_def alog_last_def)
  ultimately show ?thesis using ex_terms(2) by (simp add: log_slice_def)
qed

theorem applyCommitted_replays_witness:
  "\<exists>n'. applyCommitted sureE gob_codec (ex_follower\<lparr>nCommitIndex := 2\<rparr>) = Some n' \<and> nLastApplied n' = 2 \<and>
     stored_kv mem_content n' ''k'' = Some [1]"
proof -
  let ?n = "ex_follower\<lparr>nCommitIndex := 2\<rparr>"
  have inv: "stored_inv mem_content gob_codec ?n" using ex_follower_inv by simp
  have base: "logBase (stored_log mem_content gob_codec ex_follower) = 0" unfolding ex_follower_log by simp
  have la: "nLastApplied ex_follower = 0" by (simp add: ex_follower_def)
  have "kv_replay [ex_entry 1 1, ex_entry 2 1] kv ''k'' = Some [1]" for kv
    by (simp add: kv_apply_def ex_entry_def EntryPut_def)
  then show ?thesis
    using applyCommitted_replays[OF sstore.raft_storage_sure_axioms inv] base la ex_fields(5) ex_follower_slice by auto
qed

text \<open>C35.
  A restart repeats no harm. A restarted node applies again entries that it had applied before it
  stopped, over whatever part of their effects its store kept, in whatever order they reached the
  disk. When it has caught up with the commit index its store is the one that applying each entry
  once, in order, gives.
\<close>

theorem restart_reapplies_harmlessly:
  assumes "raft_storage_sure E content C" and "stored_inv content C n"
    and "logBase (stored_log content C n) \<le> nLastApplied n" and "nLastApplied n \<le> nCommitIndex n"
    and "nCommitIndex n \<le> lastIndex (nLog n)"
    and "es = log_slice (stored_log content C n) (nLastApplied n + 1) (nCommitIndex n)"
    and "stored_kv content n = kv_replay kept kv" and "set kept \<subseteq> set es"
  shows "\<exists>n'. applyCommitted E C n = Some n' \<and> nLastApplied n' = nCommitIndex n \<and>
    stored_kv content n' = kv_replay es kv"
  using raft_storage_sure.applyCommitted_all[OF assms(1-5)] kv_replay_again[OF assms(8), of kv] assms(6,7) by auto

theorem restart_reapplies_harmlessly_witness:
  "\<exists>n'. applyCommitted sureE gob_codec (ex_follower\<lparr>nCommitIndex := 2\<rparr>) = Some n' \<and>
     stored_kv mem_content n' = kv_replay [ex_entry 1 1, ex_entry 2 1] Map.empty"
proof -
  let ?n = "ex_follower\<lparr>nCommitIndex := 2\<rparr>"
  have inv: "stored_inv mem_content gob_codec ?n" using ex_follower_inv by simp
  have base: "logBase (stored_log mem_content gob_codec ex_follower) = 0" unfolding ex_follower_log by simp
  have la: "nLastApplied ex_follower = 0" by (simp add: ex_follower_def)
  have kv: "stored_kv mem_content ?n = kv_replay [] Map.empty"
    by (rule ext) (simp add: ex_follower_def NewStateMachine_def kv_content_def mem_content_def mem_empty_def)
  from restart_reapplies_harmlessly[OF sstore.raft_storage_sure_axioms inv _ _ _ refl kv]
  show ?thesis using base la ex_fields(5) ex_follower_slice by auto
qed

section \<open>Proposals\<close>



text \<open>C10.
  The sends to blocked proposals never block. The channels of \<^verbatim>\<open>writeWaiters\<close> hold one value; they are
  sent on while the node's mutex is held, by the apply loop and by every step-down. In every state
  that a node reaches by its sections in any order from a state with this invariant (a new node has
  it), a channel that has an entry in the map is empty, and no channel holds more than one value.
\<close>

theorem waiters_never_block:
  assumes "node_reach E C n m" and "waiters_ok n"
  shows "(\<forall>i ch. map_of (nWriteWaiters m) i = Some ch \<longrightarrow> chan_buffer m ch = []) \<and>
    (\<forall>ch. length (chan_buffer m ch) \<le> 1) \<and> distinct (map snd (nWriteWaiters m))"
proof -
  have ok: "waiters_ok m" by (rule node_reach_waiters[OF assms])
  have "chan_buffer m ch = []" if "map_of (nWriteWaiters m) i = Some ch" for i ch
    using ok map_of_SomeD[OF that] by (force simp: waiters_ok_def)
  then show ?thesis using ok by (simp add: waiters_ok_def)
qed

theorem waiters_never_block_witness:
  "\<exists>n' r. Propose_locked exE gob_codec ex_leader EntryPut ''x'' [7] ''r1'' = Some (n', r) \<and>
     (\<forall>ch. length (chan_buffer (becomeFollower exE n' 9 [] []) ch) \<le> 1)"
proof -
  have ok: "waiters_ok ex_leader" by (simp add: waiters_ok_def chan_buffer_def ex_leader_def ex_node_def)
  have "plog_bounds (nLog ex_leader)" using plog_invD(1)[OF ex_leader_inv] .
  then obtain pl r where "AppendEntries exE gob_codec (nLog ex_leader) [\<lparr>eIndex = lastIndex (nLog ex_leader) + 1,
      eTerm = currentTerm (nLog ex_leader), eType = EntryPut, eKey = ''x'', eValue = [7], eClientRequestID = ''r1''\<rparr>]
      (FsyncOnAppend (nOpts ex_leader)) = Some (pl, r)"
    using store.AppendEntries_returns[OF ex_leader_inv] by blast
  then obtain n' q where p: "Propose_locked exE gob_codec ex_leader EntryPut ''x'' [7] ''r1'' = Some (n', q)"
    by (cases r) (auto simp: Propose_locked_def Let_def make_chan_def ex_leader_def)
  have "node_reach exE gob_codec ex_leader (becomeFollower exE n' 9 [] [])"
    using p by (blast intro: node_reach.intros node_step.intros node_op.intros)
  from waiters_never_block[OF this ok] show ?thesis using p by blast
qed

section \<open>Reads\<close>


text \<open>A transport whose peers all answer in term 3.\<close>

definition ex_transport :: "memdb transport" where
  "ex_transport = \<lparr>tRequestVote = (\<lambda>p req n. (n, Inl ErrDeadlineExceeded)),
     tAppendEntries = (\<lambda>p req n. (n, Inr (ae_response 3 True))),
     tInstallSnapshot = (\<lambda>p req n. (n, Inl ErrDeadlineExceeded))\<rparr>"


text \<open>C37.
  A heartbeat of a read commits what was never checked. The heartbeat that \<^verbatim>\<open>confirmLeadership\<close> sends
  checks the log only up to the peer's next index, but carries the leader's commit index, and the
  follower takes the smaller of that and its own last index. A follower with a stale tail accepts it
  and commits its own entry at an index where the leader has committed another one.
\<close>

theorem read_heartbeat_commits_stale_entry:
  assumes "raft_storage_reads E content C" and "stored_inv content C f"
    and "req = confirm_request E C l peer t" and "currentTerm (nLog f) \<le> t"
    and "prev_matches (stored_log content C f) req"
    and "alog_entry (stored_log content C l) i = Some e" and "alog_entry (stored_log content C f) i = Some stale"
    and "e \<noteq> stale" and "i \<le> nCommitIndex l"
  shows "\<exists>f' resp. HandleAppendEntries E C f req = Some (f', resp) \<and> aerSuccess resp \<and>
    i \<le> nCommitIndex f' \<and> alog_entry (stored_log content C f') i = Some stale"
proof -
  have req: "aeTerm req = t" "aeEntries req = []" "aeLeaderCommit req = nCommitIndex l"
    by (simp_all add: assms(3) confirm_request_def Let_def)
  obtain f' where f': "HandleAppendEntries E C f req = Some (f', ae_response t True)"
    "logBase (stored_log content C f') = logBase (stored_log content C f)"
    "logEntries (stored_log content C f') = logEntries (stored_log content C f)"
    "nCommitIndex f' = max (nCommitIndex f) (min (nCommitIndex l) (lastIndex (nLog f)))"
    using raft_storage_reads.HandleAppendEntries_heartbeat[OF assms(1,2) _ assms(5) req(2)] assms(4) req by auto
  have "i \<le> lastIndex (nLog f)"
    using alog_entry_SomeD[OF assms(7)] plog_invD(1)[OF assms(2)] by simp
  then have "i \<le> nCommitIndex f'" using assms(9) by (simp add: f'(4) le_max_iff_disj)
  then show ?thesis
    using f'(1) assms(7) alog_entry_cong[OF f'(2,3)] by (auto simp: ae_response_def)
qed

theorem read_heartbeat_commits_stale_entry_witness:
  "\<exists>f' resp. HandleAppendEntries exE gob_codec ex_follower (confirm_request exE gob_codec ex_leader ''b'' 3) = Some (f', resp) \<and>
     2 \<le> nCommitIndex f' \<and> alog_entry (stored_log mem_content gob_codec f') 2 = Some (ex_entry 2 1) \<and>
     2 \<le> nCommitIndex ex_leader \<and> alog_entry (stored_log mem_content gob_codec ex_leader) 2 = Some (ex_entry 2 3)"
proof -
  have l: "lookup0 (nNextIndex ex_leader) ''b'' = 2" "nCommitIndex ex_leader = 2" by (simp_all add: ex_leader_def lookup0_def)
  have m: "prev_matches (stored_log mem_content gob_codec ex_follower) (confirm_request exE gob_codec ex_leader ''b'' 3)"
    using ex_terms(3,4) store.TermAt_abs[OF ex_leader_inv]
    by (simp add: prev_matches_def confirm_request_def l word_gt_0)
  have ne: "ex_entry 2 3 \<noteq> ex_entry 2 1" by (simp add: ex_entry_def)
  from read_heartbeat_commits_stale_entry[OF store.raft_storage_reads_axioms ex_follower_inv refl _ m ex_terms(1,2) ne]
  show ?thesis using ex_fields(4) ex_terms(1) l(2) by auto
qed

section \<open>A step-down that does not fail the waiters\<close>

lemma notify_sends:
  assumes "map_of (nWriteWaiters n) i = Some ch"
  shows "chan_buffer (notifyWritersLocked n i) ch = chan_buffer n ch @ [None]"
  using assms by (simp add: notifyWritersLocked_def chan_send_def chan_buffer_def update_conv')

lemma HandleAppendEntries_keeps_waiters:
  assumes h: "HandleAppendEntries E C n req = Some (n', resp)" and "nRole n \<noteq> Leader"
  shows "nWriteWaiters n' = nWriteWaiters n \<and> nBuffers n' = nBuffers n"
proof (cases "HandleAppendEntries_term E n req")
  case (Inl m)
  then show ?thesis
    using h by (auto simp: HandleAppendEntries_def HandleAppendEntries_term_def Let_def split: if_splits prod.splits)
next
  case (Inr p)
  obtain n1 t where p: "p = (n1, t)" by force
  have "nWriteWaiters n1 = nWriteWaiters n \<and> nBuffers n1 = nBuffers n"
    using Inr p assms(2)
    by (auto simp: HandleAppendEntries_term_def resetElectionTimer_def Let_def split: if_splits prod.splits)
  moreover have "nWriteWaiters n' = nWriteWaiters n1 \<and> nBuffers n' = nBuffers n1"
    using h Inr p
    by (auto simp: HandleAppendEntries_def advance_commit_def signalCommitAdvanced_def Let_def
        split: option.splits bind_splits prod.splits if_splits)
  ultimately show ?thesis by simp
qed

lemma HandleInstallSnapshot_follower:
  "HandleInstallSnapshot E C n req = Some (n', resp) \<Longrightarrow> currentTerm (nLog n) \<le> isTerm req \<Longrightarrow> nRole n' = Follower"
  by (auto simp: HandleInstallSnapshot_def Let_def resetElectionTimer_def split: if_splits dest!: install_snapshot_frame)

lemma apply_step_notifies:
  assumes "Log_Get E C (nLog n) i = Inr e" and "apply_entry E (nSM n) e = (sm, None)"
    and "apply_step E C n i = Some (n', go)" and "map_of (nWriteWaiters n) i = Some ch"
  shows "chan_buffer n' ch = chan_buffer n ch @ [None]"
proof -
  let ?m = "satisfyPendingReadsLocked (notifyWritersLocked (n\<lparr>nSM := sm, nLastApplied := i\<rparr>) i)"
  have "nBuffers ?m = nBuffers (notifyWritersLocked (n\<lparr>nSM := sm, nLastApplied := i\<rparr>) i)"
    by (simp add: satisfyPendingReadsLocked_def)
  then have m: "chan_buffer ?m ch = chan_buffer n ch @ [None]"
    using notify_sends[of "n\<lparr>nSM := sm, nLastApplied := i\<rparr>" i ch] assms(4) by (simp add: chan_buffer_def)
  have "n' = ?m \<or> maybeSnapshot E C ?m i = Some n'"
    using assms(1-3) by (auto simp: apply_step_def Let_def split: if_splits)
  then show ?thesis using m by (auto simp: chan_buffer_def dest!: maybeSnapshot_frame)
qed

text \<open>C36.
  A write that was lost is reported as done. Every step-down fails the proposals that wait, except
  the one in \<^verbatim>\<open>HandleInstallSnapshot\<close>: a leader that learns of the new term by an \<^verbatim>\<open>InstallSnapshot\<close>
  becomes a follower and keeps its waiters. When the new leader then replaces the entry under a
  waiter's index and the node applies the new entry, whatever it is, the old proposal is told that it
  succeeded.
\<close>

theorem snapshot_step_down_false_success:
  assumes "map_of (nWriteWaiters n) i = Some ch" and "chan_buffer n ch = []"
    and "HandleInstallSnapshot E C n sreq = Some (n1, sresp)" and "currentTerm (nLog n) \<le> isTerm sreq"
    and "HandleAppendEntries E C n1 areq = Some (n2, aresp)"
    and "Log_Get E C (nLog n2) i = Inr e" and "apply_entry E (nSM n2) e = (sm, None)"
    and "apply_step E C n2 i = Some (n3, go)"
  shows "nRole n1 = Follower \<and> snd (Propose_select n3 i ch FromWaitCh) = None \<and> chan_buffer n3 ch \<noteq> []"
proof -
  have "nRole n1 = Follower" by (rule HandleInstallSnapshot_follower[OF assms(3,4)])
  moreover have w: "nWriteWaiters n2 = nWriteWaiters n" "nBuffers n2 = nBuffers n"
    using HandleInstallSnapshot_frame[OF assms(3)] HandleAppendEntries_keeps_waiters[OF assms(5)] calculation by simp_all
  have "chan_buffer n3 ch = chan_buffer n2 ch @ [None]"
    by (rule apply_step_notifies[OF assms(6-8)]) (simp add: w assms(1))
  then have "chan_buffer n3 ch = [None]" using assms(2) w by (simp add: chan_buffer_def)
  ultimately show ?thesis by (simp add: Propose_select_def)
qed

text \<open>A leader with a proposal waiting at index 2, and a snapshot request of a newer leader.\<close>

definition ex_old_leader :: "memdb node" where
  "ex_old_leader = (ex_node ''b'' [''a'', ''c''] ex_log1)\<lparr>nRole := Leader, nWriteWaiters := [(2, 0)], nNextChan := 1\<rparr>"

definition ex_snapshot_request :: install_snapshot_request where
  "ex_snapshot_request = \<lparr>isTerm = 3, isLeaderID = ''a'', isLastIncludedIndex = 1, isLastIncludedTerm = 1, isData = []\<rparr>"

lemma ex_no_snapshot:
  "snd (LoadLatest gob_codec \<lparr>ssDir = ''snap'', ssFS = \<lparr>fsFiles = [], fsClock = 0, fsFaults = (\<lambda>t. None)\<rparr>\<rparr>) = Inr None"
  by code_simp

lemma ex_bad_snapshot: "\<exists>err. UnmarshalSnapshot gob_codec [] = Inl err"
proof -
  have "(case UnmarshalSnapshot gob_codec [] of Inl err \<Rightarrow> True | Inr s \<Rightarrow> False)" by code_simp
  then show ?thesis by (auto split: sum.splits)
qed

lemma ex_install:
  "\<exists>n1 resp. HandleInstallSnapshot exE gob_codec ex_old_leader ex_snapshot_request = Some (n1, resp) \<and>
     nLog n1 = nLog (set_term_and_vote exE 3 [] ex_old_leader) \<and> nSM n1 = nSM ex_old_leader"
proof -
  obtain st where st: "LoadLatest gob_codec (nSnapStore ex_old_leader) = (st, Inr None)"
    using ex_no_snapshot by (auto simp: ex_old_leader_def ex_node_def prod_eq_iff)
  have t: "currentTerm (nLog ex_old_leader) = 0"
    using ex_fields(4) by (simp add: ex_old_leader_def ex_follower_def)
  show ?thesis
    using ex_bad_snapshot st t
    by (auto simp: HandleInstallSnapshot_def install_snapshot_def ex_snapshot_request_def resetElectionTimer_def
        set_term_and_vote_def Let_def)
qed

text \<open>The node after the snapshot request and the new leader's entries.\<close>

lemma ex_replaced:
  "\<exists>n1 n2 sresp. HandleInstallSnapshot exE gob_codec ex_old_leader ex_snapshot_request = Some (n1, sresp) \<and>
     HandleAppendEntries exE gob_codec n1 ex_request = Some (n2, ae_response 3 True) \<and>
     stored_inv mem_content gob_codec n2 \<and> nSM n2 = NewStateMachine mem_empty \<and>
     logBase (stored_log mem_content gob_codec n2) = 0 \<and>
     alog_entry (stored_log mem_content gob_codec n2) 2 = Some (ex_entry 2 3)"
proof -
  obtain n1 sresp where h1: "HandleInstallSnapshot exE gob_codec ex_old_leader ex_snapshot_request = Some (n1, sresp)"
    "nLog n1 = nLog (set_term_and_vote exE 3 [] ex_old_leader)" "nSM n1 = nSM ex_old_leader" using ex_install by blast
  have lg: "nLog ex_old_leader = nLog ex_follower" by (simp add: ex_old_leader_def ex_follower_def)
  have inv0: "stored_inv mem_content gob_codec ex_old_leader" using ex_follower_inv by (simp add: lg)
  have inv1: "stored_inv mem_content gob_codec n1"
    using store.set_term_and_vote_inv[OF inv0, of 3 "[]"] by (simp add: h1(2))
  have same: "logBase (stored_log mem_content gob_codec n1) = 0" "logBaseTerm (stored_log mem_content gob_codec n1) = 0"
    "logEntries (stored_log mem_content gob_codec n1) = [ex_entry 1 1, ex_entry 2 1]"
    using store.set_term_and_vote_entries[OF inv0, of 3 "[]"] ex_follower_log lg by (simp_all add: h1(2))
  obtain pl where pl: "SetTermAndVote exE ex_log1 3 [] = (pl, None)" "mem_reliable (plEngine pl)"
    using reliable_SetTermAndVote[OF ex_log1_reliable] by blast
  then have n1: "nLog n1 = pl" "currentTerm pl = 3"
    using SetTermAndVote_fields(6)[OF pl(1)] by (simp_all add: h1(2) set_term_and_vote_def ex_old_leader_def)
  have m: "prev_matches (stored_log mem_content gob_codec n1) ex_request"
    using same by (simp add: prev_matches_def ex_request_def alog_term_def alog_entry_def alog_last_def ex_entry_def)
  obtain n2 where h2: "HandleAppendEntries exE gob_codec n1 ex_request = Some (n2, ae_response 3 True)"
    using ex_accepts[OF inv1 _ _ m] pl(2) n1 ex_entry_small by (auto simp: ex_request_def)
  have wf: "ae_wf (stored_log mem_content gob_codec n1) ex_request"
    by (simp add: ae_wf_def ex_request_def ex_entry_def)
  note A = store.HandleAppendEntries_accepted[OF inv1 wf h2]
  have e2: "alog_entry (stored_log mem_content gob_codec n2) 2 = Some (ex_entry 2 3)"
    using A(4,6) same by (simp add: ae_response_def alog_entry_def alog_last_def alog_append_def ex_request_def ex_entry_def)
  show ?thesis using h1 h2 A e2 same(1) by (auto simp: ae_response_def ex_old_leader_def)
qed

theorem snapshot_step_down_false_success_witness:
  "\<exists>n1 n2 n3 sresp aresp go. HandleInstallSnapshot exE gob_codec ex_old_leader ex_snapshot_request = Some (n1, sresp) \<and>
     HandleAppendEntries exE gob_codec n1 ex_request = Some (n2, aresp) \<and>
     apply_step exE gob_codec n2 2 = Some (n3, go) \<and>
     alog_entry (stored_log mem_content gob_codec ex_old_leader) 2 = Some (ex_entry 2 1) \<and>
     alog_entry (stored_log mem_content gob_codec n2) 2 = Some (ex_entry 2 3) \<and>
     snd (Propose_select n3 2 0 FromWaitCh) = None"
proof -
  obtain n1 n2 sresp where h1: "HandleInstallSnapshot exE gob_codec ex_old_leader ex_snapshot_request = Some (n1, sresp)"
    and h2: "HandleAppendEntries exE gob_codec n1 ex_request = Some (n2, ae_response 3 True)"
    and inv2: "stored_inv mem_content gob_codec n2" and sm: "nSM n2 = NewStateMachine mem_empty"
    and base: "logBase (stored_log mem_content gob_codec n2) = 0"
    and e2: "alog_entry (stored_log mem_content gob_codec n2) 2 = Some (ex_entry 2 3)"
    using ex_replaced by blast
  have g: "Log_Get exE gob_codec (nLog n2) 2 = Inr (ex_entry 2 3)" using inv2 e2 by (simp add: store.Log_Get_iff)
  obtain s where a: "apply_entry exE (nSM n2) (ex_entry 2 3) = (s, None)"
    using mem_reliable_set[OF mem_reliable_empty, of "dataKey ''k''" "[3]" "\<lparr>Sync = False\<rparr>"]
    by (auto simp: sm apply_entry_def ApplyPut_def NewStateMachine_def ex_entry_def)
  have "2 \<le> lastIndex (nLog n2)" using alog_entry_SomeD[OF e2] plog_invD(1)[OF inv2] by simp
  moreover have "logBase (stored_log mem_content gob_codec n2) < 2" unfolding base by simp
  ultimately obtain n3 go where st: "apply_step exE gob_codec n2 2 = Some (n3, go)"
    using store.apply_step_spec[OF inv2, of 2] by blast
  have w: "map_of (nWriteWaiters ex_old_leader) 2 = Some 0" "chan_buffer ex_old_leader 0 = []"
    "currentTerm (nLog ex_old_leader) \<le> isTerm ex_snapshot_request"
    using ex_fields(4) by (simp_all add: ex_old_leader_def chan_buffer_def ex_node_def ex_snapshot_request_def ex_follower_def)
  have lg: "nLog ex_old_leader = nLog ex_follower" by (simp add: ex_old_leader_def ex_follower_def)
  from snapshot_step_down_false_success[OF w(1,2) h1 w(3) h2 g a st]
  show ?thesis using h1 h2 st e2 ex_terms(2) lg by auto
qed

end
