(* ===== verification/Go_Strings.thy ===== *)
theory Go_Strings
  imports KV_Prelude
begin

text \<open>
  The functions of Go's packages \<^verbatim>\<open>strings\<close> and \<^verbatim>\<open>strconv\<close> that the program calls, on byte strings.
\<close>

section \<open>Package strings\<close>

text \<open>
  \<^verbatim>\<open>strings.Split(s, sep)\<close> and \<^verbatim>\<open>strings.SplitN(s, sep, 2)\<close> for a separator of one byte.
\<close>

fun Split :: "string \<Rightarrow> char \<Rightarrow> string list" where
  "Split [] sep = [[]]"
| "Split (c # s) sep =
     (if c = sep then [] # Split s sep
      else case Split s sep of [] \<Rightarrow> [[c]] | w # ws \<Rightarrow> (c # w) # ws)"

fun SplitN2 :: "string \<Rightarrow> char \<Rightarrow> string list" where
  "SplitN2 [] sep = [[]]"
| "SplitN2 (c # s) sep =
     (if c = sep then [[], s]
      else case SplitN2 s sep of [] \<Rightarrow> [[c]] | w # ws \<Rightarrow> (c # w) # ws)"

text \<open>
  The UTF-8 encodings of the characters for which \<^verbatim>\<open>unicode.IsSpace\<close> holds. None is a proper prefix or
  suffix of another, so cutting them off the ends of the bytes is what \<^verbatim>\<open>strings.TrimSpace\<close> does.
\<close>

definition unicode_spaces :: "string list" where
  "unicode_spaces =
     map (\<lambda>n. [char_of (n :: nat)]) [0x09, 0x0A, 0x0B, 0x0C, 0x0D, 0x20] @
     map (\<lambda>n. [char_of (0xC2 :: nat), char_of (n :: nat)]) [0x85, 0xA0] @
     [map char_of [0xE1, 0x9A, 0x80 :: nat]] @
     map (\<lambda>n. map char_of [0xE2, 0x80 :: nat, n]) ([0x80..<0x8B] @ [0xA8, 0xA9, 0xAF]) @
     [map char_of [0xE2, 0x81, 0x9F :: nat], map char_of [0xE3, 0x80, 0x80 :: nat]]"

text \<open>The rest of \<open>s\<close> after the first of the words \<open>ws\<close> that \<open>s\<close> begins with.\<close>

fun strip_one :: "string list \<Rightarrow> string \<Rightarrow> string option" where
  "strip_one [] s = None"
| "strip_one (w # ws) s = (if w \<noteq> [] \<and> prefix w s then Some (drop (length w) s) else strip_one ws s)"

lemma strip_one_shorter: "strip_one ws s = Some s' \<Longrightarrow> length s' < length s"
  by (induction ws) (auto simp: prefix_def split: if_splits)

function trim_front :: "string list \<Rightarrow> string \<Rightarrow> string" where
  "trim_front ws s = (case strip_one ws s of None \<Rightarrow> s | Some s' \<Rightarrow> trim_front ws s')"
  by pat_completeness auto
termination
  by (relation "measure (\<lambda>(ws, s). length s)") (auto dest: strip_one_shorter)

declare trim_front.simps [simp del]

definition TrimSpace :: "string \<Rightarrow> string" where
  "TrimSpace s = rev (trim_front (map rev unicode_spaces) (rev (trim_front unicode_spaces s)))"

section \<open>Package strconv\<close>

datatype num_error = ErrSyntax | ErrRange

text \<open>The loop of \<^verbatim>\<open>strconv.ParseUint\<close> in base 10, from the value \<open>n\<close> read so far.\<close>

fun parse_digits :: "string \<Rightarrow> nat \<Rightarrow> num_error + nat" where
  "parse_digits [] n = Inr n"
| "parse_digits (c # s) n =
     (if \<not> (48 \<le> (of_char c :: nat) \<and> (of_char c :: nat) \<le> 57) then Inl ErrSyntax
      else let n' = n * 10 + (of_char c - 48)
           in if n' \<ge> 2 ^ 64 then Inl ErrRange else parse_digits s n')"

definition ParseUint :: "string \<Rightarrow> num_error + u64" where
  "ParseUint s =
     (if s = [] then Inl ErrSyntax
      else case parse_digits s 0 of Inl err \<Rightarrow> Inl err | Inr n \<Rightarrow> Inr (of_nat n))"

text \<open>\<^verbatim>\<open>strconv.Atoi\<close>: an optional sign, and a value that fits into an \<^verbatim>\<open>int\<close> of 64 bits.\<close>

definition Atoi :: "string \<Rightarrow> num_error + int" where
  "Atoi s =
     (let neg = (s \<noteq> [] \<and> hd s = CHR ''-''); plus = (s \<noteq> [] \<and> hd s = CHR ''+'');
          ds = (if neg \<or> plus then tl s else s)
      in if ds = [] then Inl ErrSyntax
         else case parse_digits ds 0 of
                Inl err \<Rightarrow> Inl err
              | Inr n \<Rightarrow>
                  if neg then (if n > 2 ^ 63 then Inl ErrRange else Inr (- int n))
                  else (if n \<ge> 2 ^ 63 then Inl ErrRange else Inr (int n)))"

definition ParseBool :: "string \<Rightarrow> num_error + bool" where
  "ParseBool s =
     (if s \<in> set [''1'', ''t'', ''T'', ''true'', ''TRUE'', ''True''] then Inr True
      else if s \<in> set [''0'', ''f'', ''F'', ''false'', ''FALSE'', ''False''] then Inr False
      else Inl ErrSyntax)"

section \<open>Quoting\<close>

text \<open>
  \<^verbatim>\<open>strconv.Quote\<close>, which \<^verbatim>\<open>%q\<close> uses in error texts: control bytes, quotes and backslashes are escaped.
  Bytes from 0x80 on are kept, as they are in printable UTF-8 text.
\<close>

definition hex_digit :: "nat \<Rightarrow> char" where
  "hex_digit n = (if n < 10 then char_of (48 + n) else char_of (87 + n))"

definition quote_char :: "char \<Rightarrow> string" where
  "quote_char c =
     (let n = (of_char c :: nat); bs = char_of (92 :: nat)
      in if n = 34 \<or> n = 92 then [bs, c]
         else case map_of (zip [7..<14] ''abtnvfr'') n of
                Some x \<Rightarrow> [bs, x]
              | None \<Rightarrow>
                  if n < 32 \<or> n = 127 then [bs, CHR ''x'', hex_digit (n div 16), hex_digit (n mod 16)]
                  else [c])"

definition Quote :: "string \<Rightarrow> string" where
  "Quote s = char_of (34 :: nat) # concat (map quote_char s) @ [char_of (34 :: nat)]"

end
