(* ===== verification/Server.thy ===== *)
theory Server
  imports Client_Ops Go_Strings
begin

text \<open>
  \<^verbatim>\<open>internal/server\<close>: the client's service (\<^verbatim>\<open>client_server.go\<close>), the service between the nodes
  (\<^verbatim>\<open>raft_server.go\<close>) and the transport that calls it (\<^verbatim>\<open>transport.go\<close>). The messages are those of
  \<^verbatim>\<open>proto/raft.proto\<close> and \<^verbatim>\<open>proto/kv.proto\<close>. gRPC is a parameter, the record \<open>grpc\<close> of the calls the
  code makes; as in the transport of the node, an RPC gets the calling node and returns the node as
  other goroutines left it.
\<close>

section \<open>Messages between the nodes\<close>

record pb_log_entry =
  pbIndex :: u64
  pbTerm :: u64
  pbType :: "32 word"
  pbKey :: string
  pbValue :: bytes
  pbClientRequestId :: string

record pb_request_vote_request =
  pbrvTerm :: u64
  pbrvCandidateId :: string
  pbrvLastLogIndex :: u64
  pbrvLastLogTerm :: u64

record pb_request_vote_response =
  pbrvrTerm :: u64
  pbrvrVoteGranted :: bool

record pb_append_entries_request =
  pbaeTerm :: u64
  pbaeLeaderId :: string
  pbaePrevLogIndex :: u64
  pbaePrevLogTerm :: u64
  pbaeEntries :: "pb_log_entry list"
  pbaeLeaderCommit :: u64
  pbaeLeaderClientAddr :: string

record pb_append_entries_response =
  pbaerTerm :: u64
  pbaerSuccess :: bool
  pbaerConflictTerm :: u64
  pbaerConflictIndex :: u64

record pb_install_snapshot_request =
  pbisTerm :: u64
  pbisLeaderId :: string
  pbisLastIncludedIndex :: u64
  pbisLastIncludedTerm :: u64
  pbisData :: bytes

record pb_install_snapshot_response =
  pbisrTerm :: u64

section \<open>transport.go\<close>

definition toPBEntries :: "entry list \<Rightarrow> pb_log_entry list" where
  "toPBEntries entries = map (\<lambda>e.
     \<lparr>pbIndex = eIndex e, pbTerm = eTerm e, pbType = eType e, pbKey = eKey e, pbValue = eValue e,
      pbClientRequestId = eClientRequestID e\<rparr>) entries"

definition fromPBEntries :: "pb_log_entry list \<Rightarrow> entry list" where
  "fromPBEntries entries = map (\<lambda>e.
     \<lparr>eIndex = pbIndex e, eTerm = pbTerm e, eType = pbType e, eKey = pbKey e, eValue = pbValue e,
      eClientRequestID = pbClientRequestId e\<rparr>) entries"

text \<open>The calls of gRPC; \<open>'c\<close> is the type of connections.\<close>

record ('c, 'd) grpc =
  NewClient :: "string \<Rightarrow> goerror + 'c"
  ConnClose :: "'c \<Rightarrow> goerror option"
  callRequestVote ::
    "'c \<Rightarrow> pb_request_vote_request \<Rightarrow> 'd node \<Rightarrow> 'd node \<times> (goerror + pb_request_vote_response)"
  callAppendEntries ::
    "'c \<Rightarrow> pb_append_entries_request \<Rightarrow> 'd node \<Rightarrow> 'd node \<times> (goerror + pb_append_entries_response)"
  callInstallSnapshot ::
    "'c \<Rightarrow> pb_install_snapshot_request \<Rightarrow> 'd node \<Rightarrow> 'd node \<times> (goerror + pb_install_snapshot_response)"

record 'c grpc_transport =
  gtConns :: "(string, 'c) gomap"
  gtAddrs :: "(string, string) gomap"

definition NewGRPCTransport :: "(string, string) gomap \<Rightarrow> 'c grpc_transport" where
  "NewGRPCTransport peerRaftAddrs = \<lparr>gtConns = [], gtAddrs = peerRaftAddrs\<rparr>"

definition transport_client ::
    "('c, 'd) grpc \<Rightarrow> 'c grpc_transport \<Rightarrow> string \<Rightarrow> 'c grpc_transport \<times> (goerror + 'c)" where
  "transport_client G t peerID =
     (case map_of (gtConns t) peerID of
        Some conn \<Rightarrow> (t, Inr conn)
      | None \<Rightarrow>
          (case map_of (gtAddrs t) peerID of
             None \<Rightarrow> (t, Inl (ErrOther (''transport: unknown peer '' @ Quote peerID)))
           | Some addr \<Rightarrow>
               (case NewClient G addr of
                  Inl err \<Rightarrow> (t, Inl err)
                | Inr conn \<Rightarrow> (t\<lparr>gtConns := AList.update peerID conn (gtConns t)\<rparr>, Inr conn))))"

text \<open>\<^verbatim>\<open>Close\<close> closes every connection and reports the first error.\<close>

definition transport_Close :: "('c, 'd) grpc \<Rightarrow> 'c grpc_transport \<Rightarrow> 'c grpc_transport \<times> goerror option" where
  "transport_Close G t =
     (t\<lparr>gtConns := []\<rparr>,
      fold (\<lambda>(p, conn) firstErr. case ConnClose G conn of
          None \<Rightarrow> firstErr
        | Some err \<Rightarrow> if firstErr = None then Some err else firstErr) (gtConns t) None)"

definition pb_vote_request :: "request_vote_request \<Rightarrow> pb_request_vote_request" where
  "pb_vote_request req =
     \<lparr>pbrvTerm = rvTerm req, pbrvCandidateId = rvCandidateID req,
      pbrvLastLogIndex = rvLastLogIndex req, pbrvLastLogTerm = rvLastLogTerm req\<rparr>"

definition transport_RequestVote ::
    "('c, 'd) grpc \<Rightarrow> 'c grpc_transport \<Rightarrow> string \<Rightarrow> request_vote_request \<Rightarrow> 'd node \<Rightarrow>
     'c grpc_transport \<times> 'd node \<times> (goerror + request_vote_response)" where
  "transport_RequestVote G t peerID req n =
     (case transport_client G t peerID of
        (t, Inl err) \<Rightarrow> (t, n, Inl err)
      | (t, Inr c) \<Rightarrow>
          (case callRequestVote G c (pb_vote_request req) n of
             (n, Inl err) \<Rightarrow> (t, n, Inl err)
           | (n, Inr resp) \<Rightarrow>
               (t, n, Inr \<lparr>rvrTerm = pbrvrTerm resp, rvrVoteGranted = pbrvrVoteGranted resp\<rparr>)))"

definition pb_append_request :: "append_entries_request \<Rightarrow> pb_append_entries_request" where
  "pb_append_request req =
     \<lparr>pbaeTerm = aeTerm req, pbaeLeaderId = aeLeaderID req, pbaePrevLogIndex = aePrevLogIndex req,
      pbaePrevLogTerm = aePrevLogTerm req, pbaeEntries = toPBEntries (aeEntries req),
      pbaeLeaderCommit = aeLeaderCommit req, pbaeLeaderClientAddr = aeLeaderClientAddr req\<rparr>"

definition transport_AppendEntries ::
    "('c, 'd) grpc \<Rightarrow> 'c grpc_transport \<Rightarrow> string \<Rightarrow> append_entries_request \<Rightarrow> 'd node \<Rightarrow>
     'c grpc_transport \<times> 'd node \<times> (goerror + append_entries_response)" where
  "transport_AppendEntries G t peerID req n =
     (case transport_client G t peerID of
        (t, Inl err) \<Rightarrow> (t, n, Inl err)
      | (t, Inr c) \<Rightarrow>
          (case callAppendEntries G c (pb_append_request req) n of
             (n, Inl err) \<Rightarrow> (t, n, Inl err)
           | (n, Inr resp) \<Rightarrow>
               (t, n, Inr \<lparr>aerTerm = pbaerTerm resp, aerSuccess = pbaerSuccess resp,
                          aerConflictTerm = pbaerConflictTerm resp,
                          aerConflictIndex = pbaerConflictIndex resp\<rparr>)))"

definition pb_snapshot_request :: "install_snapshot_request \<Rightarrow> pb_install_snapshot_request" where
  "pb_snapshot_request req =
     \<lparr>pbisTerm = isTerm req, pbisLeaderId = isLeaderID req,
      pbisLastIncludedIndex = isLastIncludedIndex req,
      pbisLastIncludedTerm = isLastIncludedTerm req, pbisData = isData req\<rparr>"

definition transport_InstallSnapshot ::
    "('c, 'd) grpc \<Rightarrow> 'c grpc_transport \<Rightarrow> string \<Rightarrow> install_snapshot_request \<Rightarrow> 'd node \<Rightarrow>
     'c grpc_transport \<times> 'd node \<times> (goerror + install_snapshot_response)" where
  "transport_InstallSnapshot G t peerID req n =
     (case transport_client G t peerID of
        (t, Inl err) \<Rightarrow> (t, n, Inl err)
      | (t, Inr c) \<Rightarrow>
          (case callInstallSnapshot G c (pb_snapshot_request req) n of
             (n, Inl err) \<Rightarrow> (t, n, Inl err)
           | (n, Inr resp) \<Rightarrow> (t, n, Inr \<lparr>isrTerm = pbisrTerm resp\<rparr>)))"

text \<open>The transport as the node sees it, from the state \<open>t\<close> of its cache of connections.\<close>

definition grpc_node_transport :: "('c, 'd) grpc \<Rightarrow> 'c grpc_transport \<Rightarrow> 'd transport" where
  "grpc_node_transport G t =
     \<lparr>tRequestVote = (\<lambda>p req n. snd (transport_RequestVote G t p req n)),
      tAppendEntries = (\<lambda>p req n. snd (transport_AppendEntries G t p req n)),
      tInstallSnapshot = (\<lambda>p req n. snd (transport_InstallSnapshot G t p req n))\<rparr>"

section \<open>raft\_server.go\<close>

definition RaftServer_RequestVote ::
    "'d engine \<Rightarrow> codec \<Rightarrow> 'd node \<Rightarrow> pb_request_vote_request \<Rightarrow> 'd node \<times> pb_request_vote_response" where
  "RaftServer_RequestVote E C n req =
     (let (n, resp) = HandleRequestVote E C n
            \<lparr>rvTerm = pbrvTerm req, rvCandidateID = pbrvCandidateId req,
             rvLastLogIndex = pbrvLastLogIndex req, rvLastLogTerm = pbrvLastLogTerm req\<rparr>
      in (n, \<lparr>pbrvrTerm = rvrTerm resp, pbrvrVoteGranted = rvrVoteGranted resp\<rparr>))"

definition RaftServer_AppendEntries ::
    "'d engine \<Rightarrow> codec \<Rightarrow> 'd node \<Rightarrow> pb_append_entries_request \<Rightarrow>
     ('d node \<times> pb_append_entries_response) option" where
  "RaftServer_AppendEntries E C n req =
     map_option (\<lambda>(n, resp).
         (n, \<lparr>pbaerTerm = aerTerm resp, pbaerSuccess = aerSuccess resp,
              pbaerConflictTerm = aerConflictTerm resp, pbaerConflictIndex = aerConflictIndex resp\<rparr>))
       (HandleAppendEntries E C n
          \<lparr>aeTerm = pbaeTerm req, aeLeaderID = pbaeLeaderId req, aePrevLogIndex = pbaePrevLogIndex req,
           aePrevLogTerm = pbaePrevLogTerm req, aeEntries = fromPBEntries (pbaeEntries req),
           aeLeaderCommit = pbaeLeaderCommit req, aeLeaderClientAddr = pbaeLeaderClientAddr req\<rparr>)"

definition RaftServer_InstallSnapshot ::
    "'d engine \<Rightarrow> codec \<Rightarrow> 'd node \<Rightarrow> pb_install_snapshot_request \<Rightarrow>
     ('d node \<times> pb_install_snapshot_response) option" where
  "RaftServer_InstallSnapshot E C n req =
     map_option (\<lambda>(n, resp). (n, \<lparr>pbisrTerm = isrTerm resp\<rparr>))
       (HandleInstallSnapshot E C n
          \<lparr>isTerm = pbisTerm req, isLeaderID = pbisLeaderId req,
           isLastIncludedIndex = pbisLastIncludedIndex req,
           isLastIncludedTerm = pbisLastIncludedTerm req, isData = pbisData req\<rparr>)"

section \<open>client\_server.go\<close>

datatype status_code = OK | NOT_LEADER | TIMEOUT | NOT_FOUND | INTERNAL_ERROR

record put_request =
  prKey :: string
  prValue :: bytes
  prClientRequestId :: string

record delete_request =
  drKey :: string
  drClientRequestId :: string

record get_request =
  grKey :: string
  grLinearizable :: bool

text \<open>\<^verbatim>\<open>PutResponse\<close> and \<^verbatim>\<open>DeleteResponse\<close> have the same fields.\<close>

record write_response =
  wrStatus :: status_code
  wrLeaderHint :: string
  wrError :: string

record get_response =
  gsStatus :: status_code
  gsValue :: bytes
  gsLeaderHint :: string
  gsError :: string

text \<open>\<^verbatim>\<open>err.Error()\<close> and \<^verbatim>\<open>errors.Is\<close>.\<close>

fun Error :: "goerror \<Rightarrow> string" where
  "Error ErrNotFound = ''storage: key not found''"
| "Error ErrNotExist = ''file does not exist''"
| "Error ErrNotLeader = ''raft: not leader''"
| "Error ErrProposalDropped = ''raft: proposal dropped, retry''"
| "Error ErrReadIndexTimeout = ''raft: readindex confirmation timed out''"
| "Error ErrDeadlineExceeded = ''context deadline exceeded''"
| "Error ErrCanceled = ''context canceled''"
| "Error (ErrOther s) = s"
| "Error (ErrWrapped s e) = s @ '': '' @ Error e"

fun errors_Is :: "goerror \<Rightarrow> goerror \<Rightarrow> bool" where
  "errors_Is (ErrWrapped s e) target = (ErrWrapped s e = target \<or> errors_Is e target)"
| "errors_Is e target = (e = target)"

definition statusFor :: "goerror option \<Rightarrow> status_code" where
  "statusFor r =
     (case r of
        None \<Rightarrow> OK
      | Some err \<Rightarrow>
          if errors_Is err ErrNotLeader then NOT_LEADER
          else if errors_Is err ErrDeadlineExceeded then TIMEOUT
          else if errors_Is err ErrReadIndexTimeout then TIMEOUT
          else if errors_Is err ErrProposalDropped then NOT_LEADER
          else INTERNAL_ERROR)"

definition errString :: "goerror option \<Rightarrow> string" where
  "errString r = (case r of None \<Rightarrow> [] | Some err \<Rightarrow> Error err)"

definition Put ::
    "'d engine \<Rightarrow> codec \<Rightarrow> 'd transport \<Rightarrow> ('d node \<Rightarrow> 'd node \<times> select_case) \<Rightarrow> 'd node \<Rightarrow> put_request \<Rightarrow>
     ('d node \<times> write_response) option" where
  "Put E C T wait n req =
     map_option (\<lambda>(n, err).
         (n, \<lparr>wrStatus = statusFor err, wrLeaderHint = LeaderHint n, wrError = errString err\<rparr>))
       (Propose E C T wait n EntryPut (prKey req) (prValue req) (prClientRequestId req))"

definition Delete ::
    "'d engine \<Rightarrow> codec \<Rightarrow> 'd transport \<Rightarrow> ('d node \<Rightarrow> 'd node \<times> select_case) \<Rightarrow> 'd node \<Rightarrow> delete_request \<Rightarrow>
     ('d node \<times> write_response) option" where
  "Delete E C T wait n req =
     map_option (\<lambda>(n, err).
         (n, \<lparr>wrStatus = statusFor err, wrLeaderHint = LeaderHint n, wrError = errString err\<rparr>))
       (Propose E C T wait n EntryDelete (drKey req) [] (drClientRequestId req))"

text \<open>The read of the state machine that ends \<^verbatim>\<open>Get\<close>.\<close>

definition get_from_store :: "'d engine \<Rightarrow> 'd node \<Rightarrow> string \<Rightarrow> get_response" where
  "get_from_store E n key =
     (case SM_Get E (nSM n) key of
        Inl err \<Rightarrow> \<lparr>gsStatus = INTERNAL_ERROR, gsValue = [], gsLeaderHint = [], gsError = Error err\<rparr>
      | Inr None \<Rightarrow> \<lparr>gsStatus = NOT_FOUND, gsValue = [], gsLeaderHint = [], gsError = []\<rparr>
      | Inr (Some v) \<Rightarrow> \<lparr>gsStatus = OK, gsValue = v, gsLeaderHint = [], gsError = []\<rparr>)"

definition Get ::
    "'d engine \<Rightarrow> codec \<Rightarrow> 'd transport \<Rightarrow> (bool list \<Rightarrow> confirm_event list) \<Rightarrow>
     ('d node \<Rightarrow> 'd node \<times> wait_case) \<Rightarrow> 'd node \<Rightarrow> get_request \<Rightarrow> 'd node \<times> get_response" where
  "Get E C T sched wait n req =
     (if grLinearizable req
      then (case LinearizableRead E C T sched wait n of
              (n, Some err) \<Rightarrow>
                (n, \<lparr>gsStatus = statusFor (Some err), gsValue = [], gsLeaderHint = LeaderHint n,
                     gsError = errString (Some err)\<rparr>)
            | (n, None) \<Rightarrow> (n, get_from_store E n (grKey req)))
      else (n, get_from_store E n (grKey req)))"

end
