(* ===== verification/Server_Properties.thy ===== *)
theory Server_Properties
  imports Server Client_Properties
begin

text \<open>
  The services: the boundary between the nodes changes nothing of a request or an answer, the cache of
  connections cannot be seen, and what the statuses of the client's service say about the node.
\<close>

section \<open>The boundary between the nodes\<close>

lemma fromPB_toPB [simp]: "fromPBEntries (toPBEntries es) = es"
  by (induction es) (simp_all add: fromPBEntries_def toPBEntries_def)

lemma toPB_fromPB [simp]: "toPBEntries (fromPBEntries es) = es"
  by (induction es) (simp_all add: fromPBEntries_def toPBEntries_def)

lemma served_RequestVote:
  "RaftServer_RequestVote E C m (pb_vote_request req)
    = (case HandleRequestVote E C m req of (m', r) \<Rightarrow> (m', \<lparr>pbrvrTerm = rvrTerm r, pbrvrVoteGranted = rvrVoteGranted r\<rparr>))"
  by (cases req) (simp add: RaftServer_RequestVote_def pb_vote_request_def)

lemma served_AppendEntries:
  "RaftServer_AppendEntries E C m (pb_append_request req)
    = map_option (\<lambda>(m', r). (m', \<lparr>pbaerTerm = aerTerm r, pbaerSuccess = aerSuccess r,
        pbaerConflictTerm = aerConflictTerm r, pbaerConflictIndex = aerConflictIndex r\<rparr>)) (HandleAppendEntries E C m req)"
  by (cases req) (simp add: RaftServer_AppendEntries_def pb_append_request_def)

lemma served_InstallSnapshot:
  "RaftServer_InstallSnapshot E C m (pb_snapshot_request req)
    = map_option (\<lambda>(m', r). (m', \<lparr>pbisrTerm = isrTerm r\<rparr>)) (HandleInstallSnapshot E C m req)"
  by (cases req) (simp add: RaftServer_InstallSnapshot_def pb_snapshot_request_def)

text \<open>
  A connection that delivers to the server of the node \<open>m\<close>: a call runs the server's handler there and
  brings back its answer; a handler that does not return ends the call with the error \<open>gone\<close>.
\<close>

definition delivers ::
    "('c, 'd) grpc \<Rightarrow> 'c \<Rightarrow> 'd engine \<Rightarrow> codec \<Rightarrow> 'd node \<Rightarrow> goerror \<Rightarrow> 'd node \<Rightarrow> bool" where
  "delivers G c E C m gone n =
     ((\<forall>req. callRequestVote G c req n = (n, Inr (snd (RaftServer_RequestVote E C m req)))) \<and>
      (\<forall>req. callAppendEntries G c req n =
         (n, case RaftServer_AppendEntries E C m req of None \<Rightarrow> Inl gone | Some (m', r) \<Rightarrow> Inr r)) \<and>
      (\<forall>req. callInstallSnapshot G c req n =
         (n, case RaftServer_InstallSnapshot E C m req of None \<Rightarrow> Inl gone | Some (m', r) \<Rightarrow> Inr r)))"

text \<open>
  C18. The boundary between the nodes is transparent. Over a connection that delivers to a peer, each of
  the three calls of the transport leaves the peer in exactly the state its handler leaves it in on the
  request as the caller made it, entries included, and returns the handler's answer unchanged.
\<close>

theorem rpc_boundary_transparent:
  assumes "transport_client G t p = (t', Inr c)" and "delivers G c E C m gone n"
  shows "transport_RequestVote G t p vreq n = (t', n, Inr (snd (HandleRequestVote E C m vreq))) \<and>
    fst (RaftServer_RequestVote E C m (pb_vote_request vreq)) = fst (HandleRequestVote E C m vreq) \<and>
    transport_AppendEntries G t p areq n
      = (t', n, case HandleAppendEntries E C m areq of None \<Rightarrow> Inl gone | Some (m', r) \<Rightarrow> Inr r) \<and>
    map_option fst (RaftServer_AppendEntries E C m (pb_append_request areq))
      = map_option fst (HandleAppendEntries E C m areq) \<and>
    transport_InstallSnapshot G t p sreq n
      = (t', n, case HandleInstallSnapshot E C m sreq of None \<Rightarrow> Inl gone | Some (m', r) \<Rightarrow> Inr r) \<and>
    map_option fst (RaftServer_InstallSnapshot E C m (pb_snapshot_request sreq))
      = map_option fst (HandleInstallSnapshot E C m sreq)"
  using assms
  by (auto simp: transport_RequestVote_def transport_AppendEntries_def transport_InstallSnapshot_def
      delivers_def served_RequestVote served_AppendEntries served_InstallSnapshot option.map_comp
      split: prod.splits option.splits intro!: option.map_cong)

definition ex_grpc :: "(string, memdb) grpc" where
  "ex_grpc = \<lparr>NewClient = Inr, ConnClose = (\<lambda>c. None),
     callRequestVote = (\<lambda>c req n. (n, Inr (snd (RaftServer_RequestVote exE gob_codec ex_follower req)))),
     callAppendEntries = (\<lambda>c req n. (n, case RaftServer_AppendEntries exE gob_codec ex_follower req of
        None \<Rightarrow> Inl ErrCanceled | Some (m', r) \<Rightarrow> Inr r)),
     callInstallSnapshot = (\<lambda>c req n. (n, case RaftServer_InstallSnapshot exE gob_codec ex_follower req of
        None \<Rightarrow> Inl ErrCanceled | Some (m', r) \<Rightarrow> Inr r))\<rparr>"

definition ex_addrs :: "(string, string) gomap" where
  "ex_addrs = [(''b'', ''host-b:9001''), (''c'', ''host-c:9001'')]"

theorem rpc_boundary_transparent_witness:
  "snd (transport_AppendEntries ex_grpc (NewGRPCTransport ex_addrs) ''b'' ex_request ex_leader)
     = (ex_leader, Inr (ae_response 3 True))"
proof -
  let ?t = "NewGRPCTransport ex_addrs :: string grpc_transport"
  have c: "transport_client ex_grpc ?t ''b'' = (?t\<lparr>gtConns := [(''b'', ''host-b:9001'')]\<rparr>, Inr ''host-b:9001'')"
    by (simp add: transport_client_def NewGRPCTransport_def ex_addrs_def ex_grpc_def)
  have d: "delivers ex_grpc ''host-b:9001'' exE gob_codec ex_follower ErrCanceled ex_leader"
    by (simp add: delivers_def ex_grpc_def)
  show ?thesis using rpc_boundary_transparent[OF c d, where areq = ex_request] ex_accepted by auto
qed

section \<open>The cache of connections\<close>

text \<open>The states the transport reaches from its construction by any calls.\<close>

inductive transport_reach :: "('c, 'd) grpc \<Rightarrow> (string, string) gomap \<Rightarrow> 'c grpc_transport \<Rightarrow> bool" for G addrs where
  transport_new: "transport_reach G addrs (NewGRPCTransport addrs)"
| transport_dialled: "transport_reach G addrs t \<Longrightarrow> transport_client G t p = (t', r) \<Longrightarrow> transport_reach G addrs t'"
| transport_closed: "transport_reach G addrs t \<Longrightarrow> transport_Close G t = (t', r) \<Longrightarrow> transport_reach G addrs t'"

definition cache_ok :: "('c, 'd) grpc \<Rightarrow> (string, string) gomap \<Rightarrow> 'c grpc_transport \<Rightarrow> bool" where
  "cache_ok G addrs t =
     (gtAddrs t = addrs \<and> gomap_ok (gtConns t) \<and>
      (\<forall>p c. map_of (gtConns t) p = Some c \<longrightarrow> (\<exists>a. map_of addrs p = Some a \<and> NewClient G a = Inr c)))"

lemma transport_client_cache:
  assumes "cache_ok G addrs t" and "transport_client G t p = (t', r)"
  shows "cache_ok G addrs t'" and "r = snd (transport_client G (NewGRPCTransport addrs) p)"
proof -
  show "cache_ok G addrs t'"
    using assms by (auto simp: cache_ok_def transport_client_def update_conv' split: option.splits sum.splits if_splits)
  show "r = snd (transport_client G (NewGRPCTransport addrs) p)"
    using assms
    by (cases "map_of (gtConns t) p")
      (fastforce simp: cache_ok_def transport_client_def NewGRPCTransport_def split: option.splits sum.splits)+
qed

lemma transport_reach_cache: "transport_reach G addrs t \<Longrightarrow> cache_ok G addrs t"
proof (induction rule: transport_reach.induct)
  case transport_new
  then show ?case by (simp add: cache_ok_def NewGRPCTransport_def)
next
  case (transport_dialled t p t' r)
  then show ?case using transport_client_cache(1) by blast
next
  case (transport_closed t t' r)
  then show ?case by (auto simp: cache_ok_def transport_Close_def)
qed



section \<open>The service for clients\<close>

lemma statusFor_OK [simp]: "statusFor r = OK \<longleftrightarrow> r = None"
  by (auto simp: statusFor_def split: option.splits)

lemma statusFor_NOT_FOUND [simp]: "statusFor r \<noteq> NOT_FOUND"
  by (auto simp: statusFor_def split: option.splits)

lemma Propose_nil:
  assumes "Propose E C T wait n ty key v rid = Some (n', None)"
  shows "\<exists>n1 i ch n2 n3. Propose_locked E C n ty key v rid = Some (n1, Inr (i, ch)) \<and>
    broadcastAppendEntries E C T n1 = Some n2 \<and> wait n2 = (n3, FromWaitCh) \<and> hd (chan_buffer n3 ch) = None"
proof -
  obtain n1 r where P: "Propose_locked E C n ty key v rid = Some (n1, r)"
    using assms by (auto simp: Propose_def bind_eq_Some_conv)
  then obtain i ch where r: "r = Inr (i, ch)" using assms by (cases r) (auto simp: Propose_def)
  then obtain n2 where b: "broadcastAppendEntries E C T n1 = Some n2" using assms P by (auto simp: Propose_def)
  obtain n3 sc where w: "wait n2 = (n3, sc)" by force
  then show ?thesis
    using assms P r b by (cases sc) (auto simp: Propose_def Propose_select_def)
qed

text \<open>The entry under which a write is proposed.\<close>

definition proposed :: "'d node \<Rightarrow> entry_type \<Rightarrow> string \<Rightarrow> bytes \<Rightarrow> string \<Rightarrow> entry" where
  "proposed n ty key v rid =
     \<lparr>eIndex = lastIndex (nLog n) + 1, eTerm = currentTerm (nLog n), eType = ty, eKey = key, eValue = v,
      eClientRequestID = rid\<rparr>"

text \<open>What an acknowledged write has gone through.\<close>

definition acknowledged ::
    "'d engine \<Rightarrow> ('d \<Rightarrow> bytes \<rightharpoonup> bytes) \<Rightarrow> codec \<Rightarrow> 'd transport \<Rightarrow> ('d node \<Rightarrow> 'd node \<times> select_case) \<Rightarrow> 'd node \<Rightarrow>
     entry \<Rightarrow> bool" where
  "acknowledged E content C T wait n e =
     (nRole n = Leader \<and>
      (\<exists>n1 n2 n3 ch. logEntries (stored_log content C n1) = logEntries (stored_log content C n) @ [e] \<and>
         map_of (nWriteWaiters n1) (eIndex e) = Some ch \<and> broadcastAppendEntries E C T n1 = Some n2 \<and>
         wait n2 = (n3, FromWaitCh) \<and> hd (chan_buffer n3 ch) = None))"

lemma Propose_acknowledged:
  assumes "raft_storage_reads E content C" and "stored_inv content C n" and "unat (lastIndex (nLog n)) + 2 < 2 ^ 64"
    and p: "Propose E C T wait n ty key v rid = Some (n', None)"
  shows "acknowledged E content C T wait n (proposed n ty key v rid)"
proof -
  obtain n1 i ch n2 n3 where P: "Propose_locked E C n ty key v rid = Some (n1, Inr (i, ch))"
    "broadcastAppendEntries E C T n1 = Some n2" "wait n2 = (n3, FromWaitCh)" "hd (chan_buffer n3 ch) = None"
    using Propose_nil[OF p] by blast
  have "nRole n = Leader" using P(1) by (auto simp: Propose_locked_def split: if_splits)
  then have "logEntries (stored_log content C n1) = logEntries (stored_log content C n) @ [proposed n ty key v rid]"
    "map_of (nWriteWaiters n1) (lastIndex (nLog n) + 1) = Some ch"
    using Propose_locked_spec[OF assms(1-3) refl, of ty key v rid] P(1) by (simp_all add: proposed_def)
  then show ?thesis
    using P \<open>nRole n = Leader\<close> by (auto simp: acknowledged_def proposed_def)
qed

text \<open>
  C19. What a client's write is told. A node that does not lead changes nothing and answers
  \<^verbatim>\<open>NOT_LEADER\<close> with the address of the leader it knows. An answer \<^verbatim>\<open>OK\<close> means that the node led, appended
  exactly the client's entry to its log in its term, sent it to its peers, and was woken without an
  error by the waiter it had registered under the entry's index.
\<close>

theorem write_status_correct:
  assumes "raft_storage_reads E content C" and "stored_inv content C n" and "unat (lastIndex (nLog n)) + 2 < 2 ^ 64"
  shows "(nRole n \<noteq> Leader \<longrightarrow>
      Put E C T wait n preq = Some (n, \<lparr>wrStatus = NOT_LEADER, wrLeaderHint = nLeaderClientAddr n, wrError = ''raft: not leader''\<rparr>) \<and>
      Delete E C T wait n dreq = Some (n, \<lparr>wrStatus = NOT_LEADER, wrLeaderHint = nLeaderClientAddr n, wrError = ''raft: not leader''\<rparr>)) \<and>
    (\<forall>n' resp. Put E C T wait n preq = Some (n', resp) \<and> wrStatus resp = OK \<longrightarrow>
      acknowledged E content C T wait n (proposed n EntryPut (prKey preq) (prValue preq) (prClientRequestId preq))) \<and>
    (\<forall>n' resp. Delete E C T wait n dreq = Some (n', resp) \<and> wrStatus resp = OK \<longrightarrow>
      acknowledged E content C T wait n (proposed n EntryDelete (drKey dreq) [] (drClientRequestId dreq)))"
proof -
  have follower: "Propose E C T wait n ty key v rid = Some (n, Some ErrNotLeader)" if "nRole n \<noteq> Leader" for ty key v rid
    using that by (simp add: Propose_def Propose_locked_def)
  have ok: "acknowledged E content C T wait n (proposed n ty key v rid)"
    if "Propose E C T wait n ty key v rid = Some (n', err)" "statusFor err = OK" for ty key v rid n' err
    using Propose_acknowledged[OF assms] that by simp
  show ?thesis
    using follower ok by (auto simp: Put_def Delete_def LeaderHint_def statusFor_def[of "Some ErrNotLeader"] errString_def)
qed

text \<open>A leader without peers; while its client waits, the apply loop wakes the waiter.\<close>

definition ex_single :: "memdb node" where
  "ex_single = ex_leader\<lparr>nPeers := []\<rparr>"

definition ex_wait :: "memdb node \<Rightarrow> memdb node \<times> select_case" where
  "ex_wait n = (notifyWritersLocked n 3, FromWaitCh)"

definition ex_put_request :: put_request where
  "ex_put_request = \<lparr>prKey = ''x'', prValue = [7], prClientRequestId = ''r1''\<rparr>"

lemma advanced_fields: "\<exists>c s. tryAdvanceCommitIndex E C n t = n\<lparr>nCommitIndex := c, nCommitAdvanced := s\<rparr>"
proof -
  have "n = n\<lparr>nCommitIndex := nCommitIndex n, nCommitAdvanced := nCommitAdvanced n\<rparr>" by simp
  then have same: "\<exists>c s. n = n\<lparr>nCommitIndex := c, nCommitAdvanced := s\<rparr>" by blast
  have "tryAdvanceCommitIndex E C n t = n \<or>
      tryAdvanceCommitIndex E C n t = n\<lparr>nCommitIndex := majority_index n, nCommitAdvanced := True\<rparr>"
    by (simp add: tryAdvanceCommitIndex_def signalCommitAdvanced_def)
  then show ?thesis using same by (elim disjE) (simp only:, blast)
qed

lemma ex_single_put:
  "\<exists>n' resp. Put exE gob_codec ex_transport ex_wait ex_single ex_put_request = Some (n', resp) \<and> wrStatus resp = OK"
proof -
  let ?e = "\<lparr>eIndex = 3, eTerm = 3, eType = EntryPut, eKey = ''x'', eValue = [7], eClientRequestID = ''r1''\<rparr>"
  have f: "nLog ex_single = ex_log3" "nRole ex_single = Leader" "nOpts ex_single = ex_opts" "nPeers ex_single = []"
    "nWriteWaiters ex_single = []" "nNextChan ex_single = 0" "nBuffers ex_single = []"
    by (simp_all add: ex_single_def ex_leader_def ex_node_def)
  have g: "lastIndex ex_log3 + 1 = 3" "currentTerm ex_log3 = 3"
    using ex_fields(1,2) by (simp_all add: ex_leader_def)
  obtain pl where a: "AppendEntries exE gob_codec ex_log3 [?e] True = Some (pl, None)"
    using ex_AppendEntries[OF plog_invD(1)[OF ex_log3_inv] ex_log3_reliable, of "[?e]" True] by auto
  let ?n = "ex_single\<lparr>nNextChan := 1, nWriteWaiters := [(3, 0)], nLog := pl\<rparr>"
  have p: "Propose_locked exE gob_codec ex_single EntryPut ''x'' [7] ''r1'' = Some (?n, Inr (3, 0))"
    using a f g by (simp add: Propose_locked_def make_chan_def ex_opts_def)
  obtain c s where "tryAdvanceCommitIndex exE gob_codec ?n (currentTerm pl) = ?n\<lparr>nCommitIndex := c, nCommitAdvanced := s\<rparr>"
    using advanced_fields by blast
  then have b: "broadcastAppendEntries exE gob_codec ex_transport ?n = Some (?n\<lparr>nCommitIndex := c, nCommitAdvanced := s\<rparr>)"
    using f by (simp add: broadcastAppendEntries_def IsLeader_def)
  show ?thesis
    using p b f by (simp add: Put_def Propose_def ex_put_request_def ex_wait_def Propose_select_def
        notifyWritersLocked_def chan_send_def chan_buffer_def)
qed

theorem write_status_correct_witness:
  "acknowledged exE mem_content gob_codec ex_transport ex_wait ex_single (proposed ex_single EntryPut ''x'' [7] ''r1'')"
proof -
  have inv: "stored_inv mem_content gob_codec ex_single" using ex_leader_inv by (simp add: ex_single_def)
  have "unat (lastIndex (nLog ex_single)) + 2 < 2 ^ 64" using ex_fields(2) by (simp add: ex_single_def)
  from write_status_correct[OF store.raft_storage_reads_axioms inv this, of ex_transport ex_wait ex_put_request]
  show ?thesis using ex_single_put by (auto simp: ex_put_request_def)
qed

lemma get_from_store_reads:
  assumes "raft_storage_reads E content C"
  shows "get_from_store E n key = (case stored_kv content n key of
      None \<Rightarrow> \<lparr>gsStatus = NOT_FOUND, gsValue = [], gsLeaderHint = [], gsError = []\<rparr>
    | Some v \<Rightarrow> \<lparr>gsStatus = OK, gsValue = v, gsLeaderHint = [], gsError = []\<rparr>)"
proof -
  have er: "engine_reads E content" using assms by (simp add: raft_storage_reads_def)
  have "SM_Get E (nSM n) key = Inr (stored_kv content n key)"
    using engine_reads.get_present[OF er, of "smEngine (nSM n)" "dataKey key"]
      engine_reads.get_missing[OF er, of "smEngine (nSM n)" "dataKey key"]
    by (cases "content (smEngine (nSM n)) (dataKey key)") (simp_all add: SM_Get_def kv_content_def)
  then show ?thesis by (simp add: get_from_store_def split: option.splits)
qed


definition ex_get_request :: get_request where
  "ex_get_request = \<lparr>grKey = ''x'', grLinearizable = True\<rparr>"


end
