(* ===== verification/Config.thy ===== *)
theory Config
  imports Raft_Node Go_Strings
begin

text \<open>
  \<^verbatim>\<open>internal/config/config.go\<close>: the configuration, its defaults, and \<^verbatim>\<open>Load\<close>, which reads a file and the
  environment. The environment, the file and \<^verbatim>\<open>json.Unmarshal\<close> are the fields of the record
  \<open>os_env\<close>; nothing is assumed of them.
\<close>

section \<open>config.go\<close>

record peer =
  pID :: string
  pRaftAddr :: string
  pClientAddr :: string

record config =
  cfgNodeID :: string
  cfgRaftAddr :: string
  cfgClientAddr :: string
  cfgPeers :: "peer list"
  cfgDataDir :: string
  cfgElectionTimeoutMin :: duration
  cfgElectionTimeoutMax :: duration
  cfgHeartbeatInterval :: duration
  cfgSnapshotThreshold :: u64
  cfgReplicationBatchMaxEntries :: int
  cfgFsyncOnAppend :: bool

definition Millisecond :: duration where
  "Millisecond = 1000000"

definition defaultConfig :: config where
  "defaultConfig =
     \<lparr>cfgNodeID = [], cfgRaftAddr = [], cfgClientAddr = [], cfgPeers = [], cfgDataDir = ''./data'',
      cfgElectionTimeoutMin = 300 * Millisecond, cfgElectionTimeoutMax = 600 * Millisecond,
      cfgHeartbeatInterval = 75 * Millisecond, cfgSnapshotThreshold = 10000,
      cfgReplicationBatchMaxEntries = 512, cfgFsyncOnAppend = True\<rparr>"

record os_env =
  Getenv :: "string \<Rightarrow> string"
  ReadFile :: "string \<Rightarrow> goerror + bytes"
  Unmarshal :: "bytes \<Rightarrow> config \<Rightarrow> config \<times> goerror option"

definition peer_spec_error :: "string \<Rightarrow> goerror" where
  "peer_spec_error part =
     ErrOther (''invalid peer spec '' @ Quote part @ '', want id=raftAddr|clientAddr'')"

text \<open>One part of the list: nothing for a blank part, a peer, or the error.\<close>

definition parse_peer :: "string \<Rightarrow> goerror + peer option" where
  "parse_peer part =
     (let part = TrimSpace part
      in if part = [] then Inr None
         else case SplitN2 part (CHR ''='') of
                [i, rest] \<Rightarrow>
                  (case SplitN2 rest (CHR ''|'') of
                     [ra, ca] \<Rightarrow> Inr (Some \<lparr>pID = i, pRaftAddr = ra, pClientAddr = ca\<rparr>)
                   | _ \<Rightarrow> Inl (peer_spec_error part))
              | _ \<Rightarrow> Inl (peer_spec_error part))"

definition parsePeers :: "string \<Rightarrow> goerror + peer list" where
  "parsePeers s =
     fold_err (\<lambda>part peers. case parse_peer part of
         Inl err \<Rightarrow> Inl err
       | Inr None \<Rightarrow> Inr peers
       | Inr (Some p) \<Rightarrow> Inr (peers @ [p]))
       (Split s (CHR '','')) []"

text \<open>A call of \<^verbatim>\<open>strconv\<close> in \<^verbatim>\<open>Load\<close>, with the \<^verbatim>\<open>NumError\<close> it may return wrapped for the variable.\<close>

definition num_error_text :: "string \<Rightarrow> string \<Rightarrow> num_error \<Rightarrow> string" where
  "num_error_text fn v err =
     ''strconv.'' @ fn @ '': parsing '' @ Quote v @ '': '' @
     (case err of ErrSyntax \<Rightarrow> ''invalid syntax'' | ErrRange \<Rightarrow> ''value out of range'')"

definition parsed ::
    "string \<Rightarrow> string \<Rightarrow> (string \<Rightarrow> num_error + 'a) \<Rightarrow> ('a \<Rightarrow> config \<Rightarrow> config) \<Rightarrow>
     string \<Rightarrow> config \<Rightarrow> goerror + config" where
  "parsed var fn parse upd v cfg =
     (case parse v of
        Inl err \<Rightarrow> Inl (ErrWrapped (''parsing '' @ var) (ErrOther (num_error_text fn v err)))
      | Inr x \<Rightarrow> Inr (upd x cfg))"

definition milliseconds :: "int \<Rightarrow> duration" where
  "milliseconds n = word_of_int n * Millisecond"

text \<open>
  The variables in the order \<^verbatim>\<open>Load\<close> reads them, each with what a value other than the empty string
  does to the configuration.
\<close>

definition env_settings :: "(string \<times> (string \<Rightarrow> config \<Rightarrow> goerror + config)) list" where
  "env_settings =
     [(''NODE_ID'', \<lambda>v cfg. Inr (cfg\<lparr>cfgNodeID := v\<rparr>)),
      (''RAFT_ADDR'', \<lambda>v cfg. Inr (cfg\<lparr>cfgRaftAddr := v\<rparr>)),
      (''CLIENT_ADDR'', \<lambda>v cfg. Inr (cfg\<lparr>cfgClientAddr := v\<rparr>)),
      (''DATA_DIR'', \<lambda>v cfg. Inr (cfg\<lparr>cfgDataDir := v\<rparr>)),
      (''PEERS'', \<lambda>v cfg. case parsePeers v of
           Inl err \<Rightarrow> Inl (ErrWrapped ''parsing PEERS'' err)
         | Inr peers \<Rightarrow> Inr (cfg\<lparr>cfgPeers := peers\<rparr>)),
      (''SNAPSHOT_THRESHOLD'', parsed ''SNAPSHOT_THRESHOLD'' ''ParseUint'' ParseUint
         (\<lambda>n cfg. cfg\<lparr>cfgSnapshotThreshold := n\<rparr>)),
      (''REPLICATION_BATCH_MAX_ENTRIES'', parsed ''REPLICATION_BATCH_MAX_ENTRIES'' ''Atoi'' Atoi
         (\<lambda>n cfg. cfg\<lparr>cfgReplicationBatchMaxEntries := n\<rparr>)),
      (''ELECTION_TIMEOUT_MIN_MS'', parsed ''ELECTION_TIMEOUT_MIN_MS'' ''Atoi'' Atoi
         (\<lambda>n cfg. cfg\<lparr>cfgElectionTimeoutMin := milliseconds n\<rparr>)),
      (''ELECTION_TIMEOUT_MAX_MS'', parsed ''ELECTION_TIMEOUT_MAX_MS'' ''Atoi'' Atoi
         (\<lambda>n cfg. cfg\<lparr>cfgElectionTimeoutMax := milliseconds n\<rparr>)),
      (''HEARTBEAT_INTERVAL_MS'', parsed ''HEARTBEAT_INTERVAL_MS'' ''Atoi'' Atoi
         (\<lambda>n cfg. cfg\<lparr>cfgHeartbeatInterval := milliseconds n\<rparr>)),
      (''FSYNC_ON_APPEND'', parsed ''FSYNC_ON_APPEND'' ''ParseBool'' ParseBool
         (\<lambda>b cfg. cfg\<lparr>cfgFsyncOnAppend := b\<rparr>))]"

text \<open>An error comes with the configuration as far as it was built.\<close>

definition load_file :: "os_env \<Rightarrow> config \<Rightarrow> config \<times> goerror + config" where
  "load_file X cfg =
     (let path = Getenv X ''CONFIG_FILE''
      in if path = [] then Inr cfg
         else case ReadFile X path of
                Inl err \<Rightarrow> Inl (cfg, ErrWrapped (''reading config file '' @ path) err)
              | Inr b \<Rightarrow>
                  (case Unmarshal X b cfg of
                     (cfg, Some err) \<Rightarrow> Inl (cfg, ErrWrapped (''parsing config file '' @ path) err)
                   | (cfg, None) \<Rightarrow> Inr cfg))"

definition env_step ::
    "os_env \<Rightarrow> string \<times> (string \<Rightarrow> config \<Rightarrow> goerror + config) \<Rightarrow> config \<Rightarrow> config \<times> goerror + config" where
  "env_step X = (\<lambda>(var, set_var) cfg.
     let v = Getenv X var
     in if v = [] then Inr cfg
        else case set_var v cfg of Inl err \<Rightarrow> Inl (cfg, err) | Inr cfg \<Rightarrow> Inr cfg)"

definition load_env :: "os_env \<Rightarrow> config \<Rightarrow> config \<times> goerror + config" where
  "load_env X = fold_err (env_step X) env_settings"

definition check_config :: "config \<Rightarrow> config \<times> goerror + config" where
  "check_config cfg =
     (if cfgNodeID cfg = [] then Inl (cfg, ErrOther ''NODE_ID is required'')
      else if cfgRaftAddr cfg = [] then Inl (cfg, ErrOther ''RAFT_ADDR is required'')
      else if cfgClientAddr cfg = [] then Inl (cfg, ErrOther ''CLIENT_ADDR is required'')
      else if sint (cfgElectionTimeoutMin cfg) \<ge> sint (cfgElectionTimeoutMax cfg)
      then Inl (cfg, ErrOther ''ELECTION_TIMEOUT_MIN_MS must be < ELECTION_TIMEOUT_MAX_MS'')
      else Inr cfg)"

definition Load :: "os_env \<Rightarrow> config \<times> goerror + config" where
  "Load X =
     (case load_file X defaultConfig of
        Inl e \<Rightarrow> Inl e
      | Inr cfg \<Rightarrow> (case load_env X cfg of Inl e \<Rightarrow> Inl e | Inr cfg \<Rightarrow> check_config cfg))"

end
