(* ===== verification/Timers.thy ===== *)
theory Timers
  imports Client_Ops
begin

text \<open>
  The goroutines of \<^verbatim>\<open>node_lifecycle.go\<close> (\<^verbatim>\<open>Start\<close>, \<^verbatim>\<open>runTimerLoop\<close>, \<^verbatim>\<open>runApplyLoop\<close>) and the random
  election timeouts of \<^verbatim>\<open>rand.go\<close>. A \<^verbatim>\<open>select\<close> may take any case that is ready, so a loop is a
  function of the list of the events that happen, and an event whose case is not ready is refused.
\<close>

section \<open>rand.go\<close>

text \<open>
  A \<^verbatim>\<open>rand.Rand\<close> is the sequence of the values of its source and a position in it. \<^verbatim>\<open>Int63\<close> masks the
  top bit; \<^verbatim>\<open>Int63n\<close> panics on a bound that is not positive, takes the low bits for a power of two, and
  otherwise draws until the value is below the largest multiple of the bound.
\<close>

record rand_source =
  rsDraws :: "nat \<Rightarrow> u64"
  rsPos :: nat

definition Int63 :: "rand_source \<Rightarrow> rand_source \<times> u64" where
  "Int63 r = (r\<lparr>rsPos := Suc (rsPos r)\<rparr>, rsDraws r (rsPos r) AND mask 63)"

partial_function (option) draw_upto :: "u64 \<Rightarrow> rand_source \<Rightarrow> (rand_source \<times> u64) option" where
  "draw_upto hi r =
     (if snd (Int63 r) > hi then draw_upto hi (fst (Int63 r)) else Some (Int63 r))"

declare draw_upto.simps [code]

definition Int63n :: "rand_source \<Rightarrow> u64 \<Rightarrow> (rand_source \<times> u64) option" where
  "Int63n r n =
     (if sint n \<le> 0 then None
      else if n AND (n - 1) = 0 then Some (map_prod id (\<lambda>v. v AND (n - 1)) (Int63 r))
      else map_option (map_prod id (\<lambda>v. v mod n)) (draw_upto (2 ^ 63 - 1 - 2 ^ 63 mod n) r))"

text \<open>\<^verbatim>\<open>hash/fnv\<close>'s \<^verbatim>\<open>New64a\<close>.\<close>

definition fnv64a :: "bytes \<Rightarrow> u64" where
  "fnv64a b = foldl (\<lambda>h x. (h XOR ucast x) * 1099511628211) 14695981039346656037 b"

text \<open>\<open>newSource\<close> is \<^verbatim>\<open>rand.NewSource\<close>, \<open>now\<close> the clock's nanoseconds.\<close>

definition newRandSource :: "(u64 \<Rightarrow> nat \<Rightarrow> u64) \<Rightarrow> string \<Rightarrow> u64 \<Rightarrow> rand_source" where
  "newRandSource newSource nodeID now =
     \<lparr>rsDraws = newSource (fnv64a (bytes_of_string nodeID) XOR now), rsPos = 0\<rparr>"

definition electionTimeout ::
    "rand_source \<Rightarrow> duration \<Rightarrow> duration \<Rightarrow> (rand_source \<times> duration) option" where
  "electionTimeout r lo hi =
     (if sint hi \<le> sint lo then Some (r, lo)
      else let span = hi - lo in map_option (map_prod id (\<lambda>v. lo + v)) (Int63n r span))"

section \<open>runTimerLoop\<close>

text \<open>
  The loop's timer is armed, or has fired into its channel, or neither; the channel of the ticker
  holds a tick or not. \<open>tlTimeout\<close> is the duration the timer was armed with last.
\<close>

record 'd timer_loop =
  tlNode :: "'d node"
  tlRand :: rand_source
  tlTimeout :: duration
  tlArmed :: bool
  tlFired :: bool
  tlTick :: bool

definition random_timeout :: "rand_source \<Rightarrow> options \<Rightarrow> (rand_source \<times> duration) option" where
  "random_timeout r opts =
     map_option (map_prod id (\<lambda>d. ElectionTimeoutMin opts + d))
       (electionTimeout r 0 (ElectionTimeoutMax opts - ElectionTimeoutMin opts))"

text \<open>Up to the \<^verbatim>\<open>for\<close>; \<^verbatim>\<open>time.NewTicker\<close> panics on an interval that is not positive.\<close>

definition runTimerLoop_start :: "rand_source \<Rightarrow> 'd node \<Rightarrow> 'd timer_loop option" where
  "runTimerLoop_start r n =
     (case random_timeout r (nOpts n) of
        None \<Rightarrow> None
      | Some (r, timeout) \<Rightarrow>
          if sint (HeartbeatInterval (nOpts n)) \<le> 0 then None
          else Some \<lparr>tlNode = n, tlRand = r, tlTimeout = timeout, tlArmed = True, tlFired = False,
                     tlTick = False\<rparr>)"

definition timer_Stop :: "'d timer_loop \<Rightarrow> 'd timer_loop \<times> bool" where
  "timer_Stop lp = (lp\<lparr>tlArmed := False\<rparr>, tlArmed lp)"

definition timer_Reset :: "'d timer_loop \<Rightarrow> 'd timer_loop option" where
  "timer_Reset lp =
     map_option (\<lambda>(r, timeout). lp\<lparr>tlRand := r, tlTimeout := timeout, tlArmed := True\<rparr>)
       (random_timeout (tlRand lp) (nOpts (tlNode lp)))"

text \<open>The bodies of the three cases.\<close>

definition on_reset :: "'d timer_loop \<Rightarrow> 'd timer_loop option" where
  "on_reset lp =
     (let lp = lp\<lparr>tlNode := (tlNode lp)\<lparr>nElectionReset := False\<rparr>\<rparr>;
          (lp, active) = timer_Stop lp;
          lp = (if \<not> active then lp\<lparr>tlFired := False\<rparr> else lp)
      in timer_Reset lp)"

definition on_timeout ::
    "'d engine \<Rightarrow> codec \<Rightarrow> 'd transport \<Rightarrow> (vote_result list \<Rightarrow> 'd election_event list) \<Rightarrow> 'd timer_loop \<Rightarrow>
     'd timer_loop option" where
  "on_timeout E C T sched lp =
     (let lp = lp\<lparr>tlFired := False\<rparr>
      in Option.bind (if nRole (tlNode lp) \<noteq> Leader then startElection E C T sched (tlNode lp)
                      else Some (tlNode lp))
           (\<lambda>n. timer_Reset (lp\<lparr>tlNode := n\<rparr>)))"

definition on_heartbeat ::
    "'d engine \<Rightarrow> codec \<Rightarrow> 'd transport \<Rightarrow> 'd timer_loop \<Rightarrow> 'd timer_loop option" where
  "on_heartbeat E C T lp =
     (let lp = lp\<lparr>tlTick := False\<rparr>
      in map_option (\<lambda>n. lp\<lparr>tlNode := n\<rparr>)
           (if nRole (tlNode lp) = Leader then broadcastAppendEntries E C T (tlNode lp)
            else Some (tlNode lp)))"

text \<open>
  What can happen: the three cases, the timer expires, the ticker ticks, another goroutine changes
  the node.
\<close>

datatype 'd timer_event =
    ResetCase
  | TimeoutCase "vote_result list \<Rightarrow> 'd election_event list"
  | HeartbeatCase
  | Expires
  | Ticks
  | NodeChanges "'d node \<Rightarrow> 'd node"

definition timer_event_step ::
    "'d engine \<Rightarrow> codec \<Rightarrow> 'd transport \<Rightarrow> 'd timer_event \<Rightarrow> 'd timer_loop \<Rightarrow> 'd timer_loop option" where
  "timer_event_step E C T ev lp =
     (case ev of
        ResetCase \<Rightarrow> if nElectionReset (tlNode lp) then on_reset lp else None
      | TimeoutCase sched \<Rightarrow> if tlFired lp then on_timeout E C T sched lp else None
      | HeartbeatCase \<Rightarrow> if tlTick lp then on_heartbeat E C T lp else None
      | Expires \<Rightarrow> if tlArmed lp then Some (lp\<lparr>tlArmed := False, tlFired := True\<rparr>) else None
      | Ticks \<Rightarrow> Some (lp\<lparr>tlTick := True\<rparr>)
      | NodeChanges f \<Rightarrow> Some (lp\<lparr>tlNode := f (tlNode lp)\<rparr>))"

text \<open>The loop until the case of \<^verbatim>\<open>stopCh\<close> is taken.\<close>

fun timer_run ::
    "'d engine \<Rightarrow> codec \<Rightarrow> 'd transport \<Rightarrow> 'd timer_event list \<Rightarrow> 'd timer_loop \<Rightarrow> 'd timer_loop option" where
  "timer_run E C T [] lp = Some lp"
| "timer_run E C T (ev # evs) lp = Option.bind (timer_event_step E C T ev lp) (timer_run E C T evs)"

definition runTimerLoop ::
    "'d engine \<Rightarrow> codec \<Rightarrow> 'd transport \<Rightarrow> 'd timer_event list \<Rightarrow> rand_source \<Rightarrow> 'd node \<Rightarrow> 'd timer_loop option" where
  "runTimerLoop E C T evs r n = Option.bind (runTimerLoop_start r n) (timer_run E C T evs)"

section \<open>runApplyLoop\<close>

text \<open>
  The loop is waiting, or has taken a signal or a tick and is about to call \<^const>\<open>applyCommitted\<close>.
  Taking the signal empties \<^verbatim>\<open>commitAdvancedCh\<close> before the call reads the commit index.
\<close>

record 'd apply_goroutine =
  agNode :: "'d node"
  agBusy :: bool

datatype 'd apply_event = SignalCase | TickCase | ApplyRuns | OtherChanges "'d node"

definition apply_event_step ::
    "'d engine \<Rightarrow> codec \<Rightarrow> 'd apply_event \<Rightarrow> 'd apply_goroutine \<Rightarrow> 'd apply_goroutine option" where
  "apply_event_step E C ev a =
     (case ev of
        SignalCase \<Rightarrow>
          if \<not> agBusy a \<and> nCommitAdvanced (agNode a)
          then Some \<lparr>agNode = (agNode a)\<lparr>nCommitAdvanced := False\<rparr>, agBusy = True\<rparr> else None
      | TickCase \<Rightarrow> if \<not> agBusy a then Some (a\<lparr>agBusy := True\<rparr>) else None
      | ApplyRuns \<Rightarrow>
          if agBusy a
          then map_option (\<lambda>n. \<lparr>agNode = n, agBusy = False\<rparr>) (applyCommitted E C (agNode a)) else None
      | OtherChanges n \<Rightarrow> Some (a\<lparr>agNode := n\<rparr>))"

text \<open>\<^verbatim>\<open>Start\<close> launches both loops.\<close>

definition Start :: "rand_source \<Rightarrow> 'd node \<Rightarrow> ('d timer_loop \<times> 'd apply_goroutine) option" where
  "Start r n = map_option (\<lambda>lp. (lp, \<lparr>agNode = n, agBusy = False\<rparr>)) (runTimerLoop_start r n)"

end
