(* ===== verification/Boot.thy ===== *)
theory Boot
  imports Config Server Timers
begin

text \<open>
  \<^verbatim>\<open>cmd/node/main.go\<close>: from the configuration to a running node and back. The listeners and the gRPC
  servers that call the handlers of theory \<open>Server\<close> are not part of the model.
\<close>

definition node_options :: "config \<Rightarrow> options" where
  "node_options cfg =
     \<lparr>ElectionTimeoutMin = cfgElectionTimeoutMin cfg, ElectionTimeoutMax = cfgElectionTimeoutMax cfg,
      HeartbeatInterval = cfgHeartbeatInterval cfg, SnapshotThreshold = cfgSnapshotThreshold cfg,
      ReplicationBatchMaxEntries = cfgReplicationBatchMaxEntries cfg,
      FsyncOnAppend = cfgFsyncOnAppend cfg\<rparr>"

text \<open>The loop over the configured peers: the transport's addresses and the node's peers.\<close>

definition wire_peers :: "peer list \<Rightarrow> (string, string) gomap \<times> peer_info list" where
  "wire_peers ps =
     foldl (\<lambda>(addrs, peers) p. (AList.update (pID p) (pRaftAddr p) addrs, peers @ [\<lparr>piID = pID p\<rparr>]))
       ([], []) ps"

record ('c, 'd) running =
  runTransport :: "'c grpc_transport"
  runTimer :: "'d timer_loop"
  runApply :: "'d apply_goroutine"

text \<open>
  Up to \<^verbatim>\<open>node.Start()\<close>. An error is one that \<^verbatim>\<open>log.Fatalf\<close> reports; \<open>src\<close> makes the random source from
  the node's name, and \<^const>\<open>None\<close> is a panic.
\<close>

definition boot ::
    "os_env \<Rightarrow> file_system \<Rightarrow> 'd pebble \<Rightarrow> codec \<Rightarrow> (string \<Rightarrow> rand_source) \<Rightarrow>
     (goerror + ('c, 'd) running) option" where
  "boot X fs P C src =
     (case Load X of
        Inl (cfg, err) \<Rightarrow> Some (Inl (ErrWrapped ''config'' err))
      | Inr cfg \<Rightarrow>
     (case os_MkdirAll fs (cfgDataDir cfg) of
        (fs, Some err) \<Rightarrow> Some (Inl (ErrWrapped ''creating data dir'' err))
      | (fs, None) \<Rightarrow>
     (case OpenPebble P (filepath_Join (cfgDataDir cfg) ''raftlog'') of
        Inl err \<Rightarrow> Some (Inl (ErrWrapped ''opening raft log storage'' err))
      | Inr raftEngine \<Rightarrow>
     (case OpenPebble P (filepath_Join (cfgDataDir cfg) ''kvdata'') of
        Inl err \<Rightarrow> Some (Inl (ErrWrapped ''opening kv storage'' err))
      | Inr kvEngine \<Rightarrow>
     (case NewSnapshotStore fs (filepath_Join (cfgDataDir cfg) ''snapshots'') of
        Inl err \<Rightarrow> Some (Inl (ErrWrapped ''opening snapshot store'' err))
      | Inr snapStore \<Rightarrow>
     (let (peerRaftAddrs, peers) = wire_peers (cfgPeers cfg)
      in case NewNode (PebbleEngine P) C (cfgNodeID cfg) peers (node_options cfg) raftEngine
                (NewStateMachine kvEngine) snapStore (cfgClientAddr cfg) of
           None \<Rightarrow> None
         | Some (Inl err) \<Rightarrow> Some (Inl (ErrWrapped ''constructing raft node'' err))
         | Some (Inr n) \<Rightarrow>
             map_option (\<lambda>(lp, a).
                 Inr \<lparr>runTransport = NewGRPCTransport peerRaftAddrs, runTimer = lp, runApply = a\<rparr>)
               (Start (src (cfgNodeID cfg)) n)))))))"

text \<open>
  After the signal and the graceful stop of the servers: \<^verbatim>\<open>Stop\<close>, closing both engines, and the
  deferred \<^verbatim>\<open>Close\<close> of the transport.
\<close>

definition shutdown ::
    "('c, 'd) grpc \<Rightarrow> 'd pebble \<Rightarrow> 'c grpc_transport \<Rightarrow> 'd node \<Rightarrow> 'c grpc_transport \<times> 'd node" where
  "shutdown G P t n =
     (let n = Stop n;
          n = n\<lparr>nLog := (nLog n)\<lparr>plEngine := fst (PebbleEngine_Close P (plEngine (nLog n)))\<rparr>\<rparr>;
          n = n\<lparr>nSM := (nSM n)\<lparr>smEngine := fst (PebbleEngine_Close P (smEngine (nSM n)))\<rparr>\<rparr>
      in (fst (transport_Close G t), n))"

end
