(* ===== verification/Startup_Properties.thy ===== *)
theory Startup_Properties
  imports Boot
begin

text \<open>
  What holds of a node's configuration: the list of peers is read back as it was written, and the
  environment overrides the file and the defaults.
\<close>

section \<open>Splitting and trimming\<close>

fun join_with :: "char \<Rightarrow> string list \<Rightarrow> string" where
  "join_with sep [] = []"
| "join_with sep [w] = w"
| "join_with sep (w # ws) = w @ sep # join_with sep ws"

lemma Split_not_Nil: "Split s sep \<noteq> []"
  by (induction s) (auto split: list.splits)

lemma Split_word: "sep \<notin> set w \<Longrightarrow> Split w sep = [w]"
  by (induction w) auto

lemma Split_append: "sep \<notin> set w \<Longrightarrow> Split (w @ sep # s) sep = w # Split s sep"
  by (induction w) auto

lemma Split_join:
  "ws \<noteq> [] \<Longrightarrow> (\<And>w. w \<in> set ws \<Longrightarrow> sep \<notin> set w) \<Longrightarrow> Split (join_with sep ws) sep = ws"
  by (induction sep ws rule: join_with.induct) (auto simp: Split_append Split_word)

lemma SplitN2_append: "sep \<notin> set w \<Longrightarrow> SplitN2 (w @ sep # s) sep = [w, s]"
  by (induction w) auto

lemma strip_one_None: "(\<And>w. w \<in> set ws \<Longrightarrow> w \<noteq> [] \<and> hd w \<noteq> c) \<Longrightarrow> strip_one ws (c # s) = None"
proof (induction ws)
  case (Cons w ws)
  have "w \<noteq> [] \<and> hd w \<noteq> c" using Cons.prems by simp
  then have "\<not> prefix w (c # s)" by (cases w) auto
  then show ?case using Cons by simp
qed simp

lemma strip_one_single:
  "[c] \<in> set ws \<Longrightarrow> (\<And>w. w \<in> set ws \<Longrightarrow> w \<noteq> [] \<and> (hd w = c \<longrightarrow> w = [c])) \<Longrightarrow> strip_one ws (c # s) = Some s"
proof (induction ws)
  case (Cons w ws)
  have w: "w \<noteq> [] \<and> (hd w = c \<longrightarrow> w = [c])" using Cons.prems(2)[of w] by simp
  show ?case
  proof (cases "w = [c]")
    case False
    then have "\<not> prefix w (c # s)" using w by (cases w) auto
    moreover have "strip_one ws (c # s) = Some s" using Cons False by auto
    ultimately show ?thesis by simp
  qed simp
qed simp

text \<open>The characters from \<^verbatim>\<open>!\<close> to \<^verbatim>\<open>~\<close>: printable ASCII without the blank.\<close>

definition graphic :: "char \<Rightarrow> bool" where
  "graphic c = (33 \<le> (of_char c :: nat) \<and> (of_char c :: nat) \<le> 126)"

lemma spaces_not_graphic:
  "\<forall>w \<in> set unicode_spaces. w \<noteq> [] \<and> \<not> graphic (hd w) \<and> \<not> graphic (last w)"
  by code_simp

lemma blank_is_space:
  "\<forall>ws \<in> set [unicode_spaces, map rev unicode_spaces]. [CHR '' ''] \<in> set ws \<and>
     (\<forall>w \<in> set ws. w \<noteq> [] \<and> (hd w = CHR '' '' \<longrightarrow> w = [CHR '' '']))"
  by code_simp

lemma trim_front_blanks:
  assumes "ws = unicode_spaces \<or> ws = map rev unicode_spaces" and "s \<noteq> []" and "graphic (hd s)"
  shows "trim_front ws (replicate k (CHR '' '') @ s) = s"
proof (induction k)
  case 0
  obtain c s' where s: "s = c # s'" using assms(2) by (cases s) auto
  have "w \<noteq> [] \<and> hd w \<noteq> c" if "w \<in> set ws" for w
    using assms(1,3) that spaces_not_graphic s by (fastforce simp: hd_rev)
  then have "strip_one ws s = None" using strip_one_None[of ws c s'] s by blast
  then show ?case by (simp add: trim_front.simps)
next
  case (Suc k)
  have "ws \<in> set [unicode_spaces, map rev unicode_spaces]" using assms(1) by simp
  note blank = bspec[OF blank_is_space this]
  have "strip_one ws (CHR '' '' # x) = Some x" for x
    by (rule strip_one_single[OF conjunct1[OF blank]]) (rule bspec[OF conjunct2[OF blank]])
  then show ?case using Suc by (simp add: trim_front.simps[of ws "CHR '' '' # replicate k (CHR '' '') @ s"])
qed

lemma TrimSpace_blanks:
  assumes "s \<noteq> []" and "\<forall>c \<in> set s. graphic c"
  shows "TrimSpace (replicate i (CHR '' '') @ s @ replicate j (CHR '' '')) = s"
proof -
  have h: "graphic (hd (s @ x))" "graphic (hd (rev s))" for x
    using assms by (auto simp: hd_rev hd_append)
  have "trim_front unicode_spaces (replicate i (CHR '' '') @ s @ replicate j (CHR '' '')) = s @ replicate j (CHR '' '')"
    by (rule trim_front_blanks) (use assms h in auto)
  moreover have "trim_front (map rev unicode_spaces) (replicate j (CHR '' '') @ rev s) = rev s"
    by (rule trim_front_blanks) (use assms h in auto)
  ultimately show ?thesis by (simp add: TrimSpace_def)
qed

section \<open>The list of peers\<close>

definition show_peer :: "peer \<Rightarrow> string" where
  "show_peer p = pID p @ CHR ''='' # pRaftAddr p @ CHR ''|'' # pClientAddr p"

definition peer_ok :: "peer \<Rightarrow> bool" where
  "peer_ok p =
     (CHR ''='' \<notin> set (pID p) \<and> CHR ''|'' \<notin> set (pRaftAddr p) \<and> CHR '','' \<notin> set (show_peer p) \<and>
      (\<forall>c \<in> set (show_peer p). graphic c))"

definition show_peers :: "nat \<Rightarrow> nat \<Rightarrow> peer list \<Rightarrow> string" where
  "show_peers i j ps =
     join_with (CHR '','') (map (\<lambda>p. replicate i (CHR '' '') @ show_peer p @ replicate j (CHR '' '')) ps)"

lemma parse_peer_show:
  assumes "peer_ok p"
  shows "parse_peer (replicate i (CHR '' '') @ show_peer p @ replicate j (CHR '' '')) = Inr (Some p)"
proof -
  have "TrimSpace (replicate i (CHR '' '') @ show_peer p @ replicate j (CHR '' '')) = show_peer p"
    by (rule TrimSpace_blanks) (use assms in \<open>auto simp: peer_ok_def show_peer_def\<close>)
  moreover have "SplitN2 (show_peer p) (CHR ''='') = [pID p, pRaftAddr p @ CHR ''|'' # pClientAddr p]"
    unfolding show_peer_def by (rule SplitN2_append) (use assms in \<open>simp add: peer_ok_def\<close>)
  moreover have "SplitN2 (pRaftAddr p @ CHR ''|'' # pClientAddr p) (CHR ''|'') = [pRaftAddr p, pClientAddr p]"
    by (rule SplitN2_append) (use assms in \<open>simp add: peer_ok_def\<close>)
  moreover have "show_peer p \<noteq> []" by (simp add: show_peer_def)
  ultimately show ?thesis by (simp add: parse_peer_def)
qed

text \<open>
  C33. A list of peers written in the documented form \<^verbatim>\<open>id=raftAddr|clientAddr,...\<close>, with any number of
  blanks around the parts, is read back by \<^verbatim>\<open>parsePeers\<close> as exactly those peers in that order, provided
  the names and addresses are printable and do not use the separators they are written with.
\<close>

theorem parsePeers_round_trip:
  assumes "\<forall>p \<in> set ps. peer_ok p"
  shows "parsePeers (show_peers i j ps) = Inr ps"
proof (cases "ps = []")
  case True
  have "TrimSpace [] = []" by (simp add: TrimSpace_def trim_front.simps unicode_spaces_def upt_rec)
  then show ?thesis using True by (simp add: parsePeers_def show_peers_def parse_peer_def)
next
  case False
  let ?w = "\<lambda>p. replicate i (CHR '' '') @ show_peer p @ replicate j (CHR '' '')"
  have "Split (show_peers i j ps) (CHR '','') = map ?w ps"
    unfolding show_peers_def by (rule Split_join) (use False assms in \<open>auto simp: peer_ok_def\<close>)
  moreover have "fold_err (\<lambda>part peers. case parse_peer part of
         Inl err \<Rightarrow> Inl err | Inr None \<Rightarrow> Inr peers | Inr (Some p) \<Rightarrow> Inr (peers @ [p])) (map ?w ps) acc = Inr (acc @ ps)" for acc
    using assms by (induction ps arbitrary: acc) (auto simp: parse_peer_show)
  ultimately show ?thesis by (simp add: parsePeers_def)
qed

theorem parsePeers_round_trip_witness:
  "parsePeers (show_peers 1 0 [\<lparr>pID = ''n2'', pRaftAddr = ''h2:9001'', pClientAddr = ''h2:9101''\<rparr>,
      \<lparr>pID = ''n3'', pRaftAddr = ''h3:9001'', pClientAddr = ''h3:9101''\<rparr>])
    = Inr [\<lparr>pID = ''n2'', pRaftAddr = ''h2:9001'', pClientAddr = ''h2:9101''\<rparr>,
        \<lparr>pID = ''n3'', pRaftAddr = ''h3:9001'', pClientAddr = ''h3:9101''\<rparr>]"
  by (rule parsePeers_round_trip) (simp add: peer_ok_def show_peer_def graphic_def)

section \<open>Load\<close>

text \<open>The value of a setting: the variable's if it is set, otherwise the one there was.\<close>

definition env_ok :: "os_env \<Rightarrow> string \<Rightarrow> (string \<Rightarrow> 'e + 'a) \<Rightarrow> bool" where
  "env_ok X var parse = (Getenv X var = [] \<or> \<not> isl (parse (Getenv X var)))"

definition env_value :: "os_env \<Rightarrow> string \<Rightarrow> (string \<Rightarrow> 'e + 'a) \<Rightarrow> 'a \<Rightarrow> 'a" where
  "env_value X var parse old = (if Getenv X var = [] then old else projr (parse (Getenv X var)))"

definition env_text :: "os_env \<Rightarrow> string \<Rightarrow> string \<Rightarrow> string" where
  "env_text X var old = (if Getenv X var = [] then old else Getenv X var)"

lemma env_step_parsed:
  assumes "\<And>c. upd (fld c) c = c"
  shows "env_step X (var, parsed var fn parse upd) cfg
    = (if env_ok X var parse then Inr (upd (env_value X var parse (fld cfg)) cfg)
       else Inl (cfg, projl (parsed var fn parse upd (Getenv X var) cfg)))"
  by (cases "parse (Getenv X var)") (auto simp: env_step_def env_ok_def env_value_def parsed_def assms)

lemma env_step_text:
  assumes "\<And>c. upd (fld c) c = c"
  shows "env_step X (var, \<lambda>v cfg. Inr (upd v cfg)) cfg = Inr (upd (env_text X var (fld cfg)) cfg)"
  by (auto simp: env_step_def env_text_def assms)

lemma env_step_peers:
  "env_step X (''PEERS'', \<lambda>v cfg. case parsePeers v of
       Inl err \<Rightarrow> Inl (ErrWrapped ''parsing PEERS'' err) | Inr peers \<Rightarrow> Inr (cfg\<lparr>cfgPeers := peers\<rparr>)) cfg
    = (if env_ok X ''PEERS'' parsePeers
       then Inr (cfg\<lparr>cfgPeers := env_value X ''PEERS'' parsePeers (cfgPeers cfg)\<rparr>)
       else Inl (cfg, ErrWrapped ''parsing PEERS'' (projl (parsePeers (Getenv X ''PEERS'')))))"
  by (cases "parsePeers (Getenv X ''PEERS'')") (auto simp: env_step_def env_ok_def env_value_def)

text \<open>The configuration that the environment makes of \<open>base\<close>.\<close>

definition env_config :: "os_env \<Rightarrow> config \<Rightarrow> config" where
  "env_config X base =
     \<lparr>cfgNodeID = env_text X ''NODE_ID'' (cfgNodeID base),
      cfgRaftAddr = env_text X ''RAFT_ADDR'' (cfgRaftAddr base),
      cfgClientAddr = env_text X ''CLIENT_ADDR'' (cfgClientAddr base),
      cfgPeers = env_value X ''PEERS'' parsePeers (cfgPeers base),
      cfgDataDir = env_text X ''DATA_DIR'' (cfgDataDir base),
      cfgElectionTimeoutMin = env_value X ''ELECTION_TIMEOUT_MIN_MS'' (map_sum id milliseconds \<circ> Atoi)
        (cfgElectionTimeoutMin base),
      cfgElectionTimeoutMax = env_value X ''ELECTION_TIMEOUT_MAX_MS'' (map_sum id milliseconds \<circ> Atoi)
        (cfgElectionTimeoutMax base),
      cfgHeartbeatInterval = env_value X ''HEARTBEAT_INTERVAL_MS'' (map_sum id milliseconds \<circ> Atoi)
        (cfgHeartbeatInterval base),
      cfgSnapshotThreshold = env_value X ''SNAPSHOT_THRESHOLD'' ParseUint (cfgSnapshotThreshold base),
      cfgReplicationBatchMaxEntries = env_value X ''REPLICATION_BATCH_MAX_ENTRIES'' Atoi
        (cfgReplicationBatchMaxEntries base),
      cfgFsyncOnAppend = env_value X ''FSYNC_ON_APPEND'' ParseBool (cfgFsyncOnAppend base)\<rparr>"

definition env_readable :: "os_env \<Rightarrow> bool" where
  "env_readable X =
     (env_ok X ''PEERS'' parsePeers \<and> env_ok X ''SNAPSHOT_THRESHOLD'' ParseUint \<and>
      env_ok X ''REPLICATION_BATCH_MAX_ENTRIES'' Atoi \<and> env_ok X ''ELECTION_TIMEOUT_MIN_MS'' Atoi \<and>
      env_ok X ''ELECTION_TIMEOUT_MAX_MS'' Atoi \<and> env_ok X ''HEARTBEAT_INTERVAL_MS'' Atoi \<and>
      env_ok X ''FSYNC_ON_APPEND'' ParseBool)"

lemma parsed_ms:
  "parsed var fn Atoi (\<lambda>n cfg. upd (milliseconds n) cfg) = parsed var fn (map_sum id milliseconds \<circ> Atoi) upd"
proof (intro ext)
  fix v cfg
  show "parsed var fn Atoi (\<lambda>n cfg. upd (milliseconds n) cfg) v cfg
    = parsed var fn (map_sum id milliseconds \<circ> Atoi) upd v cfg"
    by (cases "Atoi v") (simp_all add: parsed_def)
qed

lemma env_ok_ms: "env_ok X var (map_sum id milliseconds \<circ> Atoi) = env_ok X var Atoi"
  by (simp add: env_ok_def isl_map_sum)

lemmas env_steps =
  env_step_text[of "\<lambda>v. cfgNodeID_update (\<lambda>_. v)" cfgNodeID]
  env_step_text[of "\<lambda>v. cfgRaftAddr_update (\<lambda>_. v)" cfgRaftAddr]
  env_step_text[of "\<lambda>v. cfgClientAddr_update (\<lambda>_. v)" cfgClientAddr]
  env_step_text[of "\<lambda>v. cfgDataDir_update (\<lambda>_. v)" cfgDataDir]
  env_step_peers
  env_step_parsed[of "\<lambda>v. cfgSnapshotThreshold_update (\<lambda>_. v)" cfgSnapshotThreshold]
  env_step_parsed[of "\<lambda>v. cfgReplicationBatchMaxEntries_update (\<lambda>_. v)" cfgReplicationBatchMaxEntries]
  env_step_parsed[of "\<lambda>v. cfgElectionTimeoutMin_update (\<lambda>_. v)" cfgElectionTimeoutMin]
  env_step_parsed[of "\<lambda>v. cfgElectionTimeoutMax_update (\<lambda>_. v)" cfgElectionTimeoutMax]
  env_step_parsed[of "\<lambda>v. cfgHeartbeatInterval_update (\<lambda>_. v)" cfgHeartbeatInterval]
  env_step_parsed[of "\<lambda>v. cfgFsyncOnAppend_update (\<lambda>_. v)" cfgFsyncOnAppend]

lemma settings_ms:
  "parsed ''ELECTION_TIMEOUT_MIN_MS'' ''Atoi'' Atoi (\<lambda>n cfg. cfg\<lparr>cfgElectionTimeoutMin := milliseconds n\<rparr>)
     = parsed ''ELECTION_TIMEOUT_MIN_MS'' ''Atoi'' (map_sum id milliseconds \<circ> Atoi) (\<lambda>v cfg. cfg\<lparr>cfgElectionTimeoutMin := v\<rparr>)"
  "parsed ''ELECTION_TIMEOUT_MAX_MS'' ''Atoi'' Atoi (\<lambda>n cfg. cfg\<lparr>cfgElectionTimeoutMax := milliseconds n\<rparr>)
     = parsed ''ELECTION_TIMEOUT_MAX_MS'' ''Atoi'' (map_sum id milliseconds \<circ> Atoi) (\<lambda>v cfg. cfg\<lparr>cfgElectionTimeoutMax := v\<rparr>)"
  "parsed ''HEARTBEAT_INTERVAL_MS'' ''Atoi'' Atoi (\<lambda>n cfg. cfg\<lparr>cfgHeartbeatInterval := milliseconds n\<rparr>)
     = parsed ''HEARTBEAT_INTERVAL_MS'' ''Atoi'' (map_sum id milliseconds \<circ> Atoi) (\<lambda>v cfg. cfg\<lparr>cfgHeartbeatInterval := v\<rparr>)"
  by (rule parsed_ms)+

lemma load_env_iff: "load_env X base = Inr cfg \<longleftrightarrow> env_readable X \<and> cfg = env_config X base"
  unfolding load_env_def env_settings_def settings_ms
  by (auto simp: env_steps env_readable_def env_config_def env_ok_ms)


end
