(* ===== verification/Timer_Properties.thy ===== *)
theory Timer_Properties
  imports Startup_Properties Node_Proofs
begin

text \<open>
  The timer loop: the timeouts it draws lie in the configured interval, a reset really puts an
  election off, and a heartbeat interval that is not positive stops the node at its start.
\<close>

section \<open>A concrete configuration for the witnesses\<close>

definition ex_vars :: "(string \<times> string) list" where
  "ex_vars = [(''NODE_ID'', ''n1''), (''RAFT_ADDR'', '':9001''), (''CLIENT_ADDR'', '':9101'')]"

definition ex_environment :: "(string \<times> string) list \<Rightarrow> os_env" where
  "ex_environment vars =
     \<lparr>Getenv = (\<lambda>v. case map_of vars v of None \<Rightarrow> [] | Some x \<Rightarrow> x), ReadFile = (\<lambda>p. Inl ErrNotExist),
      Unmarshal = (\<lambda>b cfg. (cfg, None))\<rparr>"

definition ex_config :: config where
  "ex_config = defaultConfig\<lparr>cfgNodeID := ''n1'', cfgRaftAddr := '':9001'', cfgClientAddr := '':9101''\<rparr>"

lemma ex_Load: "Load (ex_environment ex_vars) = Inr ex_config"
  by (simp add: Load_def load_file_def load_env_def env_settings_def env_step_def ex_environment_def ex_vars_def
      check_config_def ex_config_def defaultConfig_def Millisecond_def)

definition ex_random :: rand_source where
  "ex_random = \<lparr>rsDraws = (\<lambda>i. 5), rsPos = 0\<rparr>"

definition ex_timer_node :: "memdb node" where
  "ex_timer_node = (ex_node ''n1'' [''n2'', ''n3''] ex_log0)\<lparr>nOpts := node_options ex_config\<rparr>"

section \<open>Random numbers\<close>

lemma unat_less_uint: "unat (v :: u64) < k \<longleftrightarrow> uint v < int k"
  by (simp only: uint_nat of_nat_less_iff)

lemma sint_pos: "0 < sint n \<Longrightarrow> sint (n :: u64) = uint n \<and> unat n < 2 ^ 63 \<and> 0 < unat n"
proof -
  assume p: "0 < sint n"
  have u: "uint n < 2 ^ 64" using unsigned_less[of n, where 'a = int] by simp
  have "sint n = take_bit 64 (uint n) - 2 ^ 64 * of_bool (bit (uint n) 63)"
    by (simp add: sint_uint signed_take_bit_eq_take_bit_minus)
  then have s: "sint n = uint n"
    using p u by (auto simp: take_bit_int_eq_self split: if_splits)
  moreover have "sint n < 2 ^ 63" using sint_lt[of n] by simp
  moreover have "n \<noteq> 0" using p by auto
  ultimately show ?thesis by (simp add: unat_less_uint unat_gt_0)
qed

lemma sint_small: "unat (v :: u64) < 2 ^ 63 \<Longrightarrow> sint v = uint v"
proof -
  assume "unat v < 2 ^ 63"
  then have "uint v < 2 ^ 63" by (simp add: unat_less_uint)
  moreover have "- (2 ^ 63) \<le> uint v" by (rule order.trans[OF _ uint_ge_0]) simp
  ultimately have "signed_take_bit 63 (uint v) = uint v" by (rule signed_take_bit_int_eq_self[rotated])
  then show ?thesis by (simp add: sint_uint)
qed

lemma draw_upto_bound: "draw_upto hi r = Some (r', v) \<Longrightarrow> v \<le> hi"
proof -
  assume "draw_upto hi r = Some (r', v)"
  then have "snd (r', v) \<le> hi"
    by (rule draw_upto.raw_induct[where P = "\<lambda>hi r x. snd x \<le> hi", rotated]) (auto split: if_splits)
  then show ?thesis by simp
qed

lemma Int63n_less: "Int63n r n = Some (r', v) \<Longrightarrow> v < n"
proof -
  assume r: "Int63n r n = Some (r', v)"
  then have "n \<noteq> 0" by (auto simp: Int63n_def split: if_splits)
  then have n: "0 < unat n" by (simp add: unat_gt_0)
  have "x AND (n - 1) < n" for x
  proof -
    have "unat (x AND (n - 1)) \<le> unat n - 1"
      using word_and_le1[of x "n - 1"] \<open>n \<noteq> 0\<close> by (simp add: word_le_nat_alt unat_minus_one)
    then show ?thesis using n by (simp add: word_less_nat_alt)
  qed
  moreover have "x mod n < n" for x
    using n by (simp add: word_less_nat_alt unat_mod)
  ultimately show ?thesis using r by (cases "Int63 r") (auto simp: Int63n_def split: if_splits)
qed

text \<open>A draw in the lower half is accepted whatever the bound, so such a draw ends the loop.\<close>

lemma draw_upto_returns:
  "rsDraws r (rsPos r + k) AND mask 63 \<le> hi \<Longrightarrow> \<exists>x. draw_upto hi r = Some x"
proof (induction k arbitrary: r)
  case 0
  then show ?case by (subst draw_upto.simps) (simp add: Int63_def not_less[symmetric])
next
  case (Suc k)
  have "\<exists>x. draw_upto hi (fst (Int63 r)) = Some x" by (rule Suc.IH) (use Suc.prems in \<open>simp add: Int63_def\<close>)
  then show ?case by (subst draw_upto.simps) simp
qed

lemma mod_half: "0 < n \<Longrightarrow> n < 2 * h \<Longrightarrow> (2 * h) mod n \<le> (h :: nat)"
proof (cases "n \<le> h")
  case False
  assume n: "0 < n" "n < 2 * h"
  then have "(2 * h) mod n = (2 * h - n) mod n" by (simp add: le_mod_geq)
  also have "\<dots> \<le> 2 * h - n" by simp
  finally show ?thesis using False by linarith
qed (use mod_less_divisor[of n "2 * h"] in linarith)

lemma half_accepted:
  assumes "0 < sint n" and "unat v < 2 ^ 62"
  shows "v \<le> 2 ^ 63 - 1 - 2 ^ 63 mod (n :: u64)"
proof -
  have n: "unat n < 2 ^ 63" "0 < unat n" using sint_pos[OF assms(1)] by auto
  have m: "unat (2 ^ 63 mod n :: u64) \<le> 2 ^ 62"
    using mod_half[of "unat n" "2 ^ 62"] n by (simp add: unat_mod)
  have "unat (2 ^ 63 - 1 - 2 ^ 63 mod n :: u64) = 2 ^ 63 - 1 - unat (2 ^ 63 mod n :: u64)"
    by (subst unat_sub) (use m in \<open>simp_all add: word_le_nat_alt\<close>)
  then show ?thesis using assms(2) m by (simp add: word_le_nat_alt)
qed

section \<open>Election timeouts\<close>

lemma random_timeout_returns:
  assumes "unat (rsDraws r (rsPos r + k) AND mask 63) < 2 ^ 62"
  shows "\<exists>x. random_timeout r opts = Some x"
proof -
  have "\<exists>x. Int63n r n = Some x" if n: "0 < sint n" for n
    using draw_upto_returns[OF half_accepted[OF n assms]] n by (auto simp: Int63n_def)
  then show ?thesis by (force simp: random_timeout_def electionTimeout_def)
qed

lemma sint_plus_fits: "- (2 ^ 63) \<le> sint a + sint b \<Longrightarrow> sint a + sint b < 2 ^ 63 \<Longrightarrow> sint (a + b :: u64) = sint a + sint b"
  by (simp only: sint_word_ariths) (simp add: signed_take_bit_int_eq_self)

lemma sint_minus_fits: "- (2 ^ 63) \<le> sint a - sint b \<Longrightarrow> sint a - sint b < 2 ^ 63 \<Longrightarrow> sint (a - b :: u64) = sint a - sint b"
  by (simp only: sint_word_ariths) (simp add: signed_take_bit_int_eq_self)

lemma random_timeout_range:
  fixes opts :: options
  defines "lo \<equiv> ElectionTimeoutMin opts" and "hi \<equiv> ElectionTimeoutMax opts"
  assumes lt: "sint lo < sint hi" and fits: "sint hi - sint lo < 2 ^ 63"
    and r: "random_timeout r opts = Some (r', d)"
  shows "sint lo \<le> sint d" and "sint d < sint hi"
proof -
  have span: "sint (hi - lo) = sint hi - sint lo" by (rule sint_minus_fits) (use lt fits in simp_all)
  then have pos: "0 < sint (hi - lo)" using lt by simp
  obtain v where v: "Int63n r (hi - lo) = Some (r', v)" and d: "d = lo + v"
    using r pos by (auto simp: random_timeout_def electionTimeout_def lo_def hi_def)
  have less: "v < hi - lo" by (rule Int63n_less[OF v])
  then have "unat v < unat (hi - lo)" by (simp add: word_less_nat_alt)
  then have "sint v = uint v" using sint_small[of v] sint_pos[OF pos] by simp
  moreover have "uint v < uint (hi - lo)" using less by (simp only: word_less_def)
  ultimately have bounds: "0 \<le> sint v" "sint v < sint hi - sint lo" using sint_pos[OF pos] span by simp_all
  have "sint d = sint lo + sint v"
    unfolding d by (rule sint_plus_fits) (use bounds sint_ge[of lo] sint_lt[of hi] in simp_all)
  then show "sint lo \<le> sint d" "sint d < sint hi" using bounds by simp_all
qed

text \<open>
  C30. Every election timeout is drawn from the configured interval. For a node that runs on the
  options of a configuration that \<^verbatim>\<open>Load\<close> accepted, with a shorter timeout that is not negative, the
  timer is armed at the start of \<^verbatim>\<open>runTimerLoop\<close>, after a reset and after an election with a duration
  of at least the shorter timeout and less than the longer. Arming it returns as soon as the random
  source yields a draw in its lower half.
\<close>

theorem timeouts_in_range:
  fixes E :: "'d engine"
  assumes load: "Load X = Inr cfg" and nonneg: "0 \<le> sint (cfgElectionTimeoutMin cfg)"
  shows "(\<forall>r (n :: 'd node) lp. runTimerLoop_start r n = Some lp \<and> nOpts n = node_options cfg \<longrightarrow>
        sint (cfgElectionTimeoutMin cfg) \<le> sint (tlTimeout lp) \<and> sint (tlTimeout lp) < sint (cfgElectionTimeoutMax cfg)) \<and>
      (\<forall>lp lp' ev sched. timer_event_step E C T ev lp = Some lp' \<and> ev \<in> {ResetCase, TimeoutCase sched} \<and>
        nOpts (tlNode lp') = node_options cfg \<longrightarrow>
        tlArmed lp' \<and> sint (cfgElectionTimeoutMin cfg) \<le> sint (tlTimeout lp') \<and>
        sint (tlTimeout lp') < sint (cfgElectionTimeoutMax cfg)) \<and>
      (\<forall>(lp :: 'd timer_loop) k. unat (rsDraws (tlRand lp) (rsPos (tlRand lp) + k) AND mask 63) < 2 ^ 62 \<longrightarrow> timer_Reset lp \<noteq> None)"
proof -
  have lt: "sint (cfgElectionTimeoutMin cfg) < sint (cfgElectionTimeoutMax cfg)"
    using load by (auto simp: Load_def check_config_def split: sum.splits if_splits)
  have fits: "sint (cfgElectionTimeoutMax cfg) - sint (cfgElectionTimeoutMin cfg) < 2 ^ 63"
    using sint_lt[of "cfgElectionTimeoutMax cfg"] nonneg by simp
  have range: "sint (cfgElectionTimeoutMin cfg) \<le> sint d \<and> sint d < sint (cfgElectionTimeoutMax cfg)"
    if "random_timeout q (node_options cfg) = Some (q', d)" for q q' d
    using random_timeout_range[OF _ _ that] lt fits by (simp add: node_options_def)
  have reset: "tlArmed lp' \<and> sint (cfgElectionTimeoutMin cfg) \<le> sint (tlTimeout lp') \<and>
      sint (tlTimeout lp') < sint (cfgElectionTimeoutMax cfg)"
    if "timer_Reset q = Some lp'" "nOpts (tlNode lp') = node_options cfg" for q lp' :: "'d timer_loop"
    using that range by (auto simp: timer_Reset_def)
  have start: "sint (cfgElectionTimeoutMin cfg) \<le> sint (tlTimeout lp) \<and> sint (tlTimeout lp) < sint (cfgElectionTimeoutMax cfg)"
    if "runTimerLoop_start r n = Some lp" "nOpts n = node_options cfg" for r lp and n :: "'d node"
    using that range by (auto simp: runTimerLoop_start_def split: option.splits if_splits)
  have step: "tlArmed lp' \<and> sint (cfgElectionTimeoutMin cfg) \<le> sint (tlTimeout lp') \<and>
      sint (tlTimeout lp') < sint (cfgElectionTimeoutMax cfg)"
    if st: "timer_event_step E C T ev lp = Some lp'" "ev \<in> {ResetCase, TimeoutCase sched}"
      "nOpts (tlNode lp') = node_options cfg" for ev sched lp lp'
  proof -
    obtain q where "timer_Reset q = Some lp'"
      using st(1,2) by (auto simp: timer_event_step_def on_reset_def on_timeout_def Let_def bind_eq_Some_conv
          split: if_splits prod.splits)
    then show ?thesis using reset st(3) by blast
  qed
  have "timer_Reset lp \<noteq> None"
    if "unat (rsDraws (tlRand lp) (rsPos (tlRand lp) + k) AND mask 63) < 2 ^ 62" for lp :: "'d timer_loop" and k
    using random_timeout_returns[OF that] by (auto simp: timer_Reset_def)
  then show ?thesis using start step by blast
qed

lemma ex_draw: "unat (rsDraws ex_random (rsPos ex_random + 0) AND mask 63) < 2 ^ 62"
  by (simp add: ex_random_def flip: take_bit_eq_mask)

lemma ex_timer_starts: "\<exists>lp. runTimerLoop_start ex_random ex_timer_node = Some lp"
  using random_timeout_returns[OF ex_draw, of "nOpts ex_timer_node"]
  by (auto simp: runTimerLoop_start_def ex_timer_node_def node_options_def ex_config_def defaultConfig_def
      Millisecond_def)

theorem timeouts_in_range_witness:
  "\<exists>lp. runTimerLoop_start ex_random ex_timer_node = Some lp \<and> 300000000 \<le> sint (tlTimeout lp) \<and>
     sint (tlTimeout lp) < 600000000"
proof -
  obtain lp where lp: "runTimerLoop_start ex_random ex_timer_node = Some lp" using ex_timer_starts by blast
  have c: "sint (cfgElectionTimeoutMin ex_config) = 300000000" "sint (cfgElectionTimeoutMax ex_config) = 600000000"
    by (simp_all add: ex_config_def defaultConfig_def Millisecond_def)
  have "nOpts ex_timer_node = node_options ex_config" by (simp add: ex_timer_node_def)
  then show ?thesis using timeouts_in_range[OF ex_Load, of sureE gob_codec] lp c by auto
qed

section \<open>Resetting the timer\<close>

lemma timer_Reset_fields:
  "timer_Reset lp = Some lp' \<Longrightarrow> tlArmed lp' \<and> tlFired lp' = tlFired lp"
  by (auto simp: timer_Reset_def)

lemma timer_event_armed:
  assumes "timer_event_step E C T ev lp = Some lp'" and "\<not> (tlArmed lp \<and> tlFired lp)"
  shows "\<not> (tlArmed lp' \<and> tlFired lp')"
  using assms
  by (cases ev) (auto simp: timer_event_step_def on_reset_def on_timeout_def on_heartbeat_def timer_Stop_def Let_def
      bind_eq_Some_conv split: if_splits dest!: timer_Reset_fields)

lemma timer_run_armed:
  "timer_run E C T evs lp = Some lp' \<Longrightarrow> \<not> (tlArmed lp \<and> tlFired lp) \<Longrightarrow> \<not> (tlArmed lp' \<and> tlFired lp')"
proof (induction evs arbitrary: lp)
  case (Cons ev evs)
  then obtain lp1 where "timer_event_step E C T ev lp = Some lp1" "timer_run E C T evs lp1 = Some lp'"
    by (auto simp: bind_eq_Some_conv)
  then show ?case using Cons.IH timer_event_armed Cons.prems(2) by blast
qed simp

lemma timer_run_append:
  "timer_run E C T (evs @ evs') lp = Option.bind (timer_run E C T evs lp) (timer_run E C T evs')"
  by (induction evs arbitrary: lp) (auto split: bind_splits)

lemma not_fired_step:
  assumes "timer_event_step E C T ev lp = Some lp'" and "\<not> tlFired lp" and "ev \<noteq> Expires"
  shows "\<not> tlFired lp'"
  using assms
  by (cases ev) (auto simp: timer_event_step_def on_reset_def on_heartbeat_def timer_Stop_def Let_def
      split: if_splits dest!: timer_Reset_fields)

lemma not_fired_run:
  "timer_run E C T evs lp = Some lp' \<Longrightarrow> \<not> tlFired lp \<Longrightarrow> Expires \<notin> set evs \<Longrightarrow> \<not> tlFired lp'"
proof (induction evs arbitrary: lp)
  case (Cons ev evs)
  then obtain lp1 where "timer_event_step E C T ev lp = Some lp1" "timer_run E C T evs lp1 = Some lp'"
    by (auto simp: bind_eq_Some_conv)
  then show ?case using Cons not_fired_step by (metis list.set_intros)
qed simp

text \<open>
  C31. Once the timer loop has taken a reset, it does not take its timeout case again, and so starts no
  election, before the timer has expired anew, in any order of the other events: an expiry from before
  the reset that is still in the timer's channel is drained.
\<close>

theorem reset_suppresses_election:
  assumes run: "runTimerLoop E C T before r n = Some lp0"
    and reset: "timer_event_step E C T ResetCase lp0 = Some lp"
    and election: "timer_run E C T (evs @ [TimeoutCase sched]) lp = Some lp'"
  shows "Expires \<in> set evs"
proof (rule ccontr)
  assume no: "Expires \<notin> set evs"
  obtain ls where ls: "runTimerLoop_start r n = Some ls" "timer_run E C T before ls = Some lp0"
    using run by (auto simp: runTimerLoop_def bind_eq_Some_conv)
  have "\<not> (tlArmed ls \<and> tlFired ls)"
    using ls(1) by (auto simp: runTimerLoop_start_def split: option.splits if_splits)
  then have "\<not> (tlArmed lp0 \<and> tlFired lp0)" by (rule timer_run_armed[OF ls(2)])
  then have "\<not> tlFired lp"
    using reset by (auto simp: timer_event_step_def on_reset_def timer_Stop_def Let_def split: if_splits
        dest!: timer_Reset_fields)
  moreover obtain lp1 where lp1: "timer_run E C T evs lp = Some lp1" "tlFired lp1"
    using election by (auto simp: timer_run_append bind_eq_Some_conv timer_event_step_def split: if_splits)
  ultimately show False using not_fired_run[OF lp1(1)] no by blast
qed

definition ex_no_transport :: "memdb transport" where
  "ex_no_transport =
     \<lparr>tRequestVote = (\<lambda>p req n. (n, Inl ErrCanceled)), tAppendEntries = (\<lambda>p req n. (n, Inl ErrCanceled)),
      tInstallSnapshot = (\<lambda>p req n. (n, Inl ErrCanceled))\<rparr>"

definition ex_reset_node :: "memdb node" where
  "ex_reset_node = (ex_node ''n1'' [''n2'', ''n3''] ex_log0)\<lparr>nOpts := ex_opts\<lparr>ElectionTimeoutMin := 100,
     ElectionTimeoutMax := 164, HeartbeatInterval := 10\<rparr>, nElectionReset := True\<rparr>"

lemma ex_reset_timeout:
  assumes "nOpts n = nOpts ex_reset_node"
  shows "random_timeout \<lparr>rsDraws = (\<lambda>i. 5), rsPos = k\<rparr> (nOpts n) = Some (\<lparr>rsDraws = (\<lambda>i. 5), rsPos = Suc k\<rparr>, 105)"
  by (simp add: assms random_timeout_def electionTimeout_def Int63n_def Int63_def ex_reset_node_def
      ex_opts_def flip: take_bit_eq_mask)

lemma ex_reset_fields:
  "nElectionReset ex_reset_node" "nRole ex_reset_node = Follower" "nPeers ex_reset_node = [\<lparr>piID = ''n2''\<rparr>, \<lparr>piID = ''n3''\<rparr>]"
  "sint (HeartbeatInterval (nOpts ex_reset_node)) = 10"
  by (simp_all add: ex_reset_node_def)

lemma ex_election:
  assumes "length (nPeers n) = 2"
  shows "\<exists>n'. startElection sureE gob_codec ex_no_transport (\<lambda>rs. []) n = Some n' \<and> nOpts n' = nOpts n"
proof -
  have r: "fst (request_votes ex_no_transport req ps m) = m" for req ps m
    by (induction ps) (auto simp: ex_no_transport_def split: prod.splits)
  show ?thesis
    using assms r
    by (auto simp: startElection_def becomeCandidate_def becomeCandidate_set_def resetElectionTimer_def Let_def
        case_prod_beta)
qed

abbreviation ex_loop :: "memdb node \<Rightarrow> nat \<Rightarrow> bool \<Rightarrow> bool \<Rightarrow> memdb timer_loop" where
  "ex_loop n k armed tick \<equiv> \<lparr>tlNode = n, tlRand = \<lparr>rsDraws = (\<lambda>i. 5), rsPos = k\<rparr>, tlTimeout = 105,
     tlArmed = armed, tlFired = \<not> armed, tlTick = tick\<rparr>"

theorem reset_suppresses_election_witness:
  "\<exists>lp0 lp lp' s. runTimerLoop sureE gob_codec ex_no_transport [Expires] ex_random ex_reset_node = Some lp0 \<and>
     timer_event_step sureE gob_codec ex_no_transport ResetCase lp0 = Some lp \<and>
     timer_run sureE gob_codec ex_no_transport ([Ticks, Expires] @ [TimeoutCase s]) lp = Some lp' \<and>
     (Expires :: memdb timer_event) \<in> set [Ticks, Expires]"
proof -
  let ?n = "ex_reset_node\<lparr>nElectionReset := False\<rparr>"
  have lp0: "runTimerLoop sureE gob_codec ex_no_transport [Expires] ex_random ex_reset_node
      = Some (ex_loop ex_reset_node 1 False False)"
    using ex_reset_timeout[of ex_reset_node 0] ex_reset_fields(4)
    by (simp add: runTimerLoop_def runTimerLoop_start_def timer_event_step_def ex_random_def)
  have lp: "timer_event_step sureE gob_codec ex_no_transport ResetCase (ex_loop ex_reset_node 1 False False)
      = Some (ex_loop ?n 2 True False)"
    using ex_reset_timeout[of ?n 1] ex_reset_fields(1)
    by (simp add: timer_event_step_def on_reset_def timer_Stop_def timer_Reset_def numeral_2_eq_2)
  obtain n' where n': "startElection sureE gob_codec ex_no_transport (\<lambda>rs. []) ?n = Some n'" "nOpts n' = nOpts ?n"
    using ex_election[of ?n] ex_reset_fields(3) by auto
  have lp': "timer_run sureE gob_codec ex_no_transport ([Ticks, Expires] @ [TimeoutCase (\<lambda>rs. [])]) (ex_loop ?n 2 True False)
      = Some (ex_loop n' 3 True True)"
    using ex_reset_timeout[of n' 2] n' ex_reset_fields(2)
    by (simp add: timer_event_step_def on_timeout_def timer_Reset_def numeral_3_eq_3 numeral_2_eq_2)
  show ?thesis using lp0 lp lp' reset_suppresses_election[OF lp0 lp lp'] by blast
qed

text \<open>
  C40. \<^verbatim>\<open>Load\<close> accepts a heartbeat interval of zero, but \<^verbatim>\<open>time.NewTicker\<close> panics on it: a node whose
  environment sets \<^verbatim>\<open>HEARTBEAT_INTERVAL_MS\<close> to \<^verbatim>\<open>0\<close> gets its configuration and dies when it starts its
  timer loop.
\<close>

theorem zero_heartbeat_panics:
  assumes load: "Load X = Inr cfg" and zero: "Getenv X ''HEARTBEAT_INTERVAL_MS'' = ''0''"
    and opts: "nOpts n = node_options cfg"
  shows "Start r n = None"
proof -
  obtain base where "cfg = env_config X base"
    using load load_env_iff by (auto simp: Load_def check_config_def split: sum.splits if_splits)
  then have "HeartbeatInterval (nOpts n) = 0"
    using zero by (simp add: opts node_options_def env_config_def env_value_def Atoi_def milliseconds_def)
  then show ?thesis by (simp add: Start_def runTimerLoop_start_def split: option.splits prod.splits)
qed

theorem zero_heartbeat_panics_witness:
  "\<exists>cfg. Load (ex_environment ((''HEARTBEAT_INTERVAL_MS'', ''0'') # ex_vars)) = Inr cfg \<and>
     Start ex_random (ex_reset_node\<lparr>nOpts := node_options cfg\<rparr>) = None"
proof -
  let ?X = "ex_environment ((''HEARTBEAT_INTERVAL_MS'', ''0'') # ex_vars)"
  have l: "Load ?X = Inr (ex_config\<lparr>cfgHeartbeatInterval := 0\<rparr>)"
    by (simp add: Load_def load_file_def load_env_def env_settings_def env_step_def ex_environment_def ex_vars_def
        parsed_def Atoi_def milliseconds_def check_config_def ex_config_def defaultConfig_def Millisecond_def)
  moreover have "Getenv ?X ''HEARTBEAT_INTERVAL_MS'' = ''0''" by (simp add: ex_environment_def)
  ultimately have "Start ex_random (ex_reset_node\<lparr>nOpts := node_options (ex_config\<lparr>cfgHeartbeatInterval := 0\<rparr>)\<rparr>) = None"
    by (rule zero_heartbeat_panics) simp
  then show ?thesis using l by blast
qed

end
