(* ===== verification/Node_Invariants.thy ===== *)
theory Node_Invariants
  imports Waiters Timers Client_Properties
begin

text \<open>
  What is true of a node at every moment: it is well-formed (\<open>node_ok\<close>), and a commit index ahead of the
  applied index never goes unnoticed by the apply loop (\<open>signalled\<close>). Both are kept by every section
  that runs under the node's mutex, in any order (\<open>node_step\<close>).
\<close>

section \<open>Well-formed nodes\<close>

text \<open>
  The maps of indices are maps, and on a leader they have an entry for every peer, so that reading them
  never gives the zero of an absent key; nothing is applied that is not committed; the reads that wait
  have channels of their own that are still open, so that closing them cannot panic.
\<close>

definition node_ok :: "'d node \<Rightarrow> bool" where
  "node_ok n =
     (gomap_ok (nNextIndex n) \<and> gomap_ok (nMatchIndex n) \<and>
      (nRole n = Leader \<longrightarrow> (\<forall>p \<in> set (nPeers n).
         map_of (nNextIndex n) (piID p) \<noteq> None \<and> map_of (nMatchIndex n) (piID p) \<noteq> None)) \<and>
      nLastApplied n \<le> nCommitIndex n \<and>
      distinct (map doneChan (nPendingReads n)) \<and> distinct (nClosed n) \<and>
      (\<forall>ch \<in> doneChan ` set (nPendingReads n). ch < nNextChan n \<and> ch \<notin> set (nClosed n)) \<and>
      (\<forall>ch \<in> set (nClosed n). ch < nNextChan n))"

text \<open>A step that leaves what \<^const>\<open>node_ok\<close> speaks about, and makes no leader.\<close>

definition same_books :: "'d node \<Rightarrow> 'd node \<Rightarrow> bool" where
  "same_books n n' =
     (nNextIndex n' = nNextIndex n \<and> nMatchIndex n' = nMatchIndex n \<and> nPeers n' = nPeers n \<and>
      nLastApplied n' = nLastApplied n \<and> nCommitIndex n' = nCommitIndex n \<and>
      nPendingReads n' = nPendingReads n \<and> nNextChan n' = nNextChan n \<and> nClosed n' = nClosed n \<and>
      nCommitAdvanced n' = nCommitAdvanced n \<and> (nRole n' = Leader \<longrightarrow> nRole n = Leader))"

lemma same_books_ok: "same_books n n' \<Longrightarrow> node_ok n \<Longrightarrow> node_ok n'"
  by (auto simp: same_books_def node_ok_def)

lemma same_books_refl [simp]: "same_books n n"
  by (simp add: same_books_def)

lemma same_books_trans: "same_books n m \<Longrightarrow> same_books m n' \<Longrightarrow> same_books n n'"
  by (auto simp: same_books_def)

lemma set_term_books [simp]: "same_books n (set_term_and_vote E t v n)"
  by (simp add: same_books_def set_term_and_vote_def)

lemma failStale_books [simp]: "same_books n (failStaleWritersLocked n)"
proof -
  obtain w b where "failStaleWritersLocked n = n\<lparr>nWriteWaiters := w, nBuffers := b\<rparr>"
    using fail_writers_frame[of "nWriteWaiters n" n] by (auto simp: failStaleWritersLocked_def)
  then show ?thesis by (simp add: same_books_def)
qed

lemma becomeFollower_books: "same_books n (becomeFollower E n t l a)"
proof -
  let ?n = "n\<lparr>nRole := Follower, nLeaderID := l, nLeaderClientAddr := a\<rparr>"
  have "same_books n ?n" by (simp add: same_books_def)
  then have "same_books n (if nRole n = Leader then failStaleWritersLocked ?n else ?n)"
    using same_books_trans[OF _ failStale_books] by auto
  then show ?thesis
    using same_books_trans[OF _ set_term_books] by (auto simp: becomeFollower_def Let_def)
qed

lemma HandleRequestVote_books: "HandleRequestVote E C n req = (n', resp) \<Longrightarrow> same_books n n'"
proof -
  assume h: "HandleRequestVote E C n req = (n', resp)"
  have f: "same_books n (m\<lparr>nRole := Follower, nLeaderID := [], nLeaderClientAddr := []\<rparr>)" if "same_books n m" for m
    using that by (simp add: same_books_def)
  have p: "same_books n (vote_prepare E n (rvTerm req))"
    using f[OF failStale_books] f[OF same_books_refl] same_books_trans[OF _ set_term_books]
    by (auto simp: vote_prepare_def Let_def)
  have u: "same_books n (unlockedResetElectionTimer m)" if "same_books n m" for m
    using that by (simp add: same_books_def unlockedResetElectionTimer_def)
  show ?thesis
    using h p u[OF same_books_trans[OF p set_term_books]] by (auto simp: HandleRequestVote_alt Let_def split: if_splits)
qed

lemma HandleAppendEntries_term_books:
  assumes h: "HandleAppendEntries_term E n req = Inr (n1, t)"
  shows "same_books n n1"
proof -
  define k where "k = (if nRole n = Leader then failStaleWritersLocked n else n)"
  define m where "m = (if aeTerm req > currentTerm (nLog n)
    then set_term_and_vote E (aeTerm req) [] (k\<lparr>nRole := Follower\<rparr>)
    else if nRole n = Candidate then n\<lparr>nRole := Follower\<rparr> else n)"
  have "same_books n k" by (simp add: k_def)
  then have "same_books n (k\<lparr>nRole := Follower\<rparr>)" by (simp add: same_books_def)
  then have "same_books n (set_term_and_vote E (aeTerm req) [] (k\<lparr>nRole := Follower\<rparr>))"
    by (rule same_books_trans[OF _ set_term_books])
  moreover have "same_books n (n\<lparr>nRole := Follower\<rparr>)" by (simp add: same_books_def)
  ultimately have m: "same_books n m" by (simp add: m_def)
  have "n1 = resetElectionTimer (m\<lparr>nLeaderID := aeLeaderID req, nLeaderClientAddr := aeLeaderClientAddr req\<rparr>)"
    using h unfolding HandleAppendEntries_term_def Let_def k_def[symmetric]
    by (cases "aeTerm req < currentTerm (nLog n)"; cases "aeTerm req > currentTerm (nLog n)"; cases "nRole n = Candidate")
      (simp_all add: m_def)
  then show ?thesis using m by (simp add: same_books_def resetElectionTimer_def)
qed

text \<open>The accepting part: the commit index can only grow, and growing it sets the signal.\<close>

definition commit_grows :: "'d node \<Rightarrow> 'd node \<Rightarrow> bool" where
  "commit_grows n n' =
     (\<exists>m. same_books n m \<and> same_books (m\<lparr>nCommitIndex := nCommitIndex n', nCommitAdvanced := nCommitAdvanced n'\<rparr>) n' \<and>
      nCommitIndex n \<le> nCommitIndex n' \<and>
      (nCommitAdvanced n \<longrightarrow> nCommitAdvanced n') \<and> (nCommitIndex n' \<noteq> nCommitIndex n \<longrightarrow> nCommitAdvanced n'))"

lemma commit_grows_ok:
  assumes "commit_grows n n'" and "node_ok n"
  shows "node_ok n'"
proof -
  obtain m where m: "same_books n m" "nCommitIndex n \<le> nCommitIndex n'"
    and n': "same_books (m\<lparr>nCommitIndex := nCommitIndex n', nCommitAdvanced := nCommitAdvanced n'\<rparr>) n'"
    using assms(1) by (auto simp: commit_grows_def)
  have ok: "node_ok m" by (rule same_books_ok[OF m(1) assms(2)])
  have "nLastApplied m \<le> nCommitIndex n'"
    using m assms(2) by (auto simp: same_books_def node_ok_def)
  then have "node_ok (m\<lparr>nCommitIndex := nCommitIndex n', nCommitAdvanced := nCommitAdvanced n'\<rparr>)"
    using ok by (simp add: node_ok_def)
  then show ?thesis by (rule same_books_ok[OF n'])
qed

lemma books_grow: "same_books n n' \<Longrightarrow> commit_grows n n'"
  unfolding commit_grows_def by (rule exI[of _ n']) (auto simp: same_books_def)

lemma advance_commit_grows: "same_books n m \<Longrightarrow> commit_grows n (advance_commit m c)"
  unfolding commit_grows_def
  by (rule exI[of _ m]) (auto simp: same_books_def advance_commit_def signalCommitAdvanced_def Let_def)

lemma tryAdvance_grows: "commit_grows n (tryAdvanceCommitIndex E C n t)"
  unfolding commit_grows_def
  by (rule exI[of _ n]) (auto simp: same_books_def tryAdvanceCommitIndex_def signalCommitAdvanced_def)

lemma HandleAppendEntries_grows:
  assumes h: "HandleAppendEntries E C n req = Some (n', resp)"
  shows "commit_grows n n'"
proof (cases "HandleAppendEntries_term E n req")
  case (Inl m)
  then have "n' = n" using h by (auto simp: HandleAppendEntries_def HandleAppendEntries_term_def Let_def split: if_splits prod.splits)
  then show ?thesis by (simp add: books_grow)
next
  case (Inr p)
  obtain n1 t where p: "p = (n1, t)" by force
  have s: "same_books n n1" by (rule HandleAppendEntries_term_books[OF Inr[unfolded p]])
  have l: "same_books n (n1\<lparr>nLog := pl\<rparr>)" for pl using s by (simp add: same_books_def)
  have "n' = n1 \<or> n' = advance_commit n1 (aeLeaderCommit req) \<or>
      (\<exists>pl. n' = n1\<lparr>nLog := pl\<rparr> \<or> n' = advance_commit (n1\<lparr>nLog := pl\<rparr>) (aeLeaderCommit req))"
    using h Inr p by (auto simp: HandleAppendEntries_def Let_def split: option.splits bind_splits prod.splits if_splits)
  then show ?thesis
    using books_grow[OF s] advance_commit_grows[OF s] books_grow[OF l] advance_commit_grows[OF l] by metis
qed

section \<open>Installing snapshots and applying\<close>

lemma install_snapshot_shape:
  assumes "install_snapshot E C n req = Some n'"
  obtains st sm pl where "n' = n\<lparr>nSnapStore := st, nSM := sm, nLog := pl\<rparr>"
  | st sm pl where "n' = n\<lparr>nSnapStore := st, nSM := sm, nLog := pl, nLastApplied := isLastIncludedIndex req,
      nCommitIndex := isLastIncludedIndex req\<rparr>"
proof -
  obtain st r where ll: "LoadLatest C (nSnapStore n) = (st, r)" by force
  define stale where "stale = (case r of Inr (Some (snap, meta)) \<Rightarrow> smLastIncludedIndex meta \<ge> isLastIncludedIndex req | _ \<Rightarrow> False)"
  show thesis
  proof (cases "stale \<or> (\<exists>err. UnmarshalSnapshot C (isData req) = Inl err)")
    case True
    then have "n' = n\<lparr>nSnapStore := st\<rparr>"
      using assms ll by (auto simp: install_snapshot_def Let_def stale_def split: if_splits)
    then have "n' = n\<lparr>nSnapStore := st, nSM := nSM n, nLog := nLog n\<rparr>" by simp
    then show thesis by (rule that(1))
  next
    case False
    then obtain snap where snap: "UnmarshalSnapshot C (isData req) = Inr snap" by (cases "UnmarshalSnapshot C (isData req)") auto
    obtain st1 r1 where sv: "Save C st snap \<lparr>smLastIncludedIndex = isLastIncludedIndex req,
        smLastIncludedTerm = isLastIncludedTerm req\<rparr> = (st1, r1)" by force
    obtain sm r2 where rs: "Restore E (nSM n) snap (isLastIncludedIndex req) = (sm, r2)" by force
    have i: "install_snapshot E C n req = (case r1 of Some err \<Rightarrow> Some (n\<lparr>nSnapStore := st1\<rparr>)
      | None \<Rightarrow> (case r2 of Some err \<Rightarrow> Some (n\<lparr>nSnapStore := st1, nSM := sm\<rparr>)
        | None \<Rightarrow> map_option (\<lambda>(pl, err). let n = n\<lparr>nSnapStore := st1, nSM := sm, nLog := pl\<rparr>
            in if err \<noteq> None then n else n\<lparr>nLastApplied := isLastIncludedIndex req, nCommitIndex := isLastIncludedIndex req\<rparr>)
          (RestoreSnapshotBoundary E (nLog n) (isLastIncludedIndex req) (isLastIncludedTerm req))))"
      using False ll snap sv rs unfolding install_snapshot_def stale_def by (simp cong: option.case_cong)
    consider "n' = n\<lparr>nSnapStore := st1\<rparr>" | "n' = n\<lparr>nSnapStore := st1, nSM := sm\<rparr>"
      | pl where "n' = n\<lparr>nSnapStore := st1, nSM := sm, nLog := pl\<rparr>"
      | pl where "n' = n\<lparr>nSnapStore := st1, nSM := sm, nLog := pl, nLastApplied := isLastIncludedIndex req,
          nCommitIndex := isLastIncludedIndex req\<rparr>"
      using assms[unfolded i] by (cases r1; cases r2) (auto simp: Let_def split: if_splits)
    then show thesis
    proof cases
      case 1
      then have "n' = n\<lparr>nSnapStore := st1, nSM := nSM n, nLog := nLog n\<rparr>" by simp
      then show thesis by (rule that(1))
    next
      case 2
      then have "n' = n\<lparr>nSnapStore := st1, nSM := sm, nLog := nLog n\<rparr>" by simp
      then show thesis by (rule that(1))
    qed (rule that; assumption)+
  qed
qed

lemma install_snapshot_books:
  assumes "install_snapshot E C n req = Some n'"
  shows "same_books n n' \<or> same_books (n\<lparr>nLastApplied := isLastIncludedIndex req, nCommitIndex := isLastIncludedIndex req\<rparr>) n'"
  by (rule install_snapshot_shape[OF assms]) (simp_all add: same_books_def)

lemma HandleInstallSnapshot_books:
  assumes "HandleInstallSnapshot E C n req = Some (n', resp)"
  shows "same_books n n' \<or> same_books (n\<lparr>nLastApplied := isLastIncludedIndex req, nCommitIndex := isLastIncludedIndex req\<rparr>) n'"
proof (cases "isTerm req < currentTerm (nLog n)")
  case True
  then show ?thesis using assms by (simp add: HandleInstallSnapshot_def Let_def)
next
  case False
  define k where "k = (if isTerm req > currentTerm (nLog n) then set_term_and_vote E (isTerm req) [] n else n)"
  define m where "m = resetElectionTimer (k\<lparr>nRole := Follower, nLeaderID := isLeaderID req\<rparr>)"
  have "same_books n k" by (simp add: k_def)
  then have m: "same_books n m" by (simp add: m_def same_books_def resetElectionTimer_def)
  have "install_snapshot E C m req = Some n'"
    using assms False unfolding HandleInstallSnapshot_def Let_def k_def[symmetric] m_def by auto
  from install_snapshot_books[OF this] show ?thesis
    using m by (auto simp: same_books_def)
qed

lemma jump_ok: "node_ok n \<Longrightarrow> node_ok (n\<lparr>nLastApplied := i, nCommitIndex := i\<rparr>)"
  by (simp add: node_ok_def)

lemma maybeSnapshot_fields:
  "maybeSnapshot E C n i = Some n' \<Longrightarrow>
   nNextIndex n' = nNextIndex n \<and> nMatchIndex n' = nMatchIndex n \<and> nPeers n' = nPeers n \<and>
   nLastApplied n' = nLastApplied n \<and> nCommitIndex n' = nCommitIndex n \<and>
   nPendingReads n' = nPendingReads n \<and> nNextChan n' = nNextChan n \<and> nClosed n' = nClosed n \<and>
   nCommitAdvanced n' = nCommitAdvanced n \<and> nRole n' = nRole n"
  by (auto simp: maybeSnapshot_def Let_def split: sum.splits option.splits prod.splits if_splits)

lemma maybeSnapshot_books: "maybeSnapshot E C n i = Some n' \<Longrightarrow> same_books n n'"
  using maybeSnapshot_fields by (force simp: same_books_def)

lemma notify_books: "same_books n (notifyWritersLocked n i)"
  by (simp add: notifyWritersLocked_def same_books_def chan_send_def split: option.splits)

lemma satisfy_ok:
  assumes "node_ok n"
  shows "node_ok (satisfyPendingReadsLocked n)"
proof -
  let ?P = "\<lambda>pr. nLastApplied n \<ge> readIndex pr"
  let ?done = "map doneChan (filter ?P (nPendingReads n))" and ?left = "filter (\<lambda>pr. \<not> ?P pr) (nPendingReads n)"
  have d: "distinct (map doneChan (nPendingReads n))" and c: "distinct (nClosed n)"
    and open_chans: "\<And>pr. pr \<in> set (nPendingReads n) \<Longrightarrow> doneChan pr < nNextChan n \<and> doneChan pr \<notin> set (nClosed n)"
    and closed: "\<And>ch. ch \<in> set (nClosed n) \<Longrightarrow> ch < nNextChan n"
    using assms by (auto simp: node_ok_def)
  have apart: "doneChan a \<noteq> doneChan b" if "a \<in> set (nPendingReads n)" "b \<in> set (nPendingReads n)" "?P a" "\<not> ?P b" for a b
    using d that by (auto simp: distinct_map dest: inj_onD)
  have 1: "distinct (map doneChan ?left)" "distinct (nClosed n @ ?done)"
    using d c open_chans by (auto simp: distinct_map_filter)
  have 2: "\<forall>ch \<in> doneChan ` set ?left. ch < nNextChan n \<and> ch \<notin> set (nClosed n @ ?done)"
  proof
    fix ch assume "ch \<in> doneChan ` set ?left"
    then obtain b where b: "b \<in> set (nPendingReads n)" "\<not> ?P b" "ch = doneChan b" by auto
    then have "ch \<noteq> doneChan a" if "a \<in> set (nPendingReads n)" "?P a" for a using apart[OF that(1) b(1) that(2) b(2)] by simp
    then have "ch \<notin> set ?done" by auto
    then show "ch < nNextChan n \<and> ch \<notin> set (nClosed n @ ?done)" using open_chans[OF b(1)] b(3) by simp
  qed
  have 3: "\<forall>ch \<in> set (nClosed n @ ?done). ch < nNextChan n" using closed open_chans by auto
  show ?thesis using assms 1 2 3 by (simp add: node_ok_def satisfyPendingReadsLocked_def)
qed

lemma apply_step_ok:
  assumes st: "apply_step E C n i = Some (n', go)" and ok: "node_ok n" and i: "i \<le> nCommitIndex n"
  shows "node_ok n' \<and> nCommitIndex n' = nCommitIndex n \<and> nCommitAdvanced n' = nCommitAdvanced n \<and> (go \<longrightarrow> nLastApplied n' = i)"
proof -
  obtain sm where n': "n' = n \<and> \<not> go \<or> n' = n\<lparr>nSM := sm\<rparr> \<and> \<not> go \<or>
      (\<exists>m. m = satisfyPendingReadsLocked (notifyWritersLocked (n\<lparr>nSM := sm, nLastApplied := i\<rparr>) i) \<and>
        (n' = m \<or> maybeSnapshot E C m i = Some n'))"
    using st by (auto simp: apply_step_def Let_def split: sum.splits prod.splits option.splits if_splits)
  define k where "k = notifyWritersLocked (n\<lparr>nSM := sm, nLastApplied := i\<rparr>) i"
  have k: "same_books (n\<lparr>nSM := sm, nLastApplied := i\<rparr>) k" unfolding k_def by (rule notify_books)
  have "node_ok (n\<lparr>nSM := sm, nLastApplied := i\<rparr>)" using ok i by (simp add: node_ok_def)
  then have m: "node_ok (satisfyPendingReadsLocked k)" using same_books_ok[OF k] satisfy_ok by blast
  have f: "nCommitIndex (satisfyPendingReadsLocked k) = nCommitIndex n" "nCommitAdvanced (satisfyPendingReadsLocked k) = nCommitAdvanced n"
    "nLastApplied (satisfyPendingReadsLocked k) = i"
    using k by (simp_all add: same_books_def satisfyPendingReadsLocked_def)
  have s: "node_ok (n\<lparr>nSM := sm\<rparr>)" using ok by (simp add: node_ok_def)
  consider (stop) "n' = n \<or> n' = n\<lparr>nSM := sm\<rparr>" "\<not> go" | (applied) "n' = satisfyPendingReadsLocked k"
    | (compacted) "maybeSnapshot E C (satisfyPendingReadsLocked k) i = Some n'"
    using n' unfolding k_def[symmetric] by blast
  then show ?thesis
  proof cases
    case stop
    then show ?thesis using s ok by auto
  next
    case applied
    then show ?thesis using m f by simp
  next
    case compacted
    note b = maybeSnapshot_books[OF compacted]
    have "nCommitIndex n' = nCommitIndex n \<and> nCommitAdvanced n' = nCommitAdvanced n \<and> nLastApplied n' = i"
      using b f unfolding same_books_def by simp
    then show ?thesis using same_books_ok[OF b m] by simp
  qed
qed

lemma apply_loop_ok:
  "apply_loop E C a c n = Some n' \<Longrightarrow> node_ok n \<Longrightarrow> c \<le> nCommitIndex n \<Longrightarrow>
   node_ok n' \<and> nCommitIndex n' = nCommitIndex n \<and> nCommitAdvanced n' = nCommitAdvanced n"
proof (induction "unat c - unat a" arbitrary: a n rule: less_induct)
  case less
  show ?case
  proof (cases "a < c")
    case True
    obtain m go where st: "apply_step E C n (a + 1) = Some (m, go)"
      using less.prems(1) True by (subst (asm) apply_loop.simps) (auto split: option.splits)
    have "a + 1 \<le> nCommitIndex n" using inc_le[OF True] less.prems(3) by simp
    note m = apply_step_ok[OF st less.prems(2) this]
    have l: "if go then apply_loop E C (a + 1) c m = Some n' else n' = m"
      using less.prems(1) True st by (subst (asm) apply_loop.simps) (auto split: bool.splits)
    show ?thesis
    proof (cases go)
      case True
      then show ?thesis
        using less.hyps[OF unat_gap_less[OF \<open>a < c\<close>], of m] l m less.prems(3) by simp
    qed (use l m in simp)
  qed (use less.prems in \<open>subst (asm) apply_loop.simps, simp\<close>)
qed

section \<open>Every section keeps a node well-formed\<close>

lemma index_update_ok:
  assumes "node_ok n"
  shows "node_ok (n\<lparr>nNextIndex := AList.update p i (nNextIndex n)\<rparr>)"
    and "node_ok (n\<lparr>nMatchIndex := AList.update p j (nMatchIndex n), nNextIndex := AList.update p i (nNextIndex n)\<rparr>)"
    and "node_ok (n\<lparr>nNextIndex := AList.update p i (nNextIndex n), nMatchIndex := AList.update p j (nMatchIndex n)\<rparr>)"
  using assms by (simp_all add: node_ok_def update_conv')

lemma more_chans_ok: "node_ok n \<Longrightarrow> node_ok (n\<lparr>nNextChan := Suc (nNextChan n)\<rparr>)"
  by (auto simp: node_ok_def less_Suc_eq)

lemma Propose_locked_ok:
  assumes "Propose_locked E C n typ key v rid = Some (n', r)" and ok: "node_ok n"
  shows "node_ok n' \<and> nCommitIndex n' = nCommitIndex n \<and> nLastApplied n' = nLastApplied n \<and> nCommitAdvanced n' = nCommitAdvanced n"
proof -
  have "n' = n \<or> (\<exists>w pl. n' = n\<lparr>nNextChan := Suc (nNextChan n), nWriteWaiters := w, nLog := pl\<rparr> \<or>
      n' = n\<lparr>nNextChan := Suc (nNextChan n), nLog := pl, nWriteWaiters := w\<rparr>)"
    using assms(1) by (auto simp: Propose_locked_def make_chan_def Let_def split: if_splits option.splits prod.splits)
  then have "n' = n \<or> same_books (n\<lparr>nNextChan := Suc (nNextChan n)\<rparr>) n'"
    by (elim disjE exE) (simp_all add: same_books_def)
  then show ?thesis using ok same_books_ok[OF _ more_chans_ok[OF ok]] by (auto simp: same_books_def)
qed

lemma waitForApplied_locked_ok: "node_ok n \<Longrightarrow> node_ok (fst (waitForApplied_locked n i))"
  by (cases "nLastApplied n \<ge> i") (fastforce simp: node_ok_def waitForApplied_locked_def make_chan_def)+

lemma removePending_subset: "set (removePending ch prs) \<subseteq> set prs"
  by (induction prs) auto

lemma removePending_distinct: "distinct (map doneChan prs) \<Longrightarrow> distinct (map doneChan (removePending ch prs))"
proof (induction prs)
  case (Cons pr prs)
  then show ?case using removePending_subset[of ch prs] by auto
qed simp

lemma removePending_ok: "node_ok n \<Longrightarrow> node_ok (n\<lparr>nPendingReads := removePending ch (nPendingReads n)\<rparr>)"
  using removePending_distinct removePending_subset[of ch "nPendingReads n"] by (fastforce simp: node_ok_def)

lemma leader_loop_maps:
  fixes n :: "'d node" and i :: u64
  defines "body \<equiv> \<lambda>(n :: 'd node) p. n\<lparr>nNextIndex := AList.update (piID p) i (nNextIndex n),
    nMatchIndex := AList.update (piID p) 0 (nMatchIndex n)\<rparr>"
  assumes "gomap_ok (nNextIndex n)" and "gomap_ok (nMatchIndex n)"
  shows "gomap_ok (nNextIndex (foldl body n ps)) \<and> gomap_ok (nMatchIndex (foldl body n ps)) \<and>
    (\<forall>q. (\<exists>p \<in> set ps. piID p = q) \<or> map_of (nNextIndex n) q \<noteq> None \<and> map_of (nMatchIndex n) q \<noteq> None \<longrightarrow>
      map_of (nNextIndex (foldl body n ps)) q \<noteq> None \<and> map_of (nMatchIndex (foldl body n ps)) q \<noteq> None)"
  using assms(2,3)
proof (induction ps arbitrary: n)
  case (Cons p ps)
  have "gomap_ok (nNextIndex (body n p))" "gomap_ok (nMatchIndex (body n p))"
    using Cons.prems by (simp_all add: body_def)
  note IH = Cons.IH[OF this]
  have "map_of (nNextIndex (body n p)) q \<noteq> None \<and> map_of (nMatchIndex (body n p)) q \<noteq> None"
    if "piID p = q \<or> map_of (nNextIndex n) q \<noteq> None \<and> map_of (nMatchIndex n) q \<noteq> None" for q
    using that by (auto simp: body_def update_conv')
  then show ?case using IH by auto
qed simp

lemma becomeLeader_locked_ok:
  assumes "becomeLeader_locked n = (n', b)" and ok: "node_ok n"
  shows "node_ok n'"
proof (cases "nRole n = Candidate")
  case True
  let ?n = "n\<lparr>nRole := Leader, nLeaderID := nID n, nLeaderClientAddr := nSelfClientAddr n\<rparr>"
  have n': "n' = foldl (\<lambda>n' p. n'\<lparr>nNextIndex := AList.update (piID p) (lastIndex (nLog n) + 1) (nNextIndex n'),
      nMatchIndex := AList.update (piID p) 0 (nMatchIndex n')\<rparr>) ?n (nPeers n)"
    using assms(1) True by (simp add: becomeLeader_locked_def Let_def)
  have "gomap_ok (nNextIndex ?n)" "gomap_ok (nMatchIndex ?n)" using ok by (simp_all add: node_ok_def)
  note M = leader_loop_maps[OF this, of "lastIndex (nLog n) + 1" "nPeers n", folded n']
  obtain x y where "foldl (\<lambda>n' p. n'\<lparr>nNextIndex := AList.update (piID p) (lastIndex (nLog n) + 1) (nNextIndex n'),
      nMatchIndex := AList.update (piID p) 0 (nMatchIndex n')\<rparr>) ?n (nPeers n) = ?n\<lparr>nNextIndex := x, nMatchIndex := y\<rparr>"
    using leader_loop_frame by blast
  then have eq: "n' = ?n\<lparr>nNextIndex := x, nMatchIndex := y\<rparr>" using n' by (rule trans[rotated])
  have "\<forall>p \<in> set (nPeers n). map_of (nNextIndex n') (piID p) \<noteq> None \<and> map_of (nMatchIndex n') (piID p) \<noteq> None"
    using M by blast
  moreover have "gomap_ok (nNextIndex n')" "gomap_ok (nMatchIndex n')" using M by blast+
  ultimately show ?thesis using ok by (simp add: node_ok_def eq)
qed (use assms in \<open>simp add: becomeLeader_locked_def\<close>)

end
