(* ===== verification/Invariant_Properties.thy ===== *)
theory Invariant_Properties
  imports Node_Invariants Timer_Properties
begin

text \<open>
  The invariants of a node over any sequence of its sections: it stays well-formed, and the apply loop
  is never left asleep with committed entries to apply.
\<close>

section \<open>The sections one by one\<close>

text \<open>A commit index ahead of the applied index has left its signal.\<close>

definition signalled :: "'d node \<Rightarrow> bool" where
  "signalled n = (nLastApplied n < nCommitIndex n \<longrightarrow> nCommitAdvanced n)"

definition node_fine :: "bool \<Rightarrow> 'd node \<Rightarrow> bool" where
  "node_fine b n = (node_ok n \<and> (b \<longrightarrow> signalled n))"

lemma same_books_fine: "same_books n n' \<Longrightarrow> node_fine b n \<Longrightarrow> node_fine b n'"
  using same_books_ok[of n n'] by (auto simp: node_fine_def signalled_def same_books_def)

lemma commit_grows_fine:
  assumes g: "commit_grows n n'" and f: "node_fine b n"
  shows "node_fine b n'"
proof -
  have "nLastApplied n' = nLastApplied n" using g by (auto simp: commit_grows_def same_books_def)
  moreover have "nCommitAdvanced n \<longrightarrow> nCommitAdvanced n'" "nCommitIndex n' \<noteq> nCommitIndex n \<longrightarrow> nCommitAdvanced n'"
    using g unfolding commit_grows_def by blast+
  ultimately have "b \<longrightarrow> signalled n'" using f by (auto simp: node_fine_def signalled_def)
  then show ?thesis using commit_grows_ok[OF g] f by (simp add: node_fine_def)
qed

lemma applyCommitted_fine:
  assumes a: "applyCommitted E C n = Some n'" and f: "node_fine b n"
  shows "node_fine b n'"
proof (cases "nLastApplied n < nCommitIndex n")
  case True
  have "node_ok n' \<and> nCommitIndex n' = nCommitIndex n \<and> nCommitAdvanced n' = nCommitAdvanced n"
    using apply_loop_ok[OF a[unfolded applyCommitted_def]] f by (simp add: node_fine_def)
  then show ?thesis using True f by (simp add: node_fine_def signalled_def)
next
  case False
  then have "n' = n" using a unfolding applyCommitted_def by (subst (asm) apply_loop.simps) simp
  then show ?thesis using f by simp
qed

lemma responses_fine:
  assumes "node_fine b n"
  shows "node_fine b (replicateToPeer_response E C n peer t es aresp)"
    and "node_fine b (sendInstallSnapshot_response E n peer t li sresp)"
proof -
  have ok: "node_ok n" and s: "b \<longrightarrow> signalled n" using assms by (simp_all add: node_fine_def)
  have f: "node_fine b (becomeFollower E n t' l a)" for t' l a
    by (rule same_books_fine[OF becomeFollower_books assms])
  have u: "node_fine b (n\<lparr>nNextIndex := AList.update peer i (nNextIndex n)\<rparr>)"
    "node_fine b (n\<lparr>nMatchIndex := AList.update peer j (nMatchIndex n), nNextIndex := AList.update peer i (nNextIndex n)\<rparr>)"
    "node_fine b (n\<lparr>nNextIndex := AList.update peer i (nNextIndex n), nMatchIndex := AList.update peer j (nMatchIndex n)\<rparr>)" for i j
    using index_update_ok[OF ok] s by (simp_all add: node_fine_def signalled_def)
  show "node_fine b (replicateToPeer_response E C n peer t es aresp)"
    unfolding replicateToPeer_response_def Let_def using f u assms by (simp split: if_split)
  show "node_fine b (sendInstallSnapshot_response E n peer t li sresp)"
    unfolding sendInstallSnapshot_response_def using f u assms by (simp split: if_split)
qed

lemma node_op_fine:
  assumes "node_op E C n n'" and f: "node_fine b n"
  shows "node_fine b n'"
  using assms
proof (induction rule: node_op.induct)
  case (append_rpc n req n' resp)
  then show ?case using commit_grows_fine[OF HandleAppendEntries_grows] by blast
next
  case (snapshot_rpc n sreq n' sresp)
  have "node_fine b (n\<lparr>nLastApplied := i, nCommitIndex := i\<rparr>)" for i
    using snapshot_rpc.prems jump_ok[of n i] by (simp add: node_fine_def signalled_def)
  then show ?case using HandleInstallSnapshot_books[OF snapshot_rpc.hyps] same_books_fine snapshot_rpc.prems by blast
next
  case (append_response n peer t es aresp)
  then show ?case by (rule responses_fine(1))
next
  case (snapshot_request n t)
  have "same_books n (fst (sendInstallSnapshot_request C n t))"
    by (auto simp: sendInstallSnapshot_request_def same_books_def split: prod.splits sum.splits option.splits)
  then show ?case using same_books_fine snapshot_request by blast
next
  case (snapshot_response n peer t li sresp)
  then show ?case by (rule responses_fine(2))
next
  case (step_down n t leader addr)
  then show ?case by (rule same_books_fine[OF becomeFollower_books])
next
  case (advance n t)
  then show ?case by (rule commit_grows_fine[OF tryAdvance_grows])
next
  case (append_local n e n' e')
  have "same_books n n'" using append_local.hyps by (auto simp: appendLocal_def Let_def same_books_def)
  then show ?case using same_books_fine append_local.prems by blast
next
  case (propose n ty key v rid n' r)
  then show ?case using Propose_locked_ok[OF propose.hyps] by (simp add: node_fine_def signalled_def)
next
  case (propose_end n i ch sc)
  have "same_books n (fst (Propose_select n i ch sc))"
    by (auto simp: Propose_select_def same_books_def split: select_case.splits)
  then show ?case using same_books_fine propose_end by blast
next
  case (apply_committed n n')
  then show ?case using applyCommitted_fine by blast
next
  case (read n i)
  have "signalled (fst (waitForApplied_locked n i)) = signalled n"
    by (simp add: signalled_def waitForApplied_locked_def make_chan_def)
  then show ?case using waitForApplied_locked_ok[of n i] read by (simp add: node_fine_def)
qed

lemma node_step_fine:
  assumes "node_step E C n n'" and "node_fine b n"
  shows "node_fine b n'"
  using assms
proof (induction rule: node_step.induct)
  case (node_any n n')
  then show ?case by (rule node_op_fine)
next
  case (node_vote n req n' resp)
  then show ?case using same_books_fine[OF HandleRequestVote_books] by blast
next
  case (node_candidate n n' t)
  have "same_books n n'"
    using node_candidate(1) set_term_books[of n E "currentTerm (nLog n) + 1" "nID n"]
    by (auto simp: becomeCandidate_def becomeCandidate_set_def Let_def same_books_def)
  then show ?case using same_books_fine node_candidate by blast
next
  case (node_timer n)
  have "same_books n (resetElectionTimer n)" by (simp add: same_books_def resetElectionTimer_def)
  then show ?case using same_books_fine node_timer by blast
next
  case (node_count t r n el n' el')
  have "n' = n \<or> (\<exists>x. n' = becomeFollower E n x [] [])"
    using node_count(1) by (auto simp: election_step_def Let_def split: if_splits)
  then show ?case using same_books_fine[OF becomeFollower_books] node_count(2) by blast
next
  case (node_leader n n' b)
  have "signalled n' = signalled n"
    using becomeLeader_locked_eq[OF node_leader(1)] by (auto simp: signalled_def)
  then show ?case using becomeLeader_locked_ok[OF node_leader(1)] node_leader(2) by (simp add: node_fine_def)
next
  case (node_read_end n ch)
  then show ?case using removePending_ok[of n ch] by (simp add: node_fine_def signalled_def)
next
  case (node_stop n)
  have "same_books n (Stop n)" by (simp add: same_books_def Stop_def)
  then show ?case using same_books_fine node_stop by blast
qed

lemma node_reach_fine: "node_reach E C n m \<Longrightarrow> node_fine b n \<Longrightarrow> node_fine b m"
  by (induction rule: node_reach.induct) (auto intro: node_step_fine)

lemma NewNode_shape:
  assumes "NewNode E C nid peers opts d sm st addr = Some (Inr n)"
  obtains pl st' sm' i where "n = \<lparr>nID = nid, nPeers = peers, nOpts = opts, nLog = pl, nSM = sm',
      nSnapStore = st', nRole = Follower, nCommitIndex = i, nLastApplied = i,
      nNextIndex = [], nMatchIndex = [], nLeaderID = [], nLeaderClientAddr = [],
      nSelfClientAddr = addr, nElectionReset = False, nCommitAdvanced = False,
      nPendingReads = [], nWriteWaiters = [], nStopped = False, nNextChan = 0, nBuffers = [], nClosed = []\<rparr>"
  using assms by (auto simp: NewNode_def Let_def split: option.splits sum.splits prod.splits)

lemma NewNode_fine:
  assumes "NewNode E C nid peers opts d sm st addr = Some (Inr n)"
  shows "node_fine b n" and "waiters_ok n"
  by (rule NewNode_shape[OF assms];
      simp add: node_fine_def signalled_def node_ok_def waiters_ok_def chan_buffer_def)+


definition ex_new_node :: "(goerror + memdb node) option" where
  "ex_new_node = NewNode exE gob_codec ''a'' [\<lparr>piID = ''b''\<rparr>] ex_opts (plEngine ex_log0) (NewStateMachine mem_empty)
     \<lparr>ssDir = ''snap'', ssFS = \<lparr>fsFiles = [], fsClock = 0, fsFaults = (\<lambda>t. None)\<rparr>\<rparr> ''addr''"

lemma ex_new_node_made: "\<exists>n. ex_new_node = Some (Inr n) \<and> nRole n = Follower"
  using store.OpenPersistentLog_reopens[OF ex_log0_inv]
  by (simp add: ex_new_node_def NewNode_def LoadLatest_def os_ReadFile_def fs_fault_def Let_def)


section \<open>The apply loop is never left asleep\<close>

text \<open>
  The apply loop and the other goroutines. The flag says that the last run of \<^const>\<open>applyCommitted\<close>
  stopped before the commit index, at an error that it logged.
\<close>

inductive apply_reach :: "'d engine \<Rightarrow> codec \<Rightarrow> 'd node \<Rightarrow> 'd apply_goroutine \<Rightarrow> bool \<Rightarrow> bool" for E C n where
  apply_starts: "Start r n = Some (lp, a) \<Longrightarrow> apply_reach E C n a False"
| apply_wakes: "apply_reach E C n a stopped \<Longrightarrow> ev \<in> {SignalCase, TickCase} \<Longrightarrow>
    apply_event_step E C ev a = Some a' \<Longrightarrow> apply_reach E C n a' stopped"
| apply_runs: "apply_reach E C n a stopped \<Longrightarrow> apply_event_step E C ApplyRuns a = Some a' \<Longrightarrow>
    apply_reach E C n a' (nLastApplied (agNode a') < nCommitIndex (agNode a'))"
| apply_others: "apply_reach E C n a stopped \<Longrightarrow> node_step E C (agNode a) m \<Longrightarrow>
    apply_event_step E C (OtherChanges m) a = Some a' \<Longrightarrow> apply_reach E C n a' stopped"

lemma apply_reach_awake:
  assumes "apply_reach E C n a stopped" and "node_fine True n"
  shows "node_ok (agNode a) \<and> (stopped \<or> agBusy a \<or> signalled (agNode a))"
  using assms(1)
proof (induction rule: apply_reach.induct)
  case (apply_starts r lp a)
  then show ?case using assms(2) by (auto simp: Start_def node_fine_def)
next
  case (apply_wakes a stopped ev a')
  have "agBusy a' \<and> (agNode a' = agNode a \<or> agNode a' = (agNode a)\<lparr>nCommitAdvanced := False\<rparr>)"
    using apply_wakes.hyps(2,3) by (auto simp: apply_event_step_def split: if_splits)
  moreover have "node_ok ((agNode a)\<lparr>nCommitAdvanced := False\<rparr>)" using apply_wakes.IH by (simp add: node_ok_def)
  ultimately show ?case using apply_wakes.IH by auto
next
  case (apply_runs a stopped a')
  have "applyCommitted E C (agNode a) = Some (agNode a')"
    using apply_runs.hyps(2) by (auto simp: apply_event_step_def split: if_splits)
  then have "node_ok (agNode a')"
    using apply_loop_ok[of E C "nLastApplied (agNode a)" "nCommitIndex (agNode a)" "agNode a" "agNode a'"] apply_runs.IH
    by (simp add: applyCommitted_def)
  then show ?case by (simp add: signalled_def)
next
  case (apply_others a stopped m a')
  have a': "a' = a\<lparr>agNode := m\<rparr>" using apply_others.hyps(3) by (simp add: apply_event_step_def)
  have ok: "node_ok m"
    using node_step_fine[OF apply_others.hyps(2), of False] apply_others.IH by (simp add: node_fine_def)
  show ?case
  proof (cases "signalled (agNode a)")
    case True
    then have "node_fine True m" using node_step_fine[OF apply_others.hyps(2)] apply_others.IH by (simp add: node_fine_def)
    then show ?thesis using a' by (simp add: node_fine_def)
  next
    case False
    then have "stopped \<or> agBusy a" using apply_others.IH by blast
    then show ?thesis using a' ok by auto
  qed
qed


text \<open>A heartbeat that commits the follower's two entries leaves the loop a signal.\<close>

definition ex_heartbeat :: append_entries_request where
  "ex_heartbeat = \<lparr>aeTerm = 3, aeLeaderID = ''a'', aePrevLogIndex = 0, aePrevLogTerm = 0, aeEntries = [],
     aeLeaderCommit = 2, aeLeaderClientAddr = ''addr''\<rparr>"


end
