(* ===== verification/Log_Matching.thy ===== *)
theory Log_Matching
  imports Cluster Replication_Proofs
begin

text \<open>
  The Log Matching property for a cluster whose nodes run the voting and the replication code over an
  unreliable network. The steps of an election are those of \<^const>\<open>voting_step\<close>; an
  \<^verbatim>\<open>AppendEntries\<close> request that carries entries is one that a leader sent, and it may be delivered
  late, in any order, more than once or never. Snapshots are switched off, so no log is compacted.
\<close>

section \<open>The cluster with its replication traffic\<close>

text \<open>The sections of a node that do not write entries, each with arbitrary arguments.\<close>

inductive quiet_op :: "'d engine \<Rightarrow> codec \<Rightarrow> 'd node \<Rightarrow> 'd node \<Rightarrow> bool" for E C where
  quiet_heartbeat: "HandleAppendEntries E C n req = Some (n', resp) \<Longrightarrow> aeEntries req = [] \<Longrightarrow> quiet_op E C n n'"
| quiet_response: "quiet_op E C n (replicateToPeer_response E C n peer t es aresp)"
| quiet_step_down: "quiet_op E C n (becomeFollower E n t leader addr)"
| quiet_advance: "quiet_op E C n (tryAdvanceCommitIndex E C n t)"
| quiet_propose_end: "quiet_op E C n (fst (Propose_select n i ch sc))"
| quiet_apply: "applyCommitted E C n = Some n' \<Longrightarrow> quiet_op E C n n'"
| quiet_read: "quiet_op E C n (fst (waitForApplied_locked n i))"

lemma quiet_op_node_op: "quiet_op E C n m \<Longrightarrow> node_op E C n m"
  by (induction rule: quiet_op.induct) (auto intro: node_op.intros)

text \<open>The requests under way, each with its destination.\<close>

record 'd replicas =
  rCluster :: "'d cluster"
  rAppends :: "(string \<times> append_entries_request) set"

abbreviation replica :: "'d replicas \<Rightarrow> string \<Rightarrow> 'd node" where
  "replica s \<equiv> cNodes (rCluster s)"

definition set_replica :: "string \<Rightarrow> 'd node \<Rightarrow> 'd replicas \<Rightarrow> 'd replicas" where
  "set_replica i m s = s\<lparr>rCluster := (rCluster s)\<lparr>cNodes := (replica s)(i := m)\<rparr>\<rparr>"

text \<open>
  The no-op entry of a new leader is written in a section of its own, after \<^verbatim>\<open>becomeLeader\<close> has given
  up the mutex; \<open>append_noop\<close> asks that the node is still leader then.
\<close>

inductive replicas_step :: "'d engine \<Rightarrow> codec \<Rightarrow> string set \<Rightarrow> 'd replicas \<Rightarrow> 'd replicas \<Rightarrow> bool"
  for E C members where
  elect: "voting_step E C members (rCluster s) c \<Longrightarrow> replicas_step E C members s (s\<lparr>rCluster := c\<rparr>)"
| send_append:
    "i \<in> members \<Longrightarrow> p \<in> set (nPeers (replica s i)) \<Longrightarrow>
     replicateToPeer_request E C (replica s i) (piID p) t = Some (SendAppend req) \<Longrightarrow>
     replicas_step E C members s (s\<lparr>rAppends := insert (piID p, req) (rAppends s)\<rparr>)"
| deliver_append:
    "j \<in> members \<Longrightarrow> (j, req) \<in> rAppends s \<Longrightarrow> HandleAppendEntries E C (replica s j) req = Some (m, resp) \<Longrightarrow>
     replicas_step E C members s (set_replica j m s)"
| client_write:
    "i \<in> members \<Longrightarrow> unat (lastIndex (nLog (replica s i))) + 2 < 2 ^ 64 \<Longrightarrow>
     Propose_locked E C (replica s i) typ key v rid = Some (m, r) \<Longrightarrow>
     replicas_step E C members s (set_replica i m s)"
| append_noop:
    "i \<in> members \<Longrightarrow> unat (lastIndex (nLog (replica s i))) + 2 < 2 ^ 64 \<Longrightarrow> nRole (replica s i) = Leader \<Longrightarrow>
     appendLocal E C (replica s i) e = Some (m, e') \<Longrightarrow>
     replicas_step E C members s (set_replica i m s)"
| quiet: "i \<in> members \<Longrightarrow> quiet_op E C (replica s i) m \<Longrightarrow> replicas_step E C members s (set_replica i m s)"
| reboot:
    "i \<in> members \<Longrightarrow> SnapshotThreshold opts = 0 \<Longrightarrow>
     NewNode E C (nID (replica s i)) (nPeers (replica s i)) opts (plEngine (nLog (replica s i))) sm st addr
       = Some (Inr m) \<Longrightarrow>
     replicas_step E C members s
       (s\<lparr>rCluster := (rCluster s)\<lparr>cNodes := (replica s)(i := m), cElections := (cElections (rCluster s))(i := None)\<rparr>\<rparr>)"

abbreviation replicas_reach :: "'d engine \<Rightarrow> codec \<Rightarrow> string set \<Rightarrow> 'd replicas \<Rightarrow> 'd replicas \<Rightarrow> bool" where
  "replicas_reach E C members \<equiv> (replicas_step E C members)\<^sup>*\<^sup>*"

text \<open>A node whose log is valid and never compacted.\<close>

definition plain :: "('d \<Rightarrow> bytes \<rightharpoonup> bytes) \<Rightarrow> codec \<Rightarrow> 'd node \<Rightarrow> bool" where
  "plain content C n =
     (stored_inv content C n \<and> logBase (stored_log content C n) = 0 \<and> SnapshotThreshold (nOpts n) = 0)"

definition replicas_start :: "('d \<Rightarrow> bytes \<rightharpoonup> bytes) \<Rightarrow> codec \<Rightarrow> string set \<Rightarrow> 'd replicas \<Rightarrow> bool" where
  "replicas_start content C members s =
     (cluster_start content members (rCluster s) \<and> rAppends s = {} \<and>
      (\<forall>i \<in> members. plain content C (replica s i) \<and> logEntries (stored_log content C (replica s i)) = []))"

lemma set_replica_simps [simp]:
  "replica (set_replica i m s) = (replica s)(i := m)" "rAppends (set_replica i m s) = rAppends s"
  "cVotes (rCluster (set_replica i m s)) = cVotes (rCluster s)"
  by (simp_all add: set_replica_def)

text \<open>Seen without its traffic, a step is a step of the cluster, so Election Safety holds.\<close>

lemma replicas_step_cluster:
  assumes "replicas_step E C members s s'"
  shows "rCluster s' = rCluster s \<or> cluster_step E C members (rCluster s) (rCluster s')"
  using assms
proof cases
  case (elect c)
  then show ?thesis by (simp add: cluster_step.voting)
next
  case (reboot i opts sm st addr m)
  then show ?thesis using cluster_step.restart[OF reboot(2,4)] by simp
qed (auto simp: set_replica_def intro!: cluster_step.other intro: node_op.intros quiet_op_node_op)

section \<open>The logs of the leaders\<close>

text \<open>
  For each term, its leader and the log that this leader had last. Every log is put together from
  these: an entry of term \<open>t\<close> stands in the log of the leader of \<open>t\<close>, with the same entries before it.
\<close>

type_synonym leader_logs = "u64 \<Rightarrow> (string \<times> entry list) option"

definition traced :: "leader_logs \<Rightarrow> entry list \<Rightarrow> bool" where
  "traced L xs =
     (\<forall>k < length xs. \<exists>i ys. L (eTerm (xs ! k)) = Some (i, ys) \<and> take (Suc k) xs = take (Suc k) ys)"

definition grows :: "leader_logs \<Rightarrow> leader_logs \<Rightarrow> bool" where
  "grows L L' = (\<forall>t i ys. L t = Some (i, ys) \<longrightarrow> (\<exists>zs. L' t = Some (i, ys @ zs)))"

lemma traced_nil [simp]: "traced L []"
  by (simp add: traced_def)

lemma grows_refl [simp]: "grows L L"
  by (auto simp: grows_def intro: exI[of _ "[]"])

lemma grows_add: "L t = None \<Longrightarrow> grows L (L(t \<mapsto> z))"
  by (auto simp: grows_def intro: exI[of _ "[]"])

lemma grows_extend: "L t = Some (i, ys) \<Longrightarrow> grows L (L(t \<mapsto> (i, ys @ zs)))"
  by (auto simp: grows_def intro: exI[of _ "[]"])

lemma traced_grows:
  assumes "traced L xs" and "grows L L'"
  shows "traced L' xs"
  unfolding traced_def
proof (intro allI impI)
  fix k assume k: "k < length xs"
  obtain i ys where ys: "L (eTerm (xs ! k)) = Some (i, ys)" "take (Suc k) xs = take (Suc k) ys"
    using assms(1) k unfolding traced_def by blast
  obtain zs where "L' (eTerm (xs ! k)) = Some (i, ys @ zs)" using assms(2) ys(1) unfolding grows_def by blast
  moreover have "length (take (Suc k) ys) = Suc k" unfolding ys(2)[symmetric] using k by simp
  then have "take (Suc k) (ys @ zs) = take (Suc k) ys" by simp
  ultimately show "\<exists>i ys. L' (eTerm (xs ! k)) = Some (i, ys) \<and> take (Suc k) xs = take (Suc k) ys"
    using ys(2) by simp
qed

lemma traced_take: "traced L xs \<Longrightarrow> traced L (take n xs)"
  by (auto simp: traced_def min_def)

text \<open>Log Matching for traced logs.\<close>

lemma traced_agree:
  assumes "traced L xs" and "traced L ys" and "k < length xs" and "k < length ys" and "eTerm (xs ! k) = eTerm (ys ! k)"
  shows "take (Suc k) xs = take (Suc k) ys"
  using assms unfolding traced_def by (metis option.inject prod.inject)

lemma traced_snoc:
  assumes "traced L xs" and "L (eTerm e) = Some (i, xs @ [e])"
  shows "traced L (xs @ [e])"
  using assms by (auto simp: traced_def nth_append less_Suc_eq)

text \<open>A request of the leader of its term: a part of that leader's log, and the term before it.\<close>

definition ae_traced :: "leader_logs \<Rightarrow> string \<Rightarrow> append_entries_request \<Rightarrow> bool" where
  "ae_traced L j req =
     (\<exists>i ys. L (aeTerm req) = Some (i, ys) \<and> i \<noteq> j \<and>
        unat (aePrevLogIndex req) + length (aeEntries req) \<le> length ys \<and>
        aeEntries req = take (length (aeEntries req)) (drop (unat (aePrevLogIndex req)) ys) \<and>
        (aePrevLogIndex req \<noteq> 0 \<longrightarrow> eTerm (ys ! (unat (aePrevLogIndex req) - 1)) = aePrevLogTerm req))"

lemma unat_prev_less: "p \<noteq> 0 \<Longrightarrow> unat p + n \<le> m \<Longrightarrow> unat p - 1 < m" for p :: u64
  by (simp add: unat_gt_0 Suc_le_eq[symmetric] word_gt_0 flip: unat_gt_0)

lemma ae_traced_grows:
  assumes "ae_traced L j req" and "grows L L'"
  shows "ae_traced L' j req"
proof -
  obtain i ys where r: "L (aeTerm req) = Some (i, ys)" "i \<noteq> j"
    "unat (aePrevLogIndex req) + length (aeEntries req) \<le> length ys"
    "aeEntries req = take (length (aeEntries req)) (drop (unat (aePrevLogIndex req)) ys)"
    "aePrevLogIndex req \<noteq> 0 \<longrightarrow> eTerm (ys ! (unat (aePrevLogIndex req) - 1)) = aePrevLogTerm req"
    using assms(1) unfolding ae_traced_def by blast
  obtain zs where "L' (aeTerm req) = Some (i, ys @ zs)" using assms(2) r(1) unfolding grows_def by blast
  moreover have "aeEntries req = take (length (aeEntries req)) (drop (unat (aePrevLogIndex req)) (ys @ zs))"
    using r(3,4) by simp
  ultimately show ?thesis
    unfolding ae_traced_def using r unat_prev_less[OF _ r(3)]
    by (intro exI[of _ i] exI[of _ "ys @ zs"]) (auto simp: nth_append)
qed

lemma contiguous_slice:
  assumes "contiguous 1 ys" and "unat p + length es \<le> length ys" and "es = take (length es) (drop (unat p) ys)"
  shows "contiguous (p + 1) es"
proof (rule contiguousI)
  fix k assume k: "k < length es"
  then have "es ! k = ys ! (unat p + k)" using assms(2) by (subst assms(3)) simp
  moreover have "unat p + k < length ys" using assms(2) k by simp
  ultimately show "eIndex (es ! k) = p + 1 + of_nat k"
    using contiguous_nth[OF assms(1), of "unat p + k"] by (simp add: add.commute)
qed

text \<open>A follower that passes the consistency check ends up with a prefix of the leader's log.\<close>

lemma overwrite_prefix:
  assumes xs: "traced L xs" and ys: "traced L ys"
    and es: "es = take (length es) (drop p ys)" "p + length es \<le> length ys"
    and prev: "p \<noteq> 0 \<Longrightarrow> p \<le> length xs \<and> eTerm (xs ! (p - 1)) = eTerm (ys ! (p - 1))"
  shows "take p xs @ es = take (p + length es) ys"
proof -
  have "take p xs = take p ys"
  proof (cases p)
    case (Suc k)
    then show ?thesis using traced_agree[OF xs ys, of k] prev es(2) by simp
  qed simp
  then show ?thesis using es(1) by (metis take_add)
qed

section \<open>Sections that leave the log alone\<close>

text \<open>The log stays; the node does not become leader or candidate.\<close>

definition log_kept :: "('d \<Rightarrow> bytes \<rightharpoonup> bytes) \<Rightarrow> codec \<Rightarrow> 'd node \<Rightarrow> 'd node \<Rightarrow> bool" where
  "log_kept content C n m =
     (vote_step content n m \<and> stored_inv content C m \<and>
      logBase (stored_log content C m) = logBase (stored_log content C n) \<and>
      logEntries (stored_log content C m) = logEntries (stored_log content C n) \<and>
      SnapshotThreshold (nOpts m) = SnapshotThreshold (nOpts n) \<and>
      (nRole m = Candidate \<longrightarrow> nRole n = Candidate \<and> currentTerm (nLog m) = currentTerm (nLog n)))"

lemma log_kept_same:
  "stored_inv content C n \<Longrightarrow> vote_step content n m \<Longrightarrow> nLog m = nLog n \<Longrightarrow> nOpts m = nOpts n \<Longrightarrow>
   nRole m \<in> {nRole n, Follower} \<Longrightarrow> log_kept content C n m"
  by (auto simp: log_kept_def)

lemma log_kept_refl: "stored_inv content C n \<Longrightarrow> log_kept content C n n"
  by (simp add: log_kept_def vote_step_same)

lemma log_kept_plain: "plain content C n \<Longrightarrow> log_kept content C n m \<Longrightarrow> plain content C m"
  by (simp add: plain_def log_kept_def)

context raft_storage_sure
begin

abbreviation kept :: "'d node \<Rightarrow> 'd node \<Rightarrow> bool" where
  "kept \<equiv> log_kept content C"

lemma becomeFollower_kept: "node_inv n \<Longrightarrow> kept n (becomeFollower E n t l a)"
  using becomeFollower_vstep[of n t l a] set_term_and_vote_inv set_term_and_vote_entries
  by (auto simp: log_kept_def becomeFollower_def Let_def)

lemma replicateToPeer_response_kept: "node_inv n \<Longrightarrow> kept n (replicateToPeer_response E C n peer t es resp)"
proof (cases "aerTerm resp > t")
  case False
  assume "node_inv n"
  then show ?thesis
    using False replicateToPeer_response_vstep[of n peer t es resp]
    by (intro log_kept_same) (simp_all add: replicateToPeer_response_def Let_def)
qed (simp add: replicateToPeer_response_def becomeFollower_kept)

lemma tryAdvanceCommitIndex_kept: "node_inv n \<Longrightarrow> kept n (tryAdvanceCommitIndex E C n t)"
  using tryAdvanceCommitIndex_vstep[of n t]
  by (intro log_kept_same) (auto simp: tryAdvanceCommitIndex_def signalCommitAdvanced_def)

lemma Propose_select_kept: "node_inv n \<Longrightarrow> kept n (fst (Propose_select n i ch sc))"
  using Propose_select_vstep[of n i ch sc]
  by (intro log_kept_same) (auto simp: Propose_select_def split: select_case.splits)

lemma waitForApplied_kept: "node_inv n \<Longrightarrow> kept n (fst (waitForApplied_locked n i))"
  using waitForApplied_locked_vstep[of n i]
  by (intro log_kept_same) (auto simp: waitForApplied_locked_def make_chan_def)

lemma apply_step_same_log:
  assumes "apply_step E C n i = Some (n', go)" and "SnapshotThreshold (nOpts n) = 0"
  shows "nLog n' = nLog n" "nOpts n' = nOpts n" "nRole n' = nRole n"
  using assms by (auto simp: apply_step_def Let_def split: sum.splits prod.splits option.splits if_splits)

lemma applyCommitted_kept:
  assumes "applyCommitted E C n = Some n'" and "node_inv n" and "SnapshotThreshold (nOpts n) = 0"
  shows "kept n n'"
proof -
  have "SnapshotThreshold (nOpts n) = 0 \<longrightarrow> nLog n' = nLog n \<and> nOpts n' = nOpts n \<and> nRole n' = nRole n"
    using assms(1) unfolding applyCommitted_def
    by (rule apply_loop_rel[where R = "\<lambda>n n'. SnapshotThreshold (nOpts n) = 0 \<longrightarrow>
      nLog n' = nLog n \<and> nOpts n' = nOpts n \<and> nRole n' = nRole n"]) (auto dest: apply_step_same_log)
  then show ?thesis using assms applyCommitted_vstep[OF assms(1)] by (intro log_kept_same) auto
qed

lemma HandleRequestVote_kept:
  assumes "node_inv n" and h: "HandleRequestVote E C n req = (n', resp)"
  shows "kept n n'"
proof -
  have "nOpts n' = nOpts n"
    "nRole n' = Candidate \<longrightarrow> nRole n = Candidate \<and> currentTerm (nLog n') = currentTerm (nLog n)"
    using h by (auto simp: HandleRequestVote_alt Let_def vote_prepare_def unlockedResetElectionTimer_def
        split: if_splits)
  then show ?thesis using HandleRequestVote_keeps[OF assms] HandleRequestVote_vstep[OF h] by (simp add: log_kept_def)
qed

lemma election_step_kept: "node_inv n \<Longrightarrow> kept n (fst (election_step E t (VoteArrives r) (n, el)))"
  using becomeFollower_kept by (auto simp: election_step_def Let_def intro: log_kept_refl)

text \<open>The handler of \<^verbatim>\<open>AppendEntries\<close> apart from the entries it writes.\<close>

lemma HandleAppendEntries_role:
  assumes "HandleAppendEntries E C n req = Some (n', resp)"
  shows "nOpts n' = nOpts n" "nRole n' = Candidate \<Longrightarrow> n' = n"
proof -
  have "nOpts n' = nOpts n \<and> (nRole n' = Candidate \<longrightarrow> n' = n)"
  proof (cases "HandleAppendEntries_term E n req")
    case (Inl m)
    then show ?thesis
      using assms by (auto simp: HandleAppendEntries_def HandleAppendEntries_term_def Let_def split: if_splits)
  next
    case (Inr q)
    obtain n1 t where q: "q = (n1, t)" by force
    note T = HandleAppendEntries_term_cases(6,8)[OF Inr[unfolded q]]
    have "nOpts n' = nOpts n1 \<and> nRole n' = nRole n1"
      using assms Inr q
      by (auto simp: HandleAppendEntries_def Let_def advance_commit_def signalCommitAdvanced_def
          split: option.splits if_splits bind_splits prod.splits)
    then show ?thesis using T by simp
  qed
  then show "nOpts n' = nOpts n" "nRole n' = Candidate \<Longrightarrow> n' = n" by blast+
qed

lemma HandleAppendEntries_kept:
  assumes inv: "node_inv n" and h: "HandleAppendEntries E C n req = Some (n', resp)"
    and no: "\<not> aerSuccess resp \<or> aeEntries req = []"
  shows "kept n n'"
proof -
  have "node_inv n' \<and> logBase (node_log n') = logBase (node_log n) \<and> logEntries (node_log n') = logEntries (node_log n)"
  proof (cases "aerSuccess resp")
    case True
    then have es: "aeEntries req = []" using no by simp
    obtain n1 t where t: "HandleAppendEntries_term E n req = Inr (n1, t)"
      using h True by (auto simp: HandleAppendEntries_def ae_response_def split: sum.splits)
    have "nLog n' = nLog n1"
      using h t es by (auto simp: HandleAppendEntries_def advance_commit_fields split: option.splits)
    then show ?thesis using HandleAppendEntries_term_log[OF t inv] by simp
  next
    case False
    then show ?thesis using HandleAppendEntries_refused[OF inv h] by blast
  qed
  then show ?thesis
    using HandleAppendEntries_vstep[OF h] HandleAppendEntries_role[OF h] by (auto simp: log_kept_def)
qed

lemma quiet_op_kept:
  assumes "quiet_op E C n m" and "plain content C n"
  shows "kept n m"
proof -
  have n: "node_inv n" "SnapshotThreshold (nOpts n) = 0" using assms(2) by (simp_all add: plain_def)
  show ?thesis
    using assms(1) n
    by cases (auto intro: HandleAppendEntries_kept replicateToPeer_response_kept becomeFollower_kept
        tryAdvanceCommitIndex_kept Propose_select_kept applyCommitted_kept waitForApplied_kept)
qed

lemma reboot_kept:
  assumes new: "NewNode E C (nID n) (nPeers n) opts (plEngine (nLog n)) sm st addr = Some (Inr m)"
    and inv: "node_inv n" and opts: "SnapshotThreshold opts = SnapshotThreshold (nOpts n)"
  shows "kept n m"
proof -
  have "vote_meta content (nLog n)" using plog_invD(7,8)[OF inv] by (simp add: vote_meta_def)
  moreover have "nLog m = cold (nLog n)" "nRole m = Follower" "nOpts m = opts"
    using new OpenPersistentLog_reopens[OF inv]
    by (auto simp: NewNode_def Let_def split: option.splits sum.splits prod.splits)
  ultimately show ?thesis
    using restart_vstep[OF new] cold_inv[OF inv] opts by (simp add: log_kept_def)
qed

end

section \<open>The invariant\<close>

text \<open>
  What a node's log and role say of the leaders' logs: the log is traced, a leader's log is the
  recorded one, and a candidate has not been leader of its term.
\<close>

definition replica_ok :: "('d \<Rightarrow> bytes \<rightharpoonup> bytes) \<Rightarrow> codec \<Rightarrow> leader_logs \<Rightarrow> string \<Rightarrow> 'd node \<Rightarrow> bool" where
  "replica_ok content C L i n =
     (plain content C n \<and> traced L (logEntries (stored_log content C n)) \<and>
      (nRole n = Leader \<longrightarrow> L (currentTerm (nLog n)) = Some (i, logEntries (stored_log content C n))) \<and>
      (nRole n = Candidate \<longrightarrow> (\<forall>ys. L (currentTerm (nLog n)) \<noteq> Some (i, ys))))"

definition elected :: "string set \<Rightarrow> (string \<times> u64 \<times> string) set \<Rightarrow> u64 \<Rightarrow> string \<Rightarrow> bool" where
  "elected members V t i = (\<exists>Q. majority members Q \<and> (\<forall>j \<in> Q. (j, t, i) \<in> V))"

text \<open>A recorded log: its leader won the term and has not gone back before it.\<close>

definition leader_log_ok :: "string set \<Rightarrow> 'd cluster \<Rightarrow> leader_logs \<Rightarrow> u64 \<Rightarrow> string \<Rightarrow> entry list \<Rightarrow> bool" where
  "leader_log_ok members c L t i ys =
     (traced L ys \<and> contiguous 1 ys \<and> length ys < 2 ^ 64 - 1 \<and> elected members (cVotes c) t i \<and>
      t \<le> currentTerm (nLog (cNodes c i)))"

definition matching_inv ::
    "('d \<Rightarrow> bytes \<rightharpoonup> bytes) \<Rightarrow> codec \<Rightarrow> string set \<Rightarrow> leader_logs \<Rightarrow> 'd replicas \<Rightarrow> bool" where
  "matching_inv content C members L s =
     (cluster_inv content members (rCluster s) \<and>
      (\<forall>i \<in> members. replica_ok content C L i (replica s i)) \<and>
      (\<forall>t i ys. L t = Some (i, ys) \<longrightarrow> leader_log_ok members (rCluster s) L t i ys) \<and>
      (\<forall>j req. (j, req) \<in> rAppends s \<longrightarrow> ae_traced L j req))"

lemma matching_invD:
  assumes "matching_inv content C members L s"
  shows "cluster_inv content members (rCluster s)"
    "i \<in> members \<Longrightarrow> replica_ok content C L i (replica s i)"
    "L t = Some (i, ys) \<Longrightarrow> leader_log_ok members (rCluster s) L t i ys"
    "(j, req) \<in> rAppends s \<Longrightarrow> ae_traced L j req"
  using assms by (auto simp: matching_inv_def)

lemma replica_okD:
  assumes "replica_ok content C L i n"
  shows "plain content C n" "stored_inv content C n" "traced L (logEntries (stored_log content C n))"
    "logBase (stored_log content C n) = 0"
    "nRole n = Leader \<Longrightarrow> L (currentTerm (nLog n)) = Some (i, logEntries (stored_log content C n))"
    "nRole n = Candidate \<Longrightarrow> L (currentTerm (nLog n)) \<noteq> Some (i, ys)"
  using assms by (auto simp: replica_ok_def plain_def)

lemma plain_log:
  assumes "plain content C n"
  shows "contiguous 1 (logEntries (stored_log content C n))" "length (logEntries (stored_log content C n)) < 2 ^ 64 - 1"
    "unat (lastIndex (nLog n)) = length (logEntries (stored_log content C n))"
proof -
  have inv: "stored_inv content C n" "logBase (stored_log content C n) = 0" using assms by (simp_all add: plain_def)
  have wf: "alog_wf (stored_log content C n)" by (rule alog_wf_plog[OF inv(1)])
  then show "contiguous 1 (logEntries (stored_log content C n))" and l: "length (logEntries (stored_log content C n)) < 2 ^ 64 - 1"
    using inv(2) by (simp_all add: alog_wf_def)
  have "alog_last (stored_log content C n) = lastIndex (nLog n)" using plog_invD(1)[OF inv(1)] by simp
  then have "lastIndex (nLog n) = of_nat (length (logEntries (stored_log content C n)))"
    using inv(2) by (simp add: alog_last_def)
  then show "unat (lastIndex (nLog n)) = length (logEntries (stored_log content C n))"
    using l unat_plus_of_nat[of 0 "length (logEntries (stored_log content C n))"] by simp
qed

lemma elected_mono: "elected members V t i \<Longrightarrow> V \<subseteq> V' \<Longrightarrow> elected members V' t i"
  unfolding elected_def by blast

lemma elected_unique:
  assumes "finite members" and "vote_kept N V" and "elected members V t i" and "elected members V t j"
  shows "i = j"
proof -
  obtain P Q where "majority members P" "\<And>k. k \<in> P \<Longrightarrow> (k, t, i) \<in> V" "majority members Q" "\<And>k. k \<in> Q \<Longrightarrow> (k, t, j) \<in> V"
    using assms(3,4) unfolding elected_def by blast
  moreover from this obtain v where "v \<in> P" "v \<in> Q" using majorities_meet[OF assms(1)] by blast
  ultimately show ?thesis using assms(2) unfolding vote_kept_def by metis
qed

text \<open>A step that changes node \<open>i\<close> and, if any, the recorded logs of which \<open>i\<close> is the leader.\<close>

lemma matching_step:
  assumes inv: "matching_inv content C members L s" and c: "cluster_inv content members (rCluster s')"
    and nodes: "replica s' = (replica s)(i := m)"
    and terms: "currentTerm (nLog (replica s i)) \<le> currentTerm (nLog m)"
    and votes: "cVotes (rCluster s) \<subseteq> cVotes (rCluster s')" and g: "grows L L'"
    and m: "i \<in> members \<Longrightarrow> replica_ok content C L' i m"
    and mine: "\<And>t. L' t = L t \<or> (\<exists>ys. L' t = Some (i, ys) \<and> leader_log_ok members (rCluster s') L' t i ys)"
    and reqs: "\<And>j req. (j, req) \<in> rAppends s' \<Longrightarrow> (j, req) \<notin> rAppends s \<Longrightarrow> ae_traced L' j req"
  shows "matching_inv content C members L' s'"
  unfolding matching_inv_def
proof (intro conjI allI impI ballI)
  note D = matching_invD[OF inv]
  show "cluster_inv content members (rCluster s')" by (rule c)
  show "replica_ok content C L' j (replica s' j)" if j: "j \<in> members" for j
  proof (cases "j = i")
    case False
    note R = D(2)[OF j]
    have old: "L' t = L t" if "L t = Some (j, ys)" for t ys
    proof -
      obtain zs where "L' t = Some (j, ys @ zs)" using g \<open>L t = _\<close> unfolding grows_def by blast
      then show ?thesis using mine[of t] False by auto
    qed
    have new: "L t = Some (j, ys)" if "L' t = Some (j, ys)" for t ys using mine[of t] False that by auto
    have "replica s' j = replica s j" using False nodes by simp
    then show ?thesis
      unfolding replica_ok_def
      using replica_okD(1)[OF R] traced_grows[OF replica_okD(3)[OF R] g] old[OF replica_okD(5)[OF R]]
        replica_okD(5)[OF R] new replica_okD(6)[OF R] by metis
  qed (use m j nodes in auto)
  show "leader_log_ok members (rCluster s') L' t k ys" if L': "L' t = Some (k, ys)" for t k ys
    using mine[of t]
  proof
    assume "L' t = L t"
    then have "leader_log_ok members (rCluster s) L t k ys" using D(3) L' by simp
    then show ?thesis
      using traced_grows[OF _ g] elected_mono[OF _ votes] nodes terms
      unfolding leader_log_ok_def by (metis fun_upd_apply order_trans)
  qed (use L' in auto)
  show "ae_traced L' j req" if "(j, req) \<in> rAppends s'" for j req
    using reqs[OF that] D(4)[of j req] ae_traced_grows[OF _ g] by blast
qed

lemma vote_step_term: "vote_step content n m \<Longrightarrow> currentTerm (nLog n) \<le> currentTerm (nLog m)"
  by (auto simp: vote_step_def vote_le_def)

lemma log_kept_replica_ok:
  assumes "replica_ok content C L i n" and "log_kept content C n m"
  shows "replica_ok content C L i m"
proof -
  have e: "logEntries (stored_log content C m) = logEntries (stored_log content C n)"
    and l: "nRole m = Leader \<longrightarrow> nRole n = Leader \<and> currentTerm (nLog m) = currentTerm (nLog n)"
    and c: "nRole m = Candidate \<longrightarrow> nRole n = Candidate \<and> currentTerm (nLog m) = currentTerm (nLog n)"
    using assms(2) unfolding log_kept_def vote_step_def by blast+
  show ?thesis
    using replica_okD[OF assms(1)] log_kept_plain[OF _ assms(2)] l c unfolding replica_ok_def e by simp
qed

text \<open>A step that leaves the log of node \<open>i\<close> alone.\<close>

lemma matching_quiet:
  assumes inv: "matching_inv content C members L s" and c: "cluster_inv content members (rCluster s')"
    and nodes: "replica s' = (replica s)(i := m)" and i: "i \<in> members" and k: "log_kept content C (replica s i) m"
    and votes: "cVotes (rCluster s) \<subseteq> cVotes (rCluster s')" and reqs: "rAppends s' = rAppends s"
  shows "matching_inv content C members L s'"
proof (rule matching_step[OF inv c nodes _ votes grows_refl])
  show "currentTerm (nLog (replica s i)) \<le> currentTerm (nLog m)"
    using k unfolding log_kept_def by (blast intro: vote_step_term)
  show "replica_ok content C L i m" by (rule log_kept_replica_ok[OF matching_invD(2)[OF inv i] k])
qed (simp_all add: reqs)

text \<open>Node \<open>i\<close> becomes leader, of a term that it has not led before.\<close>

lemma matching_leader:
  assumes inv: "matching_inv content C members L s" and c: "cluster_inv content members (rCluster s')"
    and fin: "finite members" and nodes: "replica s' = (replica s)(i := m)" and i: "i \<in> members"
    and terms: "currentTerm (nLog (replica s i)) \<le> currentTerm (nLog m)"
    and votes: "cVotes (rCluster s) \<subseteq> cVotes (rCluster s')" and reqs: "rAppends s' = rAppends s"
    and m: "plain content C m" "traced L (logEntries (stored_log content C m))" "nRole m = Leader"
    and fresh: "\<And>ys. L (currentTerm (nLog m)) \<noteq> Some (i, ys)"
  shows "\<exists>L'. matching_inv content C members L' s'"
proof -
  let ?t = "currentTerm (nLog m)" and ?ys = "logEntries (stored_log content C m)"
  have "leader_ok members (cVotes (rCluster s')) i m" using cluster_invD(2)[OF c i] nodes by simp
  then have el: "elected members (cVotes (rCluster s')) ?t i" using m(3) by (simp add: leader_ok_def elected_def)
  have new: "L ?t = None"
  proof (cases "L ?t")
    case (Some q)
    obtain k ys where q: "q = (k, ys)" by force
    have "elected members (cVotes (rCluster s)) ?t k"
      using matching_invD(3)[OF inv Some[unfolded q]] by (simp add: leader_log_ok_def)
    then have "k = i" using elected_unique[OF fin cluster_invD(3)[OF c] elected_mono[OF _ votes] el] by blast
    then show ?thesis using fresh[of ys] Some q by simp
  qed
  have g: "grows L (L(?t \<mapsto> (i, ?ys)))" by (rule grows_add) (rule new)
  note tr = traced_grows[OF m(2) g]
  have "matching_inv content C members (L(?t \<mapsto> (i, ?ys))) s'"
  proof (rule matching_step[OF inv c nodes terms votes g])
    show "replica_ok content C (L(?t \<mapsto> (i, ?ys))) i m" using m tr by (simp add: replica_ok_def)
    show "(L(?t \<mapsto> (i, ?ys))) t = L t \<or> (\<exists>ys. (L(?t \<mapsto> (i, ?ys))) t = Some (i, ys) \<and>
        leader_log_ok members (rCluster s') (L(?t \<mapsto> (i, ?ys))) t i ys)" for t
      using tr el plain_log(1,2)[OF m(1)] nodes by (simp add: leader_log_ok_def)
  qed (use reqs in auto)
  then show ?thesis by blast
qed

text \<open>Leader \<open>i\<close> adds an entry of its term.\<close>

lemma matching_append:
  assumes inv: "matching_inv content C members L s" and c: "cluster_inv content members (rCluster s')"
    and nodes: "replica s' = (replica s)(i := m)" and i: "i \<in> members" "nRole (replica s i) = Leader"
    and votes: "cVotes (rCluster s) \<subseteq> cVotes (rCluster s')" and reqs: "rAppends s' = rAppends s"
    and m: "plain content C m" "nRole m = Leader" "currentTerm (nLog m) = currentTerm (nLog (replica s i))"
    and e: "logEntries (stored_log content C m) = logEntries (stored_log content C (replica s i)) @ [e]"
      "eTerm e = currentTerm (nLog (replica s i))"
  shows "\<exists>L'. matching_inv content C members L' s'"
proof -
  let ?t = "currentTerm (nLog m)" and ?ys = "logEntries (stored_log content C m)"
  note R = replica_okD[OF matching_invD(2)[OF inv i(1)]]
  have old: "L ?t = Some (i, logEntries (stored_log content C (replica s i)))" using R(5)[OF i(2)] m(3) by simp
  have g: "grows L (L(?t \<mapsto> (i, ?ys)))" unfolding e(1) by (rule grows_extend) (rule old)
  have "traced (L(?t \<mapsto> (i, ?ys))) (logEntries (stored_log content C (replica s i)) @ [e])"
    by (rule traced_snoc[OF traced_grows[OF R(3) g], where i = i]) (use e m(3) in simp)
  then have tr: "traced (L(?t \<mapsto> (i, ?ys))) ?ys" unfolding e(1) .
  have "elected members (cVotes (rCluster s')) ?t i"
    using matching_invD(3)[OF inv old] elected_mono[OF _ votes] by (simp add: leader_log_ok_def)
  then have "matching_inv content C members (L(?t \<mapsto> (i, ?ys))) s'"
    using tr plain_log(1,2)[OF m(1)] nodes m reqs
    by (intro matching_step[OF inv c nodes _ votes g]) (simp_all add: leader_log_ok_def replica_ok_def)
  then show ?thesis by blast
qed

text \<open>What a leader sends is a part of its log.\<close>

lemma log_slice_take_drop:
  assumes wf: "alog_wf a" and base: "logBase a = 0" and p: "p \<noteq> - 1" "p \<le> alog_last a" and hi: "hi \<le> alog_last a"
  shows "unat p + length (log_slice a (p + 1) hi) \<le> length (logEntries a)"
    and "log_slice a (p + 1) hi = take (length (log_slice a (p + 1) hi)) (drop (unat p) (logEntries a))"
proof -
  have u: "unat (p + 1) = Suc (unat p)" using p(1) by simp
  have last: "unat (alog_last a) = length (logEntries a)"
    using wf base unat_plus_of_nat[of 0 "length (logEntries a)"] by (simp add: alog_last_def alog_wf_def)
  then have le: "unat p \<le> length (logEntries a)" "unat hi \<le> length (logEntries a)"
    using p(2) hi by (simp_all add: word_le_nat_alt)
  have len: "length (log_slice a (p + 1) hi) = unat hi - unat p" using u by (simp add: log_slice_def)
  then show b: "unat p + length (log_slice a (p + 1) hi) \<le> length (logEntries a)" using le by simp
  show "log_slice a (p + 1) hi = take (length (log_slice a (p + 1) hi)) (drop (unat p) (logEntries a))"
  proof (rule nth_equalityI)
    fix k assume k: "k < length (log_slice a (p + 1) hi)"
    let ?i = "p + 1 + of_nat k :: u64"
    have "unat (p + 1) + k < 2 ^ 64" using k len u u64_max[of hi] by simp
    then have ui: "unat ?i = Suc (unat p + k)" using u by (simp add: unat_plus_of_nat)
    have "logBase a < p + 1" "p + 1 \<le> ?i" "?i \<le> hi"
      using base u ui k len by (simp_all add: word_less_nat_alt word_le_nat_alt)
    from log_slice_nth[OF wf this(1) hi this(2,3)]
    show "log_slice a (p + 1) hi ! k = take (length (log_slice a (p + 1) hi)) (drop (unat p) (logEntries a)) ! k"
      using k b base ui u by (simp add: alog_entry_def split: if_splits)
  qed (use b in simp)
qed

context raft_storage_sure
begin

lemma sent_traced:
  assumes R: "replica_ok content C L i n" and r: "replicateToPeer_request E C n peer t = Some (SendAppend req)"
    and ne: "i \<noteq> peer"
  shows "ae_traced L peer req"
proof -
  note ok = replica_okD[OF R]
  note q = replicate_request_abs[OF ok(2) r]
  let ?p = "aePrevLogIndex req"
  have wf: "alog_wf (node_log n)" by (rule alog_wf_plog[OF ok(2)])
  have bounds: "alog_last (node_log n) = lastIndex (nLog n)" "lastIndex (nLog n) \<noteq> - 1"
    using plog_invD(1)[OF ok(2)] by (simp_all add: plog_bounds_def)
  have p: "?p \<le> alog_last (node_log n)" using alog_term_range[OF wf q(7)] by (cases "?p = 0") auto
  then have p1: "?p \<noteq> - 1" using bounds word_order.extremum_uniqueI by metis
  obtain hi where hi: "aeEntries req = log_slice (node_log n) (?p + 1) hi" "hi \<le> alog_last (node_log n)"
    using q(8) bounds(1) by auto
  have "eTerm (logEntries (node_log n) ! (unat ?p - 1)) = aePrevLogTerm req" if "?p \<noteq> 0"
    using q(7)[OF that] that ok(4) by (auto simp: alog_term_def alog_entry_def split: if_splits)
  moreover have "L (aeTerm req) = Some (i, logEntries (node_log n))" using ok(5)[OF q(1)] q(2,3) by simp
  ultimately show ?thesis
    unfolding ae_traced_def
    using ne log_slice_take_drop[OF wf ok(4) p1 p hi(2), folded hi(1)] by blast
qed

lemma HandleAppendEntries_new_term:
  assumes h: "HandleAppendEntries E C n req = Some (n', resp)" and ok: "aerSuccess resp"
  shows "currentTerm (nLog n') = aeTerm req"
proof -
  obtain n1 t where t: "HandleAppendEntries_term E n req = Inr (n1, t)"
    using h ok by (auto simp: HandleAppendEntries_def ae_response_def split: sum.splits)
  have n1: "currentTerm (nLog n1) = aeTerm req" using HandleAppendEntries_term_cases(1,3)[OF t] by auto
  consider "nLog n' = nLog n1" | pl r where
    "AppendEntries E C (nLog n1) (aeEntries req) (FsyncOnAppend (nOpts n1)) = Some (pl, r)" "nLog n' = pl"
    using h t ok by (auto simp: HandleAppendEntries_def ae_response_def advance_commit_fields Let_def
        split: option.splits if_splits bind_splits prod.splits)
  then show ?thesis using n1 AppendEntries_vote[of C "nLog n1"] by cases (auto simp: same_vote_def)
qed

lemma plain_prev_matches:
  assumes "plain content C n" and "prev_matches (node_log n) req" and "aePrevLogIndex req \<noteq> 0"
  shows "unat (aePrevLogIndex req) \<le> length (logEntries (node_log n))"
    "eTerm (logEntries (node_log n) ! (unat (aePrevLogIndex req) - 1)) = aePrevLogTerm req"
proof -
  have n: "node_inv n" "logBase (node_log n) = 0" using assms(1) by (simp_all add: plain_def)
  have tm: "alog_term (node_log n) (aePrevLogIndex req) = Some (aePrevLogTerm req)"
    using assms(2,3) by (simp add: prev_matches_def)
  have "aePrevLogIndex req \<le> lastIndex (nLog n)"
    using alog_term_range[OF alog_wf_plog[OF n(1)] tm] plog_invD(1)[OF n(1)] by simp
  then show "unat (aePrevLogIndex req) \<le> length (logEntries (node_log n))"
    using plain_log(3)[OF assms(1)] by (simp add: word_le_nat_alt)
  show "eTerm (logEntries (node_log n) ! (unat (aePrevLogIndex req) - 1)) = aePrevLogTerm req"
    using tm assms(3) n(2) by (auto simp: alog_term_def alog_entry_def split: if_splits)
qed

text \<open>A leader never takes entries of its own term from another node.\<close>

lemma delivered_ok:
  assumes R: "replica_ok content C L j n" and ae: "ae_traced L j req"
    and logs: "\<And>t i ys. L t = Some (i, ys) \<Longrightarrow> traced L ys \<and> contiguous 1 ys \<and> length ys < 2 ^ 64 - 1"
    and h: "HandleAppendEntries E C n req = Some (m, resp)"
  shows "replica_ok content C L j m"
proof (cases "aerSuccess resp \<and> aeEntries req \<noteq> []")
  case False
  then show ?thesis using HandleAppendEntries_kept[OF replica_okD(2)[OF R] h] log_kept_replica_ok[OF R] by blast
next
  case True
  note ok = replica_okD[OF R]
  let ?p = "unat (aePrevLogIndex req)" and ?es = "aeEntries req"
  obtain i ys where r: "L (aeTerm req) = Some (i, ys)" "i \<noteq> j" "?p + length ?es \<le> length ys"
    "?es = take (length ?es) (drop ?p ys)"
    "aePrevLogIndex req \<noteq> 0 \<longrightarrow> eTerm (ys ! (?p - 1)) = aePrevLogTerm req"
    using ae unfolding ae_traced_def by blast
  note ys = logs[OF r(1)]
  have cont: "contiguous (aePrevLogIndex req + 1) ?es" using contiguous_slice r(3,4) ys by blast
  have wf: "ae_wf (node_log n) req" using cont r(3) ys ok(4) by (simp add: ae_wf_def)
  note A = HandleAppendEntries_accepted[OF ok(2) wf h conjunct1[OF True]]
  have hd: "eIndex (hd ?es) = aePrevLogIndex req + 1" using cont True by (cases ?es) auto
  have "aePrevLogIndex req \<noteq> - 1" using r(3) ys True unfolding not_max_unat by (cases ?es) auto
  then have "unat (eIndex (hd ?es)) - unat (logBase (node_log n)) - 1 = ?p" using hd ok(4) by simp
  then have es: "logEntries (node_log m) = take ?p (logEntries (node_log n)) @ ?es"
    using A(6) True by (simp add: alog_append_def)
  have "?p \<le> length (logEntries (node_log n)) \<and> eTerm (logEntries (node_log n) ! (?p - 1)) = eTerm (ys ! (?p - 1))"
    if "?p \<noteq> 0"
  proof -
    have "aePrevLogIndex req \<noteq> 0" using that by auto
    then show ?thesis using plain_prev_matches[OF ok(1) A(2)] r(5) by simp
  qed
  then have "logEntries (node_log m) = take (?p + length ?es) ys"
    unfolding es using overwrite_prefix[OF ok(3) conjunct1[OF ys] r(4,3)] by blast
  then have tr: "traced L (logEntries (node_log m))" using traced_take ys by simp
  have pl: "plain content C m"
    using A(3,4) HandleAppendEntries_role(1)[OF h] ok(1) by (simp add: plain_def)
  have "nRole m \<noteq> Leader"
  proof
    assume "nRole m = Leader"
    then have "nRole n = Leader" "currentTerm (nLog n) = aeTerm req"
      using HandleAppendEntries_vstep[OF h] HandleAppendEntries_new_term[OF h] True by (simp_all add: vote_step_def)
    then show False using ok(5) r(1,2) by simp
  qed
  moreover have "replica_ok content C L j m" if "nRole m = Candidate"
    using HandleAppendEntries_role(2)[OF h that] R by simp
  ultimately show ?thesis using pl tr by (cases "nRole m = Candidate") (simp_all add: replica_ok_def)
qed

section \<open>Every step keeps the invariant\<close>

lemma append_one:
  assumes n: "plain content C n" and room: "unat (lastIndex (nLog n)) + 2 < 2 ^ 64"
    and e: "eIndex e = lastIndex (nLog n) + 1"
    and a: "AppendEntries E C (nLog n) [e] sync = Some (nLog m, r)" and opts: "nOpts m = nOpts n"
  shows "plain content C m" "logEntries (node_log m) \<in> {logEntries (node_log n), logEntries (node_log n) @ [e]}"
proof -
  have inv: "node_inv n" and base: "logBase (node_log n) = 0" "SnapshotThreshold (nOpts n) = 0"
    using n by (simp_all add: plain_def)
  have u: "unat (lastIndex (nLog n) + 1) = Suc (unat (lastIndex (nLog n)))"
    using plog_invD(1)[OF inv] by (simp add: plog_bounds_def)
  have "node_inv m \<and> logBase (node_log m) = 0 \<and>
    logEntries (node_log m) \<in> {logEntries (node_log n), logEntries (node_log n) @ [e]}"
  proof (cases r)
    case None
    have last: "alog_last (node_log n) = lastIndex (nLog n)" using plog_invD(1)[OF inv] by simp
    have "appendable (node_log n) [e]"
      using room e u base(1) unfolding appendable_def last by (simp add: word_less_nat_alt)
    note D = AppendEntries_done[OF inv this a[unfolded None]]
    have "take (unat (eIndex e) - unat (logBase (node_log n)) - 1) (logEntries (node_log n)) = logEntries (node_log n)"
      using u e base(1) plain_log(3)[OF n] by simp
    then show ?thesis using D base(1) unfolding D(2) by (simp add: alog_append_def)
  next
    case (Some err)
    then show ?thesis using AppendEntries_failed[OF inv a[unfolded Some]] base(1) by simp
  qed
  then show "plain content C m" "logEntries (node_log m) \<in> {logEntries (node_log n), logEntries (node_log n) @ [e]}"
    using base(2) opts by (simp_all add: plain_def)
qed

lemma own_append:
  assumes inv: "matching_inv content C members L s" and c: "cluster_inv content members (rCluster (set_replica i m s))"
    and i: "i \<in> members" "nRole (replica s i) = Leader" "unat (lastIndex (nLog (replica s i))) + 2 < 2 ^ 64"
    and e: "eIndex e = lastIndex (nLog (replica s i)) + 1" "eTerm e = currentTerm (nLog (replica s i))"
    and a: "AppendEntries E C (nLog (replica s i)) [e] sync = Some (nLog m, r)"
    and m: "nOpts m = nOpts (replica s i)" "nRole m = Leader" "vstep (replica s i) m"
  shows "\<exists>L'. matching_inv content C members L' (set_replica i m s)"
proof -
  note R = replica_okD[OF matching_invD(2)[OF inv i(1)]]
  note A = append_one[OF R(1) i(3) e(1) a m(1)]
  show ?thesis
  proof (cases "logEntries (node_log m) = logEntries (node_log (replica s i))")
    case True
    have "kept (replica s i) m"
      using True A(1) R(1) m by (simp add: log_kept_def plain_def)
    then show ?thesis using matching_quiet[OF inv c _ i(1)] by auto
  next
    case False
    then have "logEntries (node_log m) = logEntries (node_log (replica s i)) @ [e]" using A(2) by simp
    moreover have "currentTerm (nLog m) = currentTerm (nLog (replica s i))"
      using m(2,3) by (simp add: vote_step_def)
    ultimately show ?thesis using e(2) m(2) A(1) by (intro matching_append[OF inv c _ i(1,2)]) simp_all
  qed
qed

lemma client_write_inv:
  assumes inv: "matching_inv content C members L s" and c: "cluster_inv content members (rCluster (set_replica i m s))"
    and i: "i \<in> members" "unat (lastIndex (nLog (replica s i))) + 2 < 2 ^ 64"
    and p: "Propose_locked E C (replica s i) typ key v rid = Some (m, r)"
  shows "\<exists>L'. matching_inv content C members L' (set_replica i m s)"
proof (cases "nRole (replica s i) = Leader")
  case True
  define e where "e = \<lparr>eIndex = lastIndex (nLog (replica s i)) + 1, eTerm = currentTerm (nLog (replica s i)),
    eType = typ, eKey = key, eValue = v, eClientRequestID = rid\<rparr>"
  obtain err where "AppendEntries E C (nLog (replica s i)) [e] (FsyncOnAppend (nOpts (replica s i))) = Some (nLog m, err)"
    and "nOpts m = nOpts (replica s i)" "nRole m = Leader"
    using p True unfolding e_def by (auto simp: Propose_locked_def Let_def make_chan_def split: option.splits)
  then show ?thesis
    using Propose_locked_vstep[OF p] by (intro own_append[OF inv c i(1) True i(2)]) (simp_all add: e_def)
next
  case False
  then have "m = replica s i" using p by (simp add: Propose_locked_def)
  then show ?thesis
    using matching_quiet[OF inv c _ i(1) log_kept_refl] replica_okD(2)[OF matching_invD(2)[OF inv i(1)]] by auto
qed

lemma append_noop_inv:
  assumes inv: "matching_inv content C members L s" and c: "cluster_inv content members (rCluster (set_replica i m s))"
    and i: "i \<in> members" "unat (lastIndex (nLog (replica s i))) + 2 < 2 ^ 64" "nRole (replica s i) = Leader"
    and a: "appendLocal E C (replica s i) e = Some (m, e')"
  shows "\<exists>L'. matching_inv content C members L' (set_replica i m s)"
proof -
  let ?e = "e\<lparr>eTerm := currentTerm (nLog (replica s i)), eIndex := lastIndex (nLog (replica s i)) + 1\<rparr>"
  obtain err where "AppendEntries E C (nLog (replica s i)) [?e] (FsyncOnAppend (nOpts (replica s i))) = Some (nLog m, err)"
    and "nOpts m = nOpts (replica s i)" "nRole m = Leader"
    using a i(3) by (auto simp: appendLocal_def Let_def)
  then show ?thesis
    using appendLocal_vstep[OF a] by (intro own_append[OF inv c i(1,3,2)]) simp_all
qed

lemma becomeCandidate_log:
  assumes n: "plain content C n" and c: "becomeCandidate E n = (n', t)"
  shows "plain content C (resetElectionTimer n')"
    "logEntries (node_log (resetElectionTimer n')) = logEntries (node_log n)"
proof -
  have "nLog (resetElectionTimer n') = nLog (set_term_and_vote E t (nID n) n)" "nOpts (resetElectionTimer n') = nOpts n"
    using c by (auto simp: becomeCandidate_def becomeCandidate_set_def Let_def resetElectionTimer_def)
  then show "plain content C (resetElectionTimer n')"
    "logEntries (node_log (resetElectionTimer n')) = logEntries (node_log n)"
    using n set_term_and_vote_inv[of n t "nID n"] set_term_and_vote_entries[of n t "nID n"]
    by (simp_all add: plain_def)
qed

text \<open>A node has not led a term that is still ahead of it.\<close>

lemma next_term_fresh:
  assumes "matching_inv content C members L s" and "currentTerm (nLog (replica s i)) < t"
  shows "L t \<noteq> Some (i, ys)"
  using matching_invD(3)[OF assms(1), of t i ys] assms(2) by (auto simp: leader_log_ok_def)

lemma candidate_inv:
  assumes inv: "matching_inv content C members L s" and c: "cluster_inv content members (rCluster s')"
    and i: "i \<in> members" and nodes: "replica s' = (replica s)(i := resetElectionTimer n)"
    and votes: "cVotes (rCluster s) \<subseteq> cVotes (rCluster s')" and reqs: "rAppends s' = rAppends s"
    and b: "becomeCandidate E (replica s i) = (n, t)" "currentTerm (nLog (replica s i)) \<noteq> - 1"
  shows "matching_inv content C members L s'"
proof (rule matching_step[OF inv c nodes _ votes grows_refl])
  note bc = becomeCandidate_vstep[OF b]
  note R = replica_okD[OF matching_invD(2)[OF inv i]]
  note lg = becomeCandidate_log[OF R(1) b(1)]
  have t: "currentTerm (nLog (resetElectionTimer n)) = t" "nRole (resetElectionTimer n) = Candidate"
    using bc(2,4) by (simp_all add: resetElectionTimer_def)
  show "currentTerm (nLog (replica s i)) \<le> currentTerm (nLog (resetElectionTimer n))" using t(1) bc(5) by simp
  show "replica_ok content C L i (resetElectionTimer n)"
    using lg R(3) t next_term_fresh[OF inv bc(5)] unfolding replica_ok_def lg(2) by simp
qed (simp_all add: reqs)

lemma new_leader_inv:
  assumes inv: "matching_inv content C members L s" and c: "cluster_inv content members (rCluster s')"
    and fin: "finite members" and i: "i \<in> members" and nodes: "replica s' = (replica s)(i := m)"
    and votes: "cVotes (rCluster s) \<subseteq> cVotes (rCluster s')" and reqs: "rAppends s' = rAppends s"
    and terms: "currentTerm (nLog (replica s i)) \<le> currentTerm (nLog n)"
    and n: "plain content C n" "logEntries (node_log n) = logEntries (node_log (replica s i))" "nRole n = Candidate"
    and fresh: "\<And>ys. L (currentTerm (nLog n)) \<noteq> Some (i, ys)" and b: "becomeLeader_locked n = (m, won)"
  shows "\<exists>L'. matching_inv content C members L' s'"
proof (rule matching_leader[OF inv c fin nodes i _ votes reqs])
  have m: "nLog m = nLog n" "nOpts m = nOpts n" "nRole m = Leader"
    using becomeLeader_locked_eq[OF b] becomeLeader_locked_leader[OF n(3)] b by auto
  show "currentTerm (nLog (replica s i)) \<le> currentTerm (nLog m)" using terms m by simp
  show "plain content C m" "nRole m = Leader" using n(1) m by (simp_all add: plain_def)
  show "traced L (logEntries (node_log m))"
    using n(2) m(1) replica_okD(3)[OF matching_invD(2)[OF inv i]] by simp
  show "L (currentTerm (nLog m)) \<noteq> Some (i, ys)" for ys using fresh m(1) by simp
qed

lemma elect_inv:
  assumes inv: "matching_inv content C members L s" and fin: "finite members"
    and v: "voting_step E C members (rCluster s) c" and ci: "cluster_inv content members c"
  shows "\<exists>L'. matching_inv content C members L' (s\<lparr>rCluster := c\<rparr>)"
proof -
  let ?s = "s\<lparr>rCluster := c\<rparr>"
  have c: "cluster_inv content members (rCluster ?s)" using ci by simp
  note D = matching_invD[OF inv]
  have kept: "\<exists>L'. matching_inv content C members L' ?s"
    if "i \<in> members" "kept (replica s i) m" "replica ?s = (replica s)(i := m)" "cVotes (rCluster s) \<subseteq> cVotes c" for i m
    using matching_quiet[OF inv c that(3,1,2)] that(4) by auto
  show ?thesis
    using v
  proof cases
    case (start_election i n t m req)
    then show ?thesis
      using candidate_inv[OF inv c start_election(2) _ _ _ start_election(5,3)] by auto
  next
    case (start_alone i n t m b)
    note bc = becomeCandidate_vstep[OF start_alone(5,3)]
    note lg = becomeCandidate_log[OF replica_okD(1)[OF D(2)[OF start_alone(2)]] start_alone(5)]
    show ?thesis
      by (rule new_leader_inv[OF inv c fin start_alone(2) _ _ _ _ lg _ _ start_alone(6)])
        (use start_alone(1) bc next_term_fresh[OF inv bc(5)] in \<open>auto simp: resetElectionTimer_def\<close>)
  next
    case (vote_rpc j req m resp)
    show ?thesis
      by (rule kept[OF vote_rpc(2) HandleRequestVote_kept[OF replica_okD(2)[OF D(2)[OF vote_rpc(2)]] vote_rpc(5)]])
        (auto simp: vote_rpc(1))
  next
    case (vote_result i a j resp m el)
    have i: "i \<in> members" using cluster_invD(7)[OF D(1) vote_result(2)] by (simp add: attempt_ok_def)
    have "kept (replica s i) m"
      using election_step_kept[OF replica_okD(2)[OF D(2)[OF i]]] vote_result(7) by (metis fst_conv)
    then show ?thesis by (rule kept[OF i]) (simp_all add: vote_result(1))
  next
    case (vote_error i a j err m el)
    have i: "i \<in> members" using cluster_invD(7)[OF D(1) vote_error(2)] by (simp add: attempt_ok_def)
    have "kept (replica s i) m"
      using election_step_kept[OF replica_okD(2)[OF D(2)[OF i]]] vote_error(8) by (metis fst_conv)
    then show ?thesis by (rule kept[OF i]) (simp_all add: vote_error(1))
  next
    case (win i a m b)
    have i: "i \<in> members" using cluster_invD(7)[OF D(1) win(2)] by (simp add: attempt_ok_def)
    note R = replica_okD[OF D(2)[OF i]]
    show ?thesis
      by (rule new_leader_inv[OF inv c fin i _ _ _ _ R(1) refl win(4) R(6)[OF win(4)] win(6)]) (simp_all add: win(1))
  next
    case (give_up i)
    then show ?thesis
      using D ci by (intro exI[of _ L] matching_step[OF inv c, of i "replica s i"]) auto
  qed
qed

theorem replicas_step_inv:
  assumes st: "replicas_step E C members s s'" and inv: "matching_inv content C members L s"
    and ne: "[] \<notin> members" and fin: "finite members"
  shows "\<exists>L'. matching_inv content C members L' s'"
proof -
  note D = matching_invD[OF inv]
  have c: "cluster_inv content members (rCluster s')"
    using replicas_step_cluster[OF st] D(1) cluster_step_inv[OF _ D(1) ne fin] by auto
  show ?thesis
    using st
  proof cases
    case (elect c')
    then show ?thesis using elect_inv[OF inv fin elect(2)] c by simp
  next
    case (send_append i p t req)
    have "piID p \<noteq> i"
      using cluster_invD(1)[OF D(1) send_append(2)] send_append(3) by (auto simp: member_ok_def)
    then have "ae_traced L (piID p) req" using sent_traced[OF D(2)[OF send_append(2)] send_append(4)] by simp
    then show ?thesis using inv send_append(1) by (auto simp: matching_inv_def)
  next
    case (deliver_append j req m resp)
    have logs: "traced L ys \<and> contiguous 1 ys \<and> length ys < 2 ^ 64 - 1" if "L t = Some (i, ys)" for t i ys
      using D(3)[OF that] by (simp add: leader_log_ok_def)
    note R = delivered_ok[OF D(2)[OF deliver_append(2)] D(4)[OF deliver_append(3)] logs deliver_append(4)]
    then show ?thesis
      using deliver_append(1) c vote_step_term[OF HandleAppendEntries_vstep[OF deliver_append(4)]]
      by (intro exI[of _ L] matching_step[OF inv, of s' j m]) auto
  next
    case (client_write i ty key v rid m r)
    then show ?thesis using client_write_inv[OF inv _ client_write(2,3,4)] c by simp
  next
    case (append_noop i e m e')
    then show ?thesis using append_noop_inv[OF inv _ append_noop(2-5)] c by simp
  next
    case (quiet i m)
    have "kept (replica s i) m" by (rule quiet_op_kept[OF quiet(3) replica_okD(1)[OF D(2)[OF quiet(2)]]])
    then show ?thesis using matching_quiet[OF inv c _ quiet(2)] quiet(1) by auto
  next
    case (reboot i opts sm st addr m)
    note R = replica_okD[OF D(2)[OF reboot(2)]]
    have "kept (replica s i) m" using reboot_kept[OF reboot(4) R(2)] reboot(3) R(1) by (simp add: plain_def)
    then show ?thesis using matching_quiet[OF inv c _ reboot(2)] reboot(1) by auto
  qed
qed

lemma replicas_reach_inv:
  assumes "replicas_reach E C members s0 s" and "replicas_start content C members s0"
    and "[] \<notin> members" and "finite members"
  shows "\<exists>L. matching_inv content C members L s"
  using assms(1)
proof (induction rule: rtranclp_induct)
  case base
  have "matching_inv content C members (\<lambda>t. None) s0"
    using assms(2) cluster_start_inv[of content members "rCluster s0"]
    by (auto simp: replicas_start_def cluster_start_def matching_inv_def replica_ok_def)
  then show ?case by blast
next
  case (step s s')
  then show ?case using replicas_step_inv assms(3,4) by blast
qed

text \<open>Logs of a reachable state that have an entry of the same index and term agree up to it.\<close>

lemma logs_match:
  assumes inv: "matching_inv content C members L s" and ij: "i \<in> members" "j \<in> members"
    and e: "alog_entry (node_log (replica s i)) k = Some e" "alog_entry (node_log (replica s j)) k = Some e'"
    and t: "eTerm e = eTerm e'" and k': "k' \<le> k"
  shows "alog_entry (node_log (replica s i)) k' = alog_entry (node_log (replica s j)) k'"
proof -
  let ?xs = "logEntries (node_log (replica s i))" and ?ys = "logEntries (node_log (replica s j))"
  note I = replica_okD[OF matching_invD(2)[OF inv ij(1)]] and J = replica_okD[OF matching_invD(2)[OF inv ij(2)]]
  have last: "alog_last (node_log (replica s i)) = lastIndex (nLog (replica s i))"
    "alog_last (node_log (replica s j)) = lastIndex (nLog (replica s j))"
    using plog_invD(1)[OF I(2)] plog_invD(1)[OF J(2)] by simp_all
  note K = alog_entry_SomeD[OF e(1)] alog_entry_SomeD[OF e(2)]
  have k: "0 < unat k" "unat k \<le> length ?xs" "unat k \<le> length ?ys"
    using K I(4) plain_log(3)[OF I(1)] plain_log(3)[OF J(1)] unfolding last by (simp_all add: word_le_nat_alt word_less_nat_alt)
  have "e = ?xs ! (unat k - 1)" "e' = ?ys ! (unat k - 1)"
    using e I(4) J(4) by (auto simp: alog_entry_def split: if_splits)
  then have "take (Suc (unat k - 1)) ?xs = take (Suc (unat k - 1)) ?ys"
    using t k by (intro traced_agree[OF I(3) J(3)]) auto
  then have tk: "take (unat k) ?xs = take (unat k) ?ys" using k(1) by simp
  have eq: "?xs ! x = ?ys ! x" if "x < unat k" for x
    using nth_take[OF that, of ?xs] nth_take[OF that, of ?ys] tk by simp
  have "unat k' \<le> unat k" using k' by (simp add: word_le_nat_alt)
  moreover have "k' \<le> lastIndex (nLog (replica s i))" "k' \<le> lastIndex (nLog (replica s j))"
    using order_trans[OF k'] K unfolding last by blast+
  ultimately show ?thesis
    using eq[of "unat k' - 1"] k(1) I(4) J(4) unfolding alog_entry_def last by (simp add: word_less_nat_alt)
qed

end

end
