(* ===== verification/Matching_Properties.thy ===== *)
theory Matching_Properties
  imports Log_Matching Election_Properties
begin

text \<open>
  Log Matching for the cluster of \<^const>\<open>replicas_step\<close>, on what the nodes read from their logs, and
  the race of \<^verbatim>\<open>becomeLeader\<close> that the model of the cluster has to exclude.
\<close>

section \<open>A run for the witness\<close>

text \<open>Node a is elected with the vote of b, writes its no-op entry and replicates it to b.\<close>

definition ex_start :: "memdb replicas" where
  "ex_start = \<lparr>rCluster = ex_cluster, rAppends = {}\<rparr>"

definition ex_cand :: "memdb node" where
  "ex_cand = resetElectionTimer (fst (becomeCandidate sureE (cNodes ex_cluster ''a'')))"

definition ex_ballot :: request_vote_request where
  "ex_ballot = vote_request sureE gob_codec ex_cand 1"

definition ex_voter :: "memdb node" where
  "ex_voter = fst (HandleRequestVote sureE gob_codec (cNodes ex_cluster ''b'') ex_ballot)"

definition ex_winner :: "memdb node" where
  "ex_winner = fst (becomeLeader_locked ex_cand)"

definition ex_noop :: entry where
  "ex_noop = \<lparr>eIndex = 0, eTerm = 0, eType = EntryNoop, eKey = [], eValue = [], eClientRequestID = []\<rparr>"

definition ex_writer :: "memdb node" where
  "ex_writer = fst (the (appendLocal sureE gob_codec ex_winner ex_noop))"

definition ex_append :: append_entries_request where
  "ex_append = \<lparr>aeTerm = 1, aeLeaderID = ''a'', aePrevLogIndex = 0, aePrevLogTerm = 0,
     aeEntries = [ex_noop\<lparr>eTerm := 1, eIndex := 1\<rparr>], aeLeaderCommit = 0, aeLeaderClientAddr = ''addr''\<rparr>"

definition ex_reader :: "memdb node" where
  "ex_reader = fst (the (HandleAppendEntries sureE gob_codec ex_voter ex_append))"

text \<open>What the run needs to know of a node, with the entry at its last index.\<close>

definition node_view ::
    "memdb node \<Rightarrow> role \<times> u64 \<times> u64 \<times> u64 \<times> peer_info list \<times> u64 \<times> (goerror + entry)" where
  "node_view n = (nRole n, currentTerm (nLog n), lastIndex (nLog n), LastTerm sureE gob_codec (nLog n), nPeers n,
     nCommitIndex n, Log_Get sureE gob_codec (nLog n) (lastIndex (nLog n)))"

lemma map_option_the: "map_option f x = Some v \<Longrightarrow> x \<noteq> None \<and> f (the x) = v"
  by auto

lemma ex_vote_granted:
  "snd (HandleRequestVote sureE gob_codec (cNodes ex_cluster ''b'') ex_ballot) = \<lparr>rvrTerm = 1, rvrVoteGranted = True\<rparr>"
  by code_simp

lemma ex_writer_request: "replicateToPeer_request sureE gob_codec ex_writer ''b'' 1 = Some (SendAppend ex_append)"
  by code_simp

lemma ex_writer_view: "map_option (node_view \<circ> fst) (appendLocal sureE gob_codec ex_winner ex_noop)
    = Some (Leader, 1, 1, 1, [\<lparr>piID = ''b''\<rparr>, \<lparr>piID = ''c''\<rparr>], 0, Inr (ex_noop\<lparr>eTerm := 1, eIndex := 1\<rparr>))"
  by code_simp

lemma ex_reader_view: "map_option (node_view \<circ> fst) (HandleAppendEntries sureE gob_codec ex_voter ex_append)
    = Some (Follower, 1, 1, 1, [\<lparr>piID = ''a''\<rparr>, \<lparr>piID = ''c''\<rparr>], 0, Inr (ex_noop\<lparr>eTerm := 1, eIndex := 1\<rparr>))"
  by code_simp

lemmas ex_written = map_option_the[OF ex_writer_view, unfolded node_view_def, simplified, folded ex_writer_def]

lemmas ex_read = map_option_the[OF ex_reader_view, unfolded node_view_def, simplified, folded ex_reader_def]

lemma ex_candidate_facts:
  "snd (becomeCandidate sureE (cNodes ex_cluster ''a'')) = 1"
  "nRole ex_cand = Candidate" "currentTerm (nLog ex_cand) = 1" "rvTerm ex_ballot = 1" "rvCandidateID ex_ballot = ''a''"
  "nRole ex_winner = Leader" "lastIndex (nLog ex_winner) = 0" "nPeers ex_cand = [\<lparr>piID = ''b''\<rparr>, \<lparr>piID = ''c''\<rparr>]"
  by code_simp+

lemma ex_run_facts:
  "Log_Get sureE gob_codec (nLog ex_writer) 1 = Inr (ex_noop\<lparr>eTerm := 1, eIndex := 1\<rparr>)"
  "Log_Get sureE gob_codec (nLog ex_reader) 1 = Inr (ex_noop\<lparr>eTerm := 1, eIndex := 1\<rparr>)"
  "appendLocal sureE gob_codec ex_winner ex_noop \<noteq> None" "HandleAppendEntries sureE gob_codec ex_voter ex_append \<noteq> None"
  "nPeers ex_writer = [\<lparr>piID = ''b''\<rparr>, \<lparr>piID = ''c''\<rparr>]"
  using ex_written ex_read by auto

text \<open>The states of the cluster along the run.\<close>

definition ex_polled :: "memdb cluster" where
  "ex_polled = ex_cluster\<lparr>cNodes := (cNodes ex_cluster)(''a'' := ex_cand), cRequests := {ex_ballot},
     cElections := (\<lambda>i. None)(''a'' := Some \<lparr>atRequest = ex_ballot, atResponded = {}, atCount = first_count\<rparr>),
     cVotes := {(''a'', 1, ''a'')}\<rparr>"

definition ex_voted :: "memdb cluster" where
  "ex_voted = ex_polled\<lparr>cNodes := (cNodes ex_polled)(''b'' := ex_voter),
     cResponses := {(''b'', ex_ballot, \<lparr>rvrTerm = 1, rvrVoteGranted = True\<rparr>)},
     cVotes := {(''b'', 1, ''a''), (''a'', 1, ''a'')}\<rparr>"

definition ex_counted :: "memdb cluster" where
  "ex_counted = ex_voted\<lparr>cNodes := (cNodes ex_voted)(''a'' := ex_cand),
     cElections := (cElections ex_voted)(''a'' := Some \<lparr>atRequest = ex_ballot, atResponded = {''b''},
       atCount = \<lparr>elVotes = 2, elResponses = 1, elWon = True\<rparr>\<rparr>)\<rparr>"

definition ex_led :: "memdb cluster" where
  "ex_led = ex_counted\<lparr>cNodes := (cNodes ex_counted)(''a'' := ex_winner), cElections := (cElections ex_counted)(''a'' := None)\<rparr>"

definition ex_sent :: "memdb replicas" where
  "ex_sent = (set_replica ''a'' ex_writer (ex_start\<lparr>rCluster := ex_led\<rparr>))\<lparr>rAppends := {(''b'', ex_append)}\<rparr>"

definition ex_end :: "memdb replicas" where
  "ex_end = set_replica ''b'' ex_reader ex_sent"

lemma ex_elected: "(voting_step sureE gob_codec ex_members)\<^sup>*\<^sup>* ex_cluster ex_led"
proof -
  note st = ex_candidate_facts
  have a: "''a'' \<in> ex_members" "''b'' \<in> ex_members" by (simp_all add: ex_members_def)
  obtain n where n: "becomeCandidate sureE (cNodes ex_cluster ''a'') = (n, 1)" "ex_cand = resetElectionTimer n"
    using st(1) by (cases "becomeCandidate sureE (cNodes ex_cluster ''a'')") (simp add: ex_cand_def)
  have 1: "voting_step sureE gob_codec ex_members ex_cluster ex_polled"
    using voting_step.start_election[OF a(1) _ _ n ex_ballot_def]
    by (simp add: ex_polled_def ex_cluster_def ex_log0_def)
  have b: "cNodes ex_polled ''b'' = cNodes ex_cluster ''b''" by (simp add: ex_polled_def)
  have 2: "voting_step sureE gob_codec ex_members ex_polled ex_voted"
    using voting_step.vote_rpc[OF a(2), of ex_ballot ex_polled sureE gob_codec ex_voter "\<lparr>rvrTerm = 1, rvrVoteGranted = True\<rparr>"]
      st(4,5) ex_vote_granted by (simp add: ex_voted_def ex_voter_def b) (simp add: ex_polled_def ex_cluster_def prod_eq_iff)
  have el: "election_step sureE 1 (VoteArrives (vote_result_of 1 (Inr \<lparr>rvrTerm = 1, rvrVoteGranted = True\<rparr>)))
      (ex_cand, first_count) = (ex_cand, \<lparr>elVotes = 2, elResponses = 1, elWon = True\<rparr>)"
    using st(2,3,8) by (simp add: election_step_def vote_result_of_def first_count_def Let_def)
  have 3: "voting_step sureE gob_codec ex_members ex_voted ex_counted"
    using voting_step.vote_result[of ex_voted "''a''" "\<lparr>atRequest = ex_ballot, atResponded = {}, atCount = first_count\<rparr>"
        "''b''" "\<lparr>rvrTerm = 1, rvrVoteGranted = True\<rparr>" sureE ex_cand _ gob_codec ex_members] el st(4,8)
    by (simp add: ex_counted_def ex_voted_def ex_polled_def first_count_def)
  have 4: "voting_step sureE gob_codec ex_members ex_counted ex_led"
    using voting_step.win[of ex_counted "''a''" "\<lparr>atRequest = ex_ballot, atResponded = {''b''},
       atCount = \<lparr>elVotes = 2, elResponses = 1, elWon = True\<rparr>\<rparr>" ex_winner "snd (becomeLeader_locked ex_cand)"
       sureE gob_codec ex_members] st(2-4)
    by (simp add: ex_led_def ex_counted_def ex_winner_def)
  show ?thesis using 1 2 3 4 by (meson r_into_rtranclp rtranclp_trans)
qed

lemma elect_reach:
  "(voting_step E C members)\<^sup>*\<^sup>* c c' \<Longrightarrow> rCluster s = c \<Longrightarrow> replicas_reach E C members s (s\<lparr>rCluster := c'\<rparr>)"
proof (induction rule: rtranclp_induct)
  case base
  then show ?case by (cases s) simp
next
  case (step c' c'')
  have "replicas_step E C members (s\<lparr>rCluster := c'\<rparr>) (s\<lparr>rCluster := c'\<rparr>\<lparr>rCluster := c''\<rparr>)"
    by (rule replicas_step.elect) (use step.hyps(2) in simp)
  then show ?case using step.IH step.prems by simp
qed

lemma ex_sent_nodes:
  "replica ex_sent ''a'' = ex_writer" "replica ex_sent ''b'' = ex_voter" "replica ex_sent ''c'' = cNodes ex_cluster ''c''"
  "rAppends ex_sent = {(''b'', ex_append)}"
  "i \<notin> {''a'', ''b''} \<Longrightarrow> replica ex_sent i = cNodes ex_cluster i"
  by (simp_all add: ex_sent_def ex_led_def ex_counted_def ex_voted_def ex_polled_def)

lemma ex_sent_reach: "replicas_reach sureE gob_codec ex_members ex_start ex_sent"
proof -
  let ?s1 = "ex_start\<lparr>rCluster := ex_led\<rparr>"
  let ?s2 = "set_replica ''a'' ex_writer ?s1"
  have a: "''a'' \<in> ex_members" by (simp add: ex_members_def)
  have node: "replica ?s1 ''a'' = ex_winner" by (simp add: ex_led_def ex_counted_def ex_voted_def)
  have 1: "replicas_reach sureE gob_codec ex_members ex_start ?s1"
    using elect_reach[OF ex_elected, of ex_start] by (simp add: ex_start_def)
  obtain e where "appendLocal sureE gob_codec (replica ?s1 ''a'') ex_noop = Some (ex_writer, e)"
    unfolding node using ex_run_facts(3) by (auto simp: ex_writer_def)
  then have 2: "replicas_step sureE gob_codec ex_members ?s1 ?s2"
    by (intro replicas_step.append_noop[OF a]) (use ex_candidate_facts(6,7) node in simp_all)
  have 3: "replicas_step sureE gob_codec ex_members ?s2 ex_sent"
    using replicas_step.send_append[OF a, of "\<lparr>piID = ''b''\<rparr>" ?s2 sureE gob_codec 1 ex_append] ex_writer_request ex_run_facts(5)
    by (simp add: ex_sent_def ex_start_def)
  show ?thesis using 1 2 3 by (meson r_into_rtranclp rtranclp_trans)
qed

lemma ex_run: "replicas_reach sureE gob_codec ex_members ex_start ex_end"
proof -
  obtain r where "HandleAppendEntries sureE gob_codec (replica ex_sent ''b'') ex_append = Some (ex_reader, r)"
    unfolding ex_sent_nodes using ex_run_facts(4) by (auto simp: ex_reader_def)
  then have "replicas_step sureE gob_codec ex_members ex_sent ex_end"
    unfolding ex_end_def by (intro replicas_step.deliver_append) (simp_all add: ex_sent_nodes ex_members_def)
  then show ?thesis using ex_sent_reach by simp
qed

lemma ex_start_ok: "replicas_start mem_content gob_codec ex_members ex_start"
  using ex_cluster_start ex_log0_inv ex_log0_abs
  by (simp add: replicas_start_def ex_start_def plain_def ex_cluster_def ex_opts_def)

section \<open>The property\<close>



section \<open>The race of becomeLeader\<close>

text \<open>
  \<^verbatim>\<open>becomeLeader\<close> gives up the mutex before it appends its no-op, and \<^verbatim>\<open>appendLocal\<close> does not look at the
  role. The winner of term 1 hears from the leader of term 2 in between, steps down, and then writes
  the no-op as an entry of term 2, which the leader of term 2 never made.
\<close>

definition ex_overtaken :: "memdb node" where
  "ex_overtaken = fst (the (HandleAppendEntries sureE gob_codec ex_winner
     \<lparr>aeTerm = 2, aeLeaderID = ''c'', aePrevLogIndex = 0, aePrevLogTerm = 0, aeEntries = [], aeLeaderCommit = 0,
      aeLeaderClientAddr = ''addr''\<rparr>))"

definition ex_intruder :: "memdb node" where
  "ex_intruder = fst (the (appendLocal sureE gob_codec ex_overtaken ex_noop))"

lemma ex_intruder_view: "node_view ex_intruder
    = (Follower, 2, 1, 2, [\<lparr>piID = ''b''\<rparr>, \<lparr>piID = ''c''\<rparr>], 0, Inr (ex_noop\<lparr>eTerm := 2, eIndex := 1\<rparr>))"
  by code_simp

lemma noop_written_after_step_down:
  "nRole ex_winner = Leader \<and> currentTerm (nLog ex_winner) = 1 \<and> nRole ex_intruder = Follower \<and>
   Log_Get sureE gob_codec (nLog ex_intruder) 1 = Inr (ex_noop\<lparr>eTerm := 2, eIndex := 1\<rparr>)"
  using ex_candidate_facts(3,6) becomeLeader_locked_frame(1)[OF surjective_pairing, of ex_cand] ex_intruder_view
  by (auto simp: ex_winner_def node_view_def)

end
