(* ===== verification/Recovery_Properties.thy ===== *)
theory Recovery_Properties
  imports Client_Properties Snapshot_Properties
begin

text \<open>
  How a node gets its state back: from a snapshot that a leader pushes (\<^verbatim>\<open>HandleInstallSnapshot\<close> of
  \<^verbatim>\<open>internal/raft/snapshot.go\<close>), and from its own disk when it starts again (\<^verbatim>\<open>NewNode\<close> of
  \<^verbatim>\<open>internal/raft/state.go\<close>).
\<close>

section \<open>Restoring and moving the boundary on reliable storage\<close>

context raft_storage_sure
begin

lemma Restore_sure: "\<exists>sm. Restore E s snap i = (sm, None)"
proof -
  obtain it where "Engine_NewIterator E (smEngine s) dataPrefix (kv_prefixUpperBound dataPrefix) = Inr it"
    using iterator_opens by blast
  then show ?thesis
    using commit_succeeds[of "smEngine s" "foldl (\<lambda>b (k, v). Batch_Set b (dataKey k) v)
      (foldl (\<lambda>b (k, v). Batch_Delete b k) NewBatch it) (Pairs snap)" "\<lparr>Sync = True\<rparr>"]
    by (auto simp: Restore_def Let_def split: prod.splits option.splits)
qed

lemma RestoreSnapshotBoundary_sure:
  assumes "inv pl"
  shows "\<exists>pl'. RestoreSnapshotBoundary E pl li lt = Some (pl', None)"
proof -
  let ?b = "Batch_Set (Batch_Set (map (\<lambda>i. BatchDelete (logKey i)) (u64_range (firstIndex pl) (lastIndex pl)))
    keyLastIncludedIndex (put_u64 li)) keyLastIncludedTerm (put_u64 lt)"
  show ?thesis
    using commit_succeeds[of "plEngine pl" ?b "\<lparr>Sync = True\<rparr>"]
    by (auto simp: RestoreSnapshotBoundary_unfold[OF plog_invD(1)[OF assms]] Let_def split: prod.splits option.splits)
qed

end

section \<open>A pushed snapshot\<close>

text \<open>The snapshot that the handler puts in place: of a term not behind, newer than the node's own, one
  that decodes and could be saved.\<close>

definition accepted_snapshot :: "codec \<Rightarrow> 'd node \<Rightarrow> install_snapshot_request \<Rightarrow> snapshot option" where
  "accepted_snapshot C n req =
     (if isTerm req < currentTerm (nLog n) then None
      else
        let (st, r) = LoadLatest C (nSnapStore n)
        in if (case r of Inr (Some (snap, meta)) \<Rightarrow> smLastIncludedIndex meta \<ge> isLastIncludedIndex req | _ \<Rightarrow> False)
           then None
           else (case UnmarshalSnapshot C (isData req) of
                   Inl err \<Rightarrow> None
                 | Inr snap \<Rightarrow>
                     if snd (Save C st snap \<lparr>smLastIncludedIndex = isLastIncludedIndex req,
                       smLastIncludedTerm = isLastIncludedTerm req\<rparr>) = None
                     then Some snap else None))"

context raft_storage_sure
begin

text \<open>The node after the term check, with the term, role and leader of the request.\<close>

lemma install_prepared:
  assumes inv: "node_inv n" and t: "\<not> isTerm req < currentTerm (nLog n)"
  shows "\<exists>m. HandleInstallSnapshot E C n req
      = map_option (\<lambda>n'. (n', \<lparr>isrTerm = isTerm req\<rparr>)) (install_snapshot E C m req) \<and>
    \<not> isTerm req < currentTerm (nLog m) \<and> node_inv m \<and> logBase (node_log m) = logBase (node_log n) \<and>
    logEntries (node_log m) = logEntries (node_log n) \<and> stored_kv content m = stored_kv content n \<and>
    nCommitIndex m = nCommitIndex n \<and> nLastApplied m = nLastApplied n \<and>
    accepted_snapshot C m req = accepted_snapshot C n req"
proof -
  define k where "k = (if isTerm req > currentTerm (nLog n) then set_term_and_vote E (isTerm req) [] n else n)"
  define m where "m = resetElectionTimer (k\<lparr>nRole := Follower, nLeaderID := isLeaderID req\<rparr>)"
  have c: "(if isTerm req > currentTerm (nLog n) then isTerm req else currentTerm (nLog n)) = isTerm req"
    using t by auto
  have h: "HandleInstallSnapshot E C n req
      = map_option (\<lambda>n'. (n', \<lparr>isrTerm = isTerm req\<rparr>)) (install_snapshot E C m req)"
    using t unfolding HandleInstallSnapshot_def Let_def c k_def[symmetric] m_def by simp
  have k: "currentTerm (nLog k) = isTerm req" "node_inv k" "logBase (node_log k) = logBase (node_log n)"
    "logEntries (node_log k) = logEntries (node_log n)"
    using t inv set_term_and_vote_inv[OF inv] set_term_and_vote_entries[OF inv] by (auto simp: k_def)
  have f: "nSM k = nSM n" "nCommitIndex k = nCommitIndex n" "nLastApplied k = nLastApplied n" "nSnapStore k = nSnapStore n"
    by (simp_all add: k_def)
  have m: "nLog m = nLog k" "nSM m = nSM k" "nCommitIndex m = nCommitIndex k" "nLastApplied m = nLastApplied k"
    "nSnapStore m = nSnapStore k" by (simp_all add: m_def resetElectionTimer_def)
  have "accepted_snapshot C m req = accepted_snapshot C n req"
    using t by (simp only: accepted_snapshot_def m f k(1) if_False less_irrefl)
  then show ?thesis using h k f m by (intro exI[of _ m]) simp
qed

lemma install_snapshot_refused:
  assumes "accepted_snapshot C n req = None" and "\<not> isTerm req < currentTerm (nLog n)"
  shows "\<exists>st. install_snapshot E C n req = Some (n\<lparr>nSnapStore := st\<rparr>)"
  using assms
  by (auto simp: accepted_snapshot_def install_snapshot_def Let_def split: prod.splits sum.splits option.splits if_splits)

lemma install_snapshot_accepted:
  assumes acc: "accepted_snapshot C n req = Some snap" and inv: "node_inv n" and li: "isLastIncludedIndex req \<noteq> - 1"
  shows "\<exists>n'. install_snapshot E C n req = Some n' \<and> node_inv n' \<and> stored_kv content n' = map_of (Pairs snap) \<and>
    logBase (node_log n') = isLastIncludedIndex req \<and> logBaseTerm (node_log n') = isLastIncludedTerm req \<and>
    logEntries (node_log n') = [] \<and>
    nCommitIndex n' = isLastIncludedIndex req \<and> nLastApplied n' = isLastIncludedIndex req"
proof -
  let ?meta = "\<lparr>smLastIncludedIndex = isLastIncludedIndex req, smLastIncludedTerm = isLastIncludedTerm req\<rparr>"
  obtain st r where ll: "LoadLatest C (nSnapStore n) = (st, r)" by force
  define stale where "stale =
    (case r of Inr (Some (snap, meta)) \<Rightarrow> smLastIncludedIndex meta \<ge> isLastIncludedIndex req | _ \<Rightarrow> False)"
  have new: "\<not> stale" and snap: "UnmarshalSnapshot C (isData req) = Inr snap" and sv0: "snd (Save C st snap ?meta) = None"
    using acc unfolding accepted_snapshot_def ll Let_def prod.case stale_def[symmetric]
    by (auto split: sum.splits if_splits)
  obtain st1 where sv: "Save C st snap ?meta = (st1, None)" using sv0 by (metis prod.collapse)
  obtain sm where sm: "Restore E (nSM n) snap (isLastIncludedIndex req) = (sm, None)" using Restore_sure by blast
  obtain pl where pl: "RestoreSnapshotBoundary E (nLog n) (isLastIncludedIndex req) (isLastIncludedTerm req) = Some (pl, None)"
    using RestoreSnapshotBoundary_sure[OF inv] by blast
  have i: "install_snapshot E C n req = Some (n\<lparr>nSnapStore := st1, nSM := sm, nLog := pl,
      nLastApplied := isLastIncludedIndex req, nCommitIndex := isLastIncludedIndex req\<rparr>)"
    unfolding install_snapshot_def ll Let_def prod.case stale_def[symmetric] using new snap sv sm pl by simp
  note D = RestoreSnapshotBoundary_done[OF inv li pl]
  show ?thesis
    unfolding i
    using Restore_done(1)[OF UnmarshalSnapshot_ok[OF snap] sm] D(1) D(2)[THEN arg_cong, of logBase]
      D(2)[THEN arg_cong, of logBaseTerm] D(2)[THEN arg_cong, of logEntries] by (simp add: alog_restore_def)
qed

end

section \<open>The properties\<close>


text \<open>
  A follower that has committed and applied two entries is sent a snapshot of the first one only: it
  goes back.
\<close>

definition ex_ahead :: "memdb node" where
  "ex_ahead = ex_follower\<lparr>nCommitIndex := 2, nLastApplied := 2\<rparr>"

definition ex_push :: install_snapshot_request where
  "ex_push = \<lparr>isTerm = 3, isLeaderID = ''a'', isLastIncludedIndex = 1, isLastIncludedTerm = 1, isData = ex_snap_bytes\<rparr>"

lemma ex_push_accepted: "accepted_snapshot gob_codec ex_ahead ex_push = Some ex_snap"
  by code_simp


text \<open>C14.
  Recovery. A node starts again on the storage of a log that was valid, with a snapshot on disk of the
  first \<open>i\<close> entries of a history. It comes up as a follower with the log, the term and the vote it had,
  with the snapshot's store, and commit and applied index at \<open>i\<close>. When it then learns that \<open>c\<close> entries are
  committed and applies them, its store is the one of the history followed by the log's entries up to
  \<open>c\<close>, whatever its store held before.
\<close>

theorem restart_recovers:
  assumes "raft_storage_sure E content C" and "stored_inv content C n"
    and "LoadLatest C st = (st', Inr (Some (snap, meta)))" and "i = smLastIncludedIndex meta"
    and "map_of (Pairs snap) = kv_replay history Map.empty"
    and "logBase (stored_log content C n) \<le> i" and "i \<le> c" and "c \<le> lastIndex (nLog n)"
  shows "\<exists>m. NewNode E C nid peers opts (plEngine (nLog n)) sm st addr = Some (Inr m) \<and>
    nRole m = Follower \<and> stored_inv content C m \<and> stored_log content C m = stored_log content C n \<and>
    stored_kv content m = kv_replay history Map.empty \<and> nCommitIndex m = i \<and> nLastApplied m = i \<and>
    (\<exists>m'. applyCommitted E C (m\<lparr>nCommitIndex := c\<rparr>) = Some m' \<and> nLastApplied m' = c \<and>
       stored_kv content m' = kv_replay (history @ log_slice (stored_log content C n) (i + 1) c) Map.empty)"
proof -
  have rs: "raft_storage_reads E content C" "engine_contract E content" "codec_contract C"
    using assms(1) by (simp_all add: raft_storage_sure_def raft_storage_reads_def engine_reads_def)
  have ok: "gomap_ok (Pairs snap)"
    using assms(3) codec_contract.UnmarshalSnapshot_ok[OF rs(3)]
    by (auto simp: LoadLatest_def split: prod.splits sum.splits if_splits)
  obtain sm' where r: "Restore E sm snap i = (sm', None)" using raft_storage_sure.Restore_sure[OF assms(1)] by blast
  note kv = engine_contract.Restore_done(1)[OF rs(2) ok r]
  obtain m where m: "NewNode E C nid peers opts (plEngine (nLog n)) sm st addr = Some (Inr m)"
    "nRole m = Follower" "nLog m = cold (nLog n)" "nSM m = sm'" "nCommitIndex m = i" "nLastApplied m = i"
    using raft_storage_reads.OpenPersistentLog_reopens[OF rs(1) assms(2)] assms(3,4) r
    by (auto simp: NewNode_def Let_def)
  have inv: "stored_inv content C (m\<lparr>nCommitIndex := c\<rparr>)" using cold_inv[OF assms(2)] by (simp add: m)
  have "\<exists>m'. applyCommitted E C (m\<lparr>nCommitIndex := c\<rparr>) = Some m' \<and> nLastApplied m' = c \<and>
      stored_kv content m' = kv_replay (log_slice (stored_log content C n) (i + 1) c) (map_of (Pairs snap))"
    using raft_storage_sure.applyCommitted_all[OF assms(1) inv] assms(6-8) kv
    by (auto simp: m cold_def[THEN arg_cong, of lastIndex])
  then show ?thesis using m inv kv assms(5) by (intro exI[of _ m]) simp
qed

text \<open>The follower's disk, with a snapshot of the first of its two entries.\<close>

definition ex_saved :: snapshot_store where
  "ex_saved = fst (Save gob_codec ex_store0 \<lparr>Pairs = [(''k'', [1])]\<rparr> \<lparr>smLastIncludedIndex = 1, smLastIncludedTerm = 1\<rparr>)"

lemma ex_saved_loads: "snd (LoadLatest gob_codec ex_saved)
    = Inr (Some (\<lparr>Pairs = [(''k'', [1])]\<rparr>, \<lparr>smLastIncludedIndex = 1, smLastIncludedTerm = 1\<rparr>))"
  by code_simp

theorem restart_recovers_witness:
  "\<exists>m m'. NewNode sureE gob_codec ''b'' [] ex_opts (plEngine (nLog ex_follower)) (NewStateMachine mem_empty) ex_saved ''x''
       = Some (Inr m) \<and> nLastApplied m = 1 \<and> applyCommitted sureE gob_codec (m\<lparr>nCommitIndex := 2\<rparr>) = Some m' \<and>
     nLastApplied m' = 2 \<and> stored_kv mem_content m' = kv_replay [ex_entry 1 1, ex_entry 2 1] Map.empty"
proof -
  let ?snap = "\<lparr>Pairs = [(''k'', [1])]\<rparr> :: snapshot"
  obtain st where st: "LoadLatest gob_codec ex_saved
      = (st, Inr (Some (?snap, \<lparr>smLastIncludedIndex = 1, smLastIncludedTerm = 1\<rparr>)))"
    using ex_saved_loads by (metis prod.collapse)
  have kv: "map_of (Pairs ?snap) = kv_replay [ex_entry 1 1] Map.empty"
    by (simp add: kv_apply_def ex_entry_def EntryPut_def)
  have slice: "log_slice (stored_log mem_content gob_codec ex_follower) (1 + 1) 2 = [ex_entry 2 1]"
    unfolding ex_follower_log by (simp add: log_slice_def u64_range_def alog_entry_def alog_last_def)
  have "logBase (stored_log mem_content gob_codec ex_follower) \<le> 1" unfolding ex_follower_log by simp
  from restart_recovers[OF sstore.raft_storage_sure_axioms ex_follower_inv st _ kv this, of 2, unfolded slice]
  show ?thesis using ex_fields(5) by fastforce
qed

section \<open>An install that failed counts as a match\<close>

text \<open>
  The answer of \<^verbatim>\<open>HandleInstallSnapshot\<close> does not say whether the snapshot was put in place. A follower
  that could not decode or save it keeps its store and its log, and the leader still records the
  snapshot's boundary as replicated to it.
\<close>

lemma failed_install_counts_as_match:
  assumes "raft_storage_sure E content C" and "stored_inv content C f"
    and "accepted_snapshot C f req = None" and "currentTerm (nLog f) \<le> isTerm req"
    and "nRole n = Leader" and "currentTerm (nLog n) = isTerm req"
  shows "\<exists>f' resp. HandleInstallSnapshot E C f req = Some (f', resp) \<and>
    logEntries (stored_log content C f') = logEntries (stored_log content C f) \<and>
    stored_kv content f' = stored_kv content f \<and>
    lookup0 (nMatchIndex (sendInstallSnapshot_response E n peer (isTerm req) (isLastIncludedIndex req) resp)) peer
      = isLastIncludedIndex req"
proof -
  obtain m where m: "HandleInstallSnapshot E C f req
      = map_option (\<lambda>f'. (f', \<lparr>isrTerm = isTerm req\<rparr>)) (install_snapshot E C m req)"
    "\<not> isTerm req < currentTerm (nLog m)"
    "logEntries (stored_log content C m) = logEntries (stored_log content C f)"
    "stored_kv content m = stored_kv content f" "accepted_snapshot C m req = None"
    using raft_storage_sure.install_prepared[OF assms(1,2), of req] assms(3,4) by (auto simp: not_less)
  obtain st where "install_snapshot E C m req = Some (m\<lparr>nSnapStore := st\<rparr>)"
    using raft_storage_sure.install_snapshot_refused[OF assms(1) m(5,2)] by blast
  then show ?thesis
    using m assms(5,6) by (simp add: sendInstallSnapshot_response_def)
qed

end
