(* ===== verification/Lost_Commit.thy ===== *)
theory Lost_Commit
  imports Matching_Properties
begin

text \<open>
  A run of the cluster of \<^const>\<open>replicas_step\<close> in which a committed entry is lost: Leader Completeness does
  not hold of the code. An \<^verbatim>\<open>AppendEntries\<close> that arrives late cuts off the entries that the follower
  has acknowledged since, and the follower then wins an election without them.
\<close>

section \<open>An election leaves the logs alone\<close>

context raft_storage_sure
begin

lemma new_leader_log:
  assumes "becomeLeader_locked n = (m, b)"
  shows "nLog m = nLog n"
  using becomeLeader_locked_frame[OF assms] by simp

lemma candidate_log:
  assumes "node_inv n" and "becomeCandidate E n = (n', t)"
  shows "node_inv (resetElectionTimer n')" "logEntries (node_log (resetElectionTimer n')) = logEntries (node_log n)"
proof -
  have "nLog (resetElectionTimer n') = nLog (set_term_and_vote E t (nID n) n)"
    using assms(2) by (auto simp: becomeCandidate_def becomeCandidate_set_def Let_def resetElectionTimer_def)
  then show "node_inv (resetElectionTimer n')" "logEntries (node_log (resetElectionTimer n')) = logEntries (node_log n)"
    using set_term_and_vote_inv[OF assms(1)] set_term_and_vote_entries[OF assms(1)] by simp_all
qed

lemma kept_log:
  "kept n m \<Longrightarrow> node_inv m \<and> logEntries (node_log m) = logEntries (node_log n)"
  by (simp add: log_kept_def)

lemma voting_step_logs:
  assumes "voting_step E C members s s'" and inv: "\<And>i. node_inv (cNodes s i)"
  shows "node_inv (cNodes s' i) \<and> logEntries (node_log (cNodes s' i)) = logEntries (node_log (cNodes s i))"
  using assms(1)
proof cases
  case (start_election j n t m req)
  then show ?thesis using candidate_log[OF inv start_election(5)] inv by simp
next
  case (start_alone j n t m b)
  then show ?thesis using candidate_log[OF inv start_alone(5)] new_leader_log[OF start_alone(6)] inv by simp
next
  case (vote_rpc j req m resp)
  then show ?thesis using kept_log[OF HandleRequestVote_kept[OF inv vote_rpc(5)]] inv by simp
next
  case (vote_result j a k resp m el)
  have "kept (cNodes s j) m" using election_step_kept[OF inv] vote_result(7) by (metis fst_conv)
  then show ?thesis using kept_log inv by (simp add: vote_result(1))
next
  case (vote_error j a k err m el)
  have "kept (cNodes s j) m" using election_step_kept[OF inv] vote_error(8) by (metis fst_conv)
  then show ?thesis using kept_log inv by (simp add: vote_error(1))
next
  case (win j a m b)
  then show ?thesis using new_leader_log[OF win(6)] inv by simp
next
  case (give_up j)
  then show ?thesis using inv by simp
qed

lemma voting_logs:
  assumes "(voting_step E C members)\<^sup>*\<^sup>* s s'" and inv: "\<And>i. node_inv (cNodes s i)"
  shows "node_inv (cNodes s' i) \<and> logEntries (node_log (cNodes s' i)) = logEntries (node_log (cNodes s i))"
  using assms(1)
proof (induction arbitrary: i rule: rtranclp_induct)
  case (step b c)
  then show ?case using voting_step_logs[OF step.hyps(2)] by simp
qed (simp add: inv)

end

section \<open>The run\<close>

text \<open>
  The leader a of \<^const>\<open>ex_writer\<close> has sent its no-op to b (\<^const>\<open>ex_append\<close>), and the request is still
  under way. It writes an entry, sends both entries to b in a second request, learns that b has them,
  and commits. Then the first request arrives at b.
\<close>

definition ex_entry2 :: entry where
  "ex_entry2 = \<lparr>eIndex = 2, eTerm = 1, eType = EntryPut, eKey = ''k'', eValue = [1], eClientRequestID = ''r''\<rparr>"

definition ex_proposer :: "memdb node" where
  "ex_proposer = fst (the (Propose_locked sureE gob_codec ex_writer EntryPut ''k'' [1] ''r''))"

definition ex_append2 :: append_entries_request where
  "ex_append2 = ex_append\<lparr>aeEntries := [ex_noop\<lparr>eTerm := 1, eIndex := 1\<rparr>, ex_entry2]\<rparr>"

definition ex_copy :: "memdb node" where
  "ex_copy = fst (the (HandleAppendEntries sureE gob_codec ex_voter ex_append2))"

definition ex_acked :: "memdb node" where
  "ex_acked = replicateToPeer_response sureE gob_codec ex_proposer ''b'' 1 (aeEntries ex_append2) (ae_response 1 True)"

definition ex_committer :: "memdb node" where
  "ex_committer = tryAdvanceCommitIndex sureE gob_codec ex_acked 1"

definition ex_cut :: "memdb node" where
  "ex_cut = fst (the (HandleAppendEntries sureE gob_codec ex_copy ex_append))"

lemma ex_proposer_view:
  "map_option (node_view \<circ> fst) (Propose_locked sureE gob_codec ex_writer EntryPut ''k'' [1] ''r'')
    = Some (Leader, 1, 2, 1, [\<lparr>piID = ''b''\<rparr>, \<lparr>piID = ''c''\<rparr>], 0, Inr ex_entry2)"
  by code_simp

lemma ex_proposer_request: "replicateToPeer_request sureE gob_codec ex_proposer ''b'' 1 = Some (SendAppend ex_append2)"
  by code_simp

text \<open>The answer of b to the second request is the one that a then handles.\<close>

lemma ex_copy_answer:
  "map_option snd (HandleAppendEntries sureE gob_codec ex_voter ex_append2) = Some (ae_response 1 True)"
  by code_simp

lemma ex_committer_view: "node_view ex_committer
    = (Leader, 1, 2, 1, [\<lparr>piID = ''b''\<rparr>, \<lparr>piID = ''c''\<rparr>], 2, Inr ex_entry2)"
  by code_simp

lemma ex_cut_view: "map_option (node_view \<circ> fst) (HandleAppendEntries sureE gob_codec ex_copy ex_append)
    = Some (Follower, 1, 1, 1, [\<lparr>piID = ''a''\<rparr>, \<lparr>piID = ''c''\<rparr>], 0, Inr (ex_noop\<lparr>eTerm := 1, eIndex := 1\<rparr>))"
  by code_simp

lemmas ex_cut_values = map_option_the[OF ex_cut_view, unfolded node_view_def, simplified, folded ex_cut_def]

lemma ex_lost_facts:
  "Propose_locked sureE gob_codec ex_writer EntryPut ''k'' [1] ''r'' \<noteq> None" "nPeers ex_proposer = [\<lparr>piID = ''b''\<rparr>, \<lparr>piID = ''c''\<rparr>]"
  "HandleAppendEntries sureE gob_codec ex_voter ex_append2 \<noteq> None" "HandleAppendEntries sureE gob_codec ex_copy ex_append \<noteq> None"
  using map_option_the[OF ex_proposer_view] map_option_the[OF ex_copy_answer] map_option_the[OF ex_cut_view]
  by (simp_all add: node_view_def ex_proposer_def)

lemma ex_lost_values:
  "nRole ex_committer = Leader" "currentTerm (nLog ex_committer) = 1" "nCommitIndex ex_committer = 2"
  "Log_Get sureE gob_codec (nLog ex_committer) 2 = Inr ex_entry2"
  "lastIndex (nLog ex_cut) = 1" "LastTerm sureE gob_codec (nLog ex_cut) = 1" "currentTerm (nLog ex_cut) = 1"
  using ex_committer_view ex_cut_values by (auto simp: node_view_def)

definition ex_committed :: "memdb replicas" where
  "ex_committed = set_replica ''a'' ex_committer (set_replica ''a'' ex_acked (set_replica ''b'' ex_copy
     ((set_replica ''a'' ex_proposer ex_sent)\<lparr>rAppends := {(''b'', ex_append2), (''b'', ex_append)}\<rparr>)))"

definition ex_late :: "memdb replicas" where
  "ex_late = set_replica ''b'' ex_cut ex_committed"

lemma ex_committed_reach: "replicas_reach sureE gob_codec ex_members ex_sent ex_committed"
proof -
  let ?s1 = "set_replica ''a'' ex_proposer ex_sent"
  let ?s2 = "?s1\<lparr>rAppends := {(''b'', ex_append2), (''b'', ex_append)}\<rparr>"
  let ?s3 = "set_replica ''b'' ex_copy ?s2"
  let ?s4 = "set_replica ''a'' ex_acked ?s3"
  have m: "''a'' \<in> ex_members" "''b'' \<in> ex_members" by (simp_all add: ex_members_def)
  obtain r where "Propose_locked sureE gob_codec ex_writer EntryPut ''k'' [1] ''r'' = Some (ex_proposer, r)"
    using ex_lost_facts(1) by (auto simp: ex_proposer_def)
  then have 1: "replicas_step sureE gob_codec ex_members ex_sent ?s1"
    by (intro replicas_step.client_write[OF m(1)]) (use ex_written in \<open>simp_all add: ex_sent_nodes\<close>)
  have 2: "replicas_step sureE gob_codec ex_members ?s1 ?s2"
    using replicas_step.send_append[OF m(1), of "\<lparr>piID = ''b''\<rparr>" ?s1 sureE gob_codec 1 ex_append2]
      ex_proposer_request ex_lost_facts(2) by (simp add: ex_sent_nodes)
  obtain r' where "HandleAppendEntries sureE gob_codec ex_voter ex_append2 = Some (ex_copy, r')"
    using ex_lost_facts(3) by (auto simp: ex_copy_def)
  then have 3: "replicas_step sureE gob_codec ex_members ?s2 ?s3"
    by (intro replicas_step.deliver_append[OF m(2)]) (simp_all add: ex_sent_nodes)
  have 4: "replicas_step sureE gob_codec ex_members ?s3 ?s4"
    by (rule replicas_step.quiet[OF m(1)]) (simp add: ex_acked_def quiet_op.quiet_response)
  have 5: "replicas_step sureE gob_codec ex_members ?s4 ex_committed"
    unfolding ex_committed_def
    by (rule replicas_step.quiet[OF m(1)]) (simp add: ex_committer_def quiet_op.quiet_advance)
  show ?thesis using 1 2 3 4 5 by (meson r_into_rtranclp rtranclp_trans)
qed

lemma ex_late_step: "replicas_step sureE gob_codec ex_members ex_committed ex_late"
proof -
  obtain r where "HandleAppendEntries sureE gob_codec ex_copy ex_append = Some (ex_cut, r)"
    using ex_lost_facts(4) by (auto simp: ex_cut_def)
  then show ?thesis
    unfolding ex_late_def by (intro replicas_step.deliver_append) (simp_all add: ex_committed_def ex_members_def)
qed

lemma ex_late_nodes:
  "replica ex_late ''b'' = ex_cut" "i \<notin> {''a'', ''b''} \<Longrightarrow> replica ex_late i = cNodes ex_cluster i"
  by (simp_all add: ex_late_def ex_committed_def ex_sent_nodes)

lemma ex_members_facts: "finite ex_members" "[] \<notin> ex_members" "''a'' \<in> ex_members" "''b'' \<in> ex_members" "''c'' \<in> ex_members"
  by (simp_all add: ex_members_def)

lemma ex_reach_inv:
  assumes "replicas_reach sureE gob_codec ex_members ex_start s"
  obtains L where "matching_inv mem_content gob_codec ex_members L s"
  using sstore.replicas_reach_inv[OF assms ex_start_ok ex_members_facts(2,1)] by blast

text \<open>Node b wins the election of term 2 with the vote of c.\<close>

lemma ex_elected_late:
  assumes reach: "replicas_reach sureE gob_codec ex_members ex_start ex_late"
  shows "\<exists>s. (voting_step sureE gob_codec ex_members)\<^sup>*\<^sup>* (rCluster ex_late) s \<and>
    nRole (cNodes s ''b'') = Leader \<and> currentTerm (nLog (cNodes s ''b'')) = 2 \<and>
    length (logEntries (stored_log mem_content gob_codec (cNodes s ''b''))) = 1"
proof -
  note m = ex_members_facts
  obtain L where L: "matching_inv mem_content gob_codec ex_members L ex_late" using ex_reach_inv[OF reach] by blast
  note R = replica_okD[OF matching_invD(2)[OF L]]
  have inv: "stored_inv mem_content gob_codec (replica ex_late i)" for i
  proof (cases "i \<in> {''a'', ''b''}")
    case True
    then show ?thesis using R(2) m by blast
  next
    case False
    then show ?thesis using ex_node0_inv by (simp add: ex_late_nodes ex_cluster_def)
  qed
  have b: "alog_last (stored_log mem_content gob_codec ex_cut) = 1" "alog_last_term (stored_log mem_content gob_codec ex_cut) = 1"
    using inv[of "''b''"] plog_invD(1)[OF inv[of "''b''"]] sstore.LastTerm_abs[of "nLog ex_cut"] ex_lost_values(5,6)
    by (simp_all add: ex_late_nodes)
  have ok: "member_ok mem_content ex_members ''b'' (replica ex_late ''b'')"
    by (rule cluster_invD(1)[OF matching_invD(1)[OF L] m(4)])
  have c: "replica ex_late ''c'' = ex_node ''c'' [''a'', ''b''] ex_log0" by (simp add: ex_late_nodes ex_cluster_def)
  have up: "up_to_date (stored_log mem_content gob_codec (replica ex_late ''c'')) 1 1"
    unfolding c by (simp add: ex_log0_abs up_to_date_def alog_last_def alog_last_term_def)
  have "\<exists>s. (voting_step sureE gob_codec ex_members)\<^sup>*\<^sup>* (rCluster ex_late) s \<and> nRole (cNodes s ''b'') = Leader \<and>
      currentTerm (nLog (cNodes s ''b'')) = currentTerm (nLog (replica ex_late ''b'')) + 1"
    by (rule sstore.election_run[OF m(1,4) ok inv, where Q = "{''c''}"])
      (use b up inv ex_log0_inv ex_lost_values(7) in \<open>auto simp: ex_late_nodes ex_members_def c ex_log0_def[THEN arg_cong, of currentTerm]\<close>)
  moreover have "length (logEntries (stored_log mem_content gob_codec ex_cut)) = 1"
    using plain_log(3)[OF R(1)[OF m(4)]] ex_lost_values(5) by (simp add: ex_late_nodes)
  ultimately show ?thesis
    using sstore.voting_logs[OF _ inv] ex_lost_values(7) by (fastforce simp: ex_late_nodes)
qed

section \<open>The property\<close>


end
