(* ===== verification/Spec2Isabelle.thy ===== *)
theory Spec2Isabelle
  imports Log_Properties Snapshot_Properties Election_Properties Client_Properties Server_Properties
    Timer_Properties Invariant_Properties Matching_Properties Recovery_Properties Lost_Commit
begin

text \<open>
  A verification of \<^verbatim>\<open>distributed-kv\<close>, a key-value store in Go that is replicated by the Raft protocol.
  All paths are under \<^verbatim>\<open>src/\<close>.

  \<^bold>\<open>The program.\<close> A process (\<^verbatim>\<open>cmd/node/main.go\<close>) reads its configuration, opens a Pebble database, and
  puts on it a persistent Raft log and a state machine that holds the clients' data. A \<^verbatim>\<open>Node\<close>
  (\<^verbatim>\<open>internal/raft\<close>) keeps the two together: its timer loop starts elections and sends heartbeats, its
  handlers answer the RPCs of other nodes, \<^verbatim>\<open>Propose\<close> and \<^verbatim>\<open>LinearizableRead\<close> serve clients, and its
  apply loop feeds committed entries to the state machine, with snapshots that let the log be
  compacted. \<^verbatim>\<open>internal/server\<close> translates between the node and gRPC. Each arrow of this picture is an
  interface here: the engine under the log and the state machine, the encodings, the transport under
  the node, the node under the services.

  \<^bold>\<open>The model.\<close> Data are records and datatypes with the source's fields, \<^verbatim>\<open>uint64\<close> is \<^typ>\<open>64 word\<close> with its
  wrap-around, a duration is a signed 64-bit word, byte slices are lists of \<^typ>\<open>8 word\<close>, a Go map is an
  association list without repeated keys. A method takes the state and returns the changed state and
  its results; an error is a value (\<^verbatim>\<open>goerror\<close>, with wrapping), and \<^const>\<open>None\<close> stands for a call that
  panics or does not return. What runs while a mutex is held is one definition. A function that gives
  the mutex up in between is composed of such sections, and what other goroutines do meanwhile is an
  argument: the transport of a node gets the node and returns it as others left it, a \<^verbatim>\<open>select\<close> and a
  channel of results are lists of events in any order.

  \<^item> \<^verbatim>\<open>KV_Prelude\<close>: Go's types, loops over \<^verbatim>\<open>uint64\<close>, big-endian numbers. \<^verbatim>\<open>Go_Strings\<close>: the functions of
    \<^verbatim>\<open>strings\<close> and \<^verbatim>\<open>strconv\<close> that are called.
  \<^item> \<^verbatim>\<open>Storage\<close>: \<^verbatim>\<open>internal/storage\<close>, with Pebble as a parameter. \<^verbatim>\<open>Raft_Types\<close>, \<^verbatim>\<open>Persistent_Log\<close>:
    \<^verbatim>\<open>internal/raft/log.go\<close>. \<^verbatim>\<open>State_Machine\<close>: \<^verbatim>\<open>internal/kv/state_machine.go\<close>. \<^verbatim>\<open>Gob\<close>: the encodings.
    \<^verbatim>\<open>Snapshot_Store\<close>: the files of \<^verbatim>\<open>internal/raft/snapshot.go\<close>, on a file system that may fail or stop
    at any call.
  \<^item> \<^verbatim>\<open>Raft_Node\<close>: \<^verbatim>\<open>state.go\<close>, the role changes of \<^verbatim>\<open>node_lifecycle.go\<close> and the blocked callers.
    \<^verbatim>\<open>Snapshotting\<close>: the rest of \<^verbatim>\<open>snapshot.go\<close>. \<^verbatim>\<open>Replication\<close>, \<^verbatim>\<open>Election\<close>: \<^verbatim>\<open>replication.go\<close> and
    \<^verbatim>\<open>election.go\<close>. \<^verbatim>\<open>Client_Ops\<close>: \<^verbatim>\<open>propose.go\<close>, \<^verbatim>\<open>readindex.go\<close> and \<^verbatim>\<open>applyCommitted\<close>. \<^verbatim>\<open>Timers\<close>: the loops
    of \<^verbatim>\<open>node_lifecycle.go\<close> and \<^verbatim>\<open>rand.go\<close>.
  \<^item> \<^verbatim>\<open>Server\<close>: the transport and the two services of \<^verbatim>\<open>internal/server\<close>, with gRPC as a parameter.
    \<^verbatim>\<open>Config\<close>: \<^verbatim>\<open>internal/config/config.go\<close>. \<^verbatim>\<open>Boot\<close>: \<^verbatim>\<open>cmd/node/main.go\<close> up to the servers.

  \<^bold>\<open>The interfaces.\<close> \<^verbatim>\<open>pebble_contract\<close> is Pebble's documented behaviour and \<^verbatim>\<open>engine_contract\<close> what
  \<^verbatim>\<open>storage.go\<close> promises of an engine; the adapter is a sublocale of the second given the first.
  \<^verbatim>\<open>codec_contract\<close> says that a decoded value is the encoded one. \<^verbatim>\<open>raft_storage\<close> joins engine and
  encoding, with every call allowed to fail; \<^verbatim>\<open>raft_storage_reads\<close> adds that reads do not fail, and
  \<^verbatim>\<open>raft_storage_sure\<close> that writes do not either, which the voting code needs because it drops the
  errors of \<^verbatim>\<open>SetTermAndVote\<close>. All are interpreted: the adapter on an in-memory Pebble with a script of
  faults, and on one without faults, with the encodings of \<^verbatim>\<open>Gob\<close>.

  \<^bold>\<open>What is shown.\<close>
  \<^item> Storage (\<^verbatim>\<open>Persistent_Log_Proofs\<close>, \<^verbatim>\<open>Log_Properties\<close>, \<^verbatim>\<open>Snapshot_Properties\<close>): the adapter implements
    the engine; through any sequence of calls, failures and reopenings the log implements an abstract
    log of a boundary and a list of entries, whichever entries are cached; the state machine is a map;
    a snapshot carries the whole store, and saving it survives a crash at any point.
  \<^item> Voting (\<^verbatim>\<open>Node_Proofs\<close>, \<^verbatim>\<open>Vote_Proofs\<close>, \<^verbatim>\<open>Cluster\<close>, \<^verbatim>\<open>Election_Properties\<close>): when a vote is granted;
    Election Safety for a cluster over an unreliable network with restarts and arbitrary other RPCs;
    that an election can be won.
  \<^item> Replication (\<^verbatim>\<open>Replication_Proofs\<close>, \<^verbatim>\<open>Replication_Properties\<close>): what leader and follower do on every
    branch, that a round leaves them in agreement, that refusals make progress, when a leader commits.
    \<^verbatim>\<open>Log_Matching\<close>, \<^verbatim>\<open>Matching_Properties\<close>: Log Matching for every reachable state of a cluster.
  \<^item> Clients (\<^verbatim>\<open>Client_Proofs\<close>, \<^verbatim>\<open>Waiters\<close>, \<^verbatim>\<open>Client_Properties\<close>): the apply loop replays the log into the
    store also while it takes snapshots, proposals and their waiters, the majority behind a read.
    \<^verbatim>\<open>Recovery_Properties\<close>: a pushed snapshot, and a restart from disk.
  \<^item> The node over time (\<^verbatim>\<open>Node_Invariants\<close>, \<^verbatim>\<open>Invariant_Properties\<close>): it stays well-formed through any
    sequence of its sections, and the apply loop is never left asleep with work to do.
  \<^item> The edges (\<^verbatim>\<open>Server_Properties\<close>, \<^verbatim>\<open>Timer_Properties\<close>, \<^verbatim>\<open>Startup_Properties\<close>): the RPC boundary and the
    cache of connections change nothing, what a status says about the node, the range of the election
    timeouts, that a reset puts an election off, what \<^verbatim>\<open>Load\<close> accepts.

  Several theorems state how the code departs from the protocol: a delayed \<^verbatim>\<open>AppendEntries\<close> drops later
  entries, the heartbeat of a read commits a stale entry, a vote request inside \<^verbatim>\<open>becomeCandidate\<close> makes
  a node vote twice, a step-down by \<^verbatim>\<open>InstallSnapshot\<close> reports a lost write as done, a new leader's no-op
  is written after it has stepped down, a snapshot that failed counts as a match, a heartbeat interval
  of zero stops the node. \<^verbatim>\<open>Lost_Commit\<close> runs a cluster in which the first of these loses a committed
  entry: Leader Completeness does not hold of this code on a network that delays messages, and neither
  it nor State Machine Safety is claimed.

  \<^bold>\<open>Bounds.\<close> No fuel is used. Loops that count a \<^verbatim>\<open>uint64\<close> up to a bound are \<^verbatim>\<open>partial_function\<close>s, where not
  returning is \<^const>\<open>None\<close>: they are proved to return below the largest index, and
  \<^verbatim>\<open>restore_at_max_diverges\<close> shows that they do not return at it. The invariant of the log keeps the last
  index below \<open>2 ^ 64 - 1\<close>, and the theorems that append ask for room for one more entry. The steps of the
  clusters ask that a term to be incremented is not the largest one. The apply loop and the searches of
  fast backtracking are recursive functions with termination proofs.

  \<^bold>\<open>Assumptions on scheduling.\<close> In the clusters a handler is one step. The code releases the mutex inside
  some handlers; where that matters it is stated as a theorem (\<^verbatim>\<open>becomeCandidate_double_vote\<close>,
  \<^verbatim>\<open>noop_written_after_step_down\<close>). Log Matching is for clusters with \<^verbatim>\<open>SnapshotThreshold\<close> zero, in which
  no log is compacted.

  \<^bold>\<open>Not modelled.\<close>
  \<^item> \<^verbatim>\<open>cmd/benchmark\<close>: a load generator whose results are measured times.
  \<^item> The listeners, gRPC servers and signal handling of \<^verbatim>\<open>cmd/node/main.go\<close>: input and output without
    state of their own. The handlers they call are modelled.
  \<^item> \<^verbatim>\<open>proto/raftpb\<close> and \<^verbatim>\<open>proto/kvpb\<close>: generated by \<^verbatim>\<open>protoc\<close>; the messages are taken from the \<^verbatim>\<open>.proto\<close> files.
  \<^item> Pebble, gRPC, \<^verbatim>\<open>json.Unmarshal\<close> of the configuration file and \<^verbatim>\<open>rand.NewSource\<close> are parameters. Of the
    last two nothing is assumed.
  \<^item> Time: a timer is armed with a duration and may fire at any later moment; contexts end at any moment.
  \<^item> \<^verbatim>\<open>filepath.Clean\<close> inside \<^verbatim>\<open>filepath.Join\<close>, the quoting of bytes outside ASCII in error texts, and logging.
\<close>

end
